(* ===== verification/Prelude.thy ===== *)
theory Prelude imports Main "HOL-Library.Word" "HOL-Library.Sublist" begin

text \<open>
  Shared vocabulary of the development: how Go's strings, slices, times, callbacks, map
  iterations and buffered channels are represented, with the lemmas the component theories use
  about them.

  \<^item> A Go \<open>string\<close> or \<open>[]byte\<close> is a list of bytes; an Isabelle \<open>char\<close> is one byte.
  \<^item> A slice that may be \<open>nil\<close> is an option: \<open>None\<close> is \<open>nil\<close>, \<open>Some []\<close> an empty slice
    that is not \<open>nil\<close>.  The program distinguishes the two.
  \<^item> A \<open>time.Time\<close> in UTC is the number of nanoseconds since Go's zero time, so \<open>IsZero\<close> is
    \<open>t = 0\<close>; a \<open>time.Duration\<close> is a number of nanoseconds.  Every call of \<open>time.Now()\<close> is an
    argument of the operation that makes it.
  \<^item> A registered callback is a function on the state of its environment that either returns
    or panics.
  \<^item> Go ranges over a map in an unspecified order; an operation that does so takes the order as
    an argument, a list of keys that \<open>enumerates\<close> the map.
\<close>

section \<open>Data\<close>

type_synonym bytes = "char list"
type_synonym gotime = int
type_synonym duration = int
type_synonym uint64 = "64 word"
type_synonym 'a slice = "'a list option"

named_theorems slice_simps \<open>evaluation of slice operations\<close>
named_theorems iter_simps \<open>ranging over maps\<close>

definition elems :: "'a slice \<Rightarrow> 'a list" where
  "elems s = (case s of None \<Rightarrow> [] | Some xs \<Rightarrow> xs)"

definition appendNil :: "'a slice \<Rightarrow> 'a slice" where
  \<comment> \<open>\<open>append([]T(nil), s...)\<close>: a fresh copy, which is \<open>nil\<close> when \<open>s\<close> is empty\<close>
  "appendNil s = (case elems s of [] \<Rightarrow> None | x # xs \<Rightarrow> Some (x # xs))"

lemma elems_simps [simp, slice_simps]:
  "elems None = []" "elems (Some xs) = xs"
  by (simp_all add: elems_def)

lemma elems_appendNil [simp, slice_simps]: "elems (appendNil s) = elems s"
  by (simp add: appendNil_def split: list.splits)

lemma appendNil_None_iff: "appendNil s = None \<longleftrightarrow> elems s = []"
  by (simp add: appendNil_def split: list.splits)

lemma appendNil_idem [simp, slice_simps]: "appendNil (appendNil s) = appendNil s"
  by (simp add: appendNil_def split: list.splits)

definition Second :: duration where "Second = 1000000000"
definition Millisecond :: duration where "Millisecond = 1000000"
definition Minute :: duration where "Minute = 60 * Second"

text \<open>The result of a call that may panic.\<close>

datatype 'r outcome = Returns 'r | Panics

section \<open>Callbacks\<close>

datatype 'e hresult = Returned 'e | Panicked 'e

primrec hstate :: "'e hresult \<Rightarrow> 'e" where
  "hstate (Returned e) = e"
| "hstate (Panicked e) = e"

type_synonym ('ev, 'e) handler = "'ev \<Rightarrow> 'e \<Rightarrow> 'e hresult"

text \<open>
  \<open>fire_recover\<close> is the loop that wraps each call in a function with a deferred \<open>recover\<close>: a
  panic ends that handler only.  \<open>fire_plain\<close> is the bare loop: a panic ends the loop and goes on
  to the caller.
\<close>

primrec fire_recover :: "('ev, 'e) handler list \<Rightarrow> 'ev \<Rightarrow> 'e \<Rightarrow> 'e" where
  "fire_recover [] ev e = e"
| "fire_recover (h # hs) ev e = fire_recover hs ev (hstate (h ev e))"

primrec fire_plain :: "('ev, 'e) handler list \<Rightarrow> 'ev \<Rightarrow> 'e \<Rightarrow> 'e hresult" where
  "fire_plain [] ev e = Returned e"
| "fire_plain (h # hs) ev e =
     (case h ev e of Returned e' \<Rightarrow> fire_plain hs ev e' | Panicked e' \<Rightarrow> Panicked e')"

lemma fire_recover_fold: "fire_recover hs ev e = fold (\<lambda>h e. hstate (h ev e)) hs e"
  by (induction hs arbitrary: e) simp_all

lemma fire_recover_append [simp]:
  "fire_recover (hs @ hs') ev e = fire_recover hs' ev (fire_recover hs ev e)"
  by (simp add: fire_recover_fold)

lemma fire_recover_invariant:
  assumes "\<And>h e. h \<in> set hs \<Longrightarrow> P e \<Longrightarrow> P (hstate (h ev e))" and "P e"
  shows "P (fire_recover hs ev e)"
  using assms by (induction hs arbitrary: e) auto

lemma fire_plain_returns:
  assumes "\<And>h e. h \<in> set hs \<Longrightarrow> \<exists>e'. h ev e = Returned e'"
  shows "fire_plain hs ev e = Returned (fire_recover hs ev e)"
  using assms
proof (induction hs arbitrary: e)
  case (Cons h hs)
  from Cons.prems [of h e] obtain e' where "h ev e = Returned e'" by auto
  with Cons show ?case by simp
qed simp

lemma set_singleton_distinct: "distinct xs \<Longrightarrow> set xs = {x} \<Longrightarrow> xs = [x]"
  by (cases xs) (auto simp: set_eq_iff neq_Nil_conv dest: spec, (metis list.set_intros list.exhaust)+)

section \<open>Ranging over a map\<close>

definition enumerates :: "'k list \<Rightarrow> ('k \<rightharpoonup> 'v) \<Rightarrow> bool" where
  "enumerates ks m \<longleftrightarrow> distinct ks \<and> set ks = dom m"

lemma enumeratesD [dest]:
  assumes "enumerates ks m"
  shows "distinct ks" and "set ks = dom m"
  using assms by (simp_all add: enumerates_def)

lemma enumerates_empty [simp, iter_simps]: "enumerates ks Map.empty \<longleftrightarrow> ks = []"
  by (auto simp: enumerates_def)

lemma enumerates_exists:
  assumes "finite (dom m)"
  shows "\<exists>ks. enumerates ks m"
  using finite_distinct_list [OF assms] by (auto simp: enumerates_def)

text \<open>\<open>range_values f m ks\<close> collects \<open>f k v\<close>, where it is defined, over the entries in order.\<close>

primrec range_values :: "('k \<Rightarrow> 'v \<Rightarrow> 'r option) \<Rightarrow> ('k \<rightharpoonup> 'v) \<Rightarrow> 'k list \<Rightarrow> 'r list" where
  "range_values f m [] = []"
| "range_values f m (k # ks) =
     (case m k of
        None \<Rightarrow> range_values f m ks
      | Some v \<Rightarrow> (case f k v of
            None \<Rightarrow> range_values f m ks
          | Some r \<Rightarrow> r # range_values f m ks))"

lemma set_range_values [iter_simps]:
  "set (range_values f m ks) = {r. \<exists>k \<in> set ks. \<exists>v. m k = Some v \<and> f k v = Some r}"
  by (induction ks) (auto split: option.splits)

lemma set_range_values_enum [iter_simps]:
  assumes "enumerates ks m"
  shows "set (range_values f m ks) = {r. \<exists>k v. m k = Some v \<and> f k v = Some r}"
  using enumeratesD(2) [OF assms] by (auto simp: set_range_values)

lemma distinct_range_values:
  assumes "distinct ks"
    and "\<And>k v k' v' r. m k = Some v \<Longrightarrow> m k' = Some v' \<Longrightarrow> f k v = Some r \<Longrightarrow> f k' v' = Some r \<Longrightarrow> k = k'"
  shows "distinct (range_values f m ks)"
  using assms(1)
proof (induction ks)
  case (Cons k ks)
  show ?case
  proof (cases "\<exists>v r. m k = Some v \<and> f k v = Some r")
    case True
    then obtain v r where "m k = Some v" "f k v = Some r" by blast
    with Cons assms(2) show ?thesis by (fastforce simp: set_range_values)
  next
    case False
    with Cons show ?thesis by (auto split: option.splits)
  qed
qed simp

lemma range_values_cong:
  assumes "\<And>k. k \<in> set ks \<Longrightarrow> m k = m' k"
  shows "range_values f m ks = range_values f m' ks"
  using assms by (induction ks) (auto split: option.splits)

lemma length_range_values_all:
  assumes "set ks \<subseteq> dom m"
  shows "length (range_values (\<lambda>k v. Some (g k v)) m ks) = length ks"
  using assms by (induction ks) (auto split: option.splits)

text \<open>\<open>range_update f m ks\<close> overwrites the entries in place while ranging over them.\<close>

primrec range_update :: "('k \<Rightarrow> 'v \<Rightarrow> 'v) \<Rightarrow> ('k \<rightharpoonup> 'v) \<Rightarrow> 'k list \<Rightarrow> ('k \<rightharpoonup> 'v)" where
  "range_update f m [] = m"
| "range_update f m (k # ks) =
     (case m k of
        None \<Rightarrow> range_update f m ks
      | Some v \<Rightarrow> range_update f (m(k \<mapsto> f k v)) ks)"

lemma range_update_apply [iter_simps]:
  "distinct ks \<Longrightarrow>
   range_update f m ks k = (if k \<in> set ks then map_option (f k) (m k) else m k)"
  by (induction ks arbitrary: m) (auto split: option.splits)

lemma dom_range_update [simp]: "dom (range_update f m ks) = dom m"
  by (induction ks arbitrary: m) (auto split: option.splits)

lemma range_update_enum [iter_simps]:
  assumes "enumerates ks m"
  shows "range_update f m ks k = map_option (f k) (m k)"
  using assms by (auto simp: enumerates_def range_update_apply dom_def split: option.splits)

section \<open>Loops that thread a state\<close>

text \<open>
  \<open>thread f xs s\<close> is the loop \<open>for _, x := range xs { ys = append(ys, f(x)) }\<close> over a body that
  also changes the state.
\<close>

primrec thread :: "('a \<Rightarrow> 's \<Rightarrow> 's \<times> 'b) \<Rightarrow> 'a list \<Rightarrow> 's \<Rightarrow> 's \<times> 'b list" where
  "thread f [] s = (s, [])"
| "thread f (x # xs) s =
     (let (s1, y) = f x s; (s2, ys) = thread f xs s1 in (s2, y # ys))"

lemma thread_Cons:
  "fst (thread f (x # xs) s) = fst (thread f xs (fst (f x s)))"
  "snd (thread f (x # xs) s) = snd (f x s) # snd (thread f xs (fst (f x s)))"
  by (simp_all add: Let_def split: prod.splits)

lemma thread_fst_fold: "fst (thread f xs s) = fold (\<lambda>x s. fst (f x s)) xs s"
  by (induction xs arbitrary: s) (simp_all add: thread_Cons del: thread.simps(2))

lemma length_thread [simp]: "length (snd (thread f xs s)) = length xs"
  by (induction xs arbitrary: s) (simp_all add: thread_Cons del: thread.simps(2))

lemma thread_append_fst:
  "fst (thread f (xs @ ys) s) = fst (thread f ys (fst (thread f xs s)))"
  by (simp add: thread_fst_fold)

lemma thread_nth:
  "i < length xs \<Longrightarrow> snd (thread f xs s) ! i = snd (f (xs ! i) (fst (thread f (take i xs) s)))"
proof (induction xs arbitrary: s i)
  case (Cons x xs)
  then show ?case
    by (cases i) (simp_all add: thread_Cons del: thread.simps(2))
qed simp

lemma thread_invariant:
  assumes "\<And>x s. x \<in> set xs \<Longrightarrow> P s \<Longrightarrow> P (fst (f x s))" and "P s"
  shows "P (fst (thread f xs s))"
  using assms by (induction xs arbitrary: s) (simp_all add: thread_Cons del: thread.simps(2))

section \<open>Filter tags\<close>

text \<open>
  The helpers \<open>toSet\<close> and \<open>tagsIntersect\<close> exist twice in the source, with the same text: in
  \<open>internal/world/world.go\<close> and in \<open>internal/task/task.go\<close>.
\<close>

definition toSet :: "string slice \<Rightarrow> string set" where
  "toSet tags = fold insert (elems tags) {}"

primrec tagsIntersectList :: "string list \<Rightarrow> string set \<Rightarrow> bool" where
  "tagsIntersectList [] filterSet = False"
| "tagsIntersectList (t # ts) filterSet = (if t \<in> filterSet then True else tagsIntersectList ts filterSet)"

definition tagsIntersect :: "string slice \<Rightarrow> string set \<Rightarrow> bool" where
  "tagsIntersect objTags filterSet = tagsIntersectList (elems objTags) filterSet"

definition tagFilter :: "string slice \<Rightarrow> string slice \<Rightarrow> bool" where
  \<comment> \<open>the condition \<open>len(tagSet) == 0 || tagsIntersect(x.Tags, tagSet)\<close> of both \<open>List\<close> loops\<close>
  "tagFilter filterTags tags =
     (let tagSet = toSet filterTags in tagSet = {} \<or> tagsIntersect tags tagSet)"

lemma toSet_eq [simp]: "toSet tags = set (elems tags)"
proof -
  have "fold insert xs A = A \<union> set xs" for xs and A :: "string set"
    by (induction xs arbitrary: A) auto
  then show ?thesis by (simp add: toSet_def)
qed

lemma tagsIntersect_iff [simp]: "tagsIntersect ts S \<longleftrightarrow> set (elems ts) \<inter> S \<noteq> {}"
proof -
  have "tagsIntersectList xs S \<longleftrightarrow> set xs \<inter> S \<noteq> {}" for xs
    by (induction xs) auto
  then show ?thesis by (simp add: tagsIntersect_def)
qed

lemma tagFilter_iff:
  "tagFilter f ts \<longleftrightarrow> elems f = [] \<or> set (elems ts) \<inter> set (elems f) \<noteq> {}"
  by (simp add: tagFilter_def)

section \<open>Machine words\<close>

lemma word_plus_one_neq [simp]: "(v :: uint64) + 1 \<noteq> v"
  by simp

lemma unat_Suc_no_wrap:
  fixes v :: uint64
  assumes "unat v < 2 ^ 64 - 1"
  shows "unat (v + 1) = Suc (unat v)"
  using assms by (simp add: unat_word_ariths)

lemma word_less_plus_one:
  fixes v :: uint64
  assumes "unat v < 2 ^ 64 - 1"
  shows "v < v + 1"
  using unat_Suc_no_wrap [OF assms] by (simp add: word_less_nat_alt)

end
