(* ===== verification/Channel.thy ===== *)
theory Channel imports Prelude begin

text \<open>
  Buffered Go channels as the program uses them: every send is
  \<open>select { case ch <- m: default: }\<close>, which appends when the buffer has room and drops the message
  otherwise.  \<open>lossy_sender\<close> is the contract of a component that owns such a channel (a session, a TCP
  peer, a UDP peer, an event queue); its lemmas say what a burst of sends does.
\<close>

section \<open>One channel\<close>

definition chan_offer :: "nat \<Rightarrow> 'm list \<Rightarrow> 'm \<Rightarrow> 'm list" where
  "chan_offer cap q m = (if length q < cap then q @ [m] else q)"

definition chan_poll :: "'m list \<Rightarrow> ('m \<times> 'm list) option" where
  \<comment> \<open>\<open>select { case m := <-ch: ... default: }\<close>\<close>
  "chan_poll q = (case q of [] \<Rightarrow> None | m # q' \<Rightarrow> Some (m, q'))"

lemma chan_offer_bound: "length q \<le> cap \<Longrightarrow> length (chan_offer cap q m) \<le> cap"
  by (simp add: chan_offer_def)

lemma chan_offer_cases:
  obtains "length q < cap" "chan_offer cap q m = q @ [m]" | "cap \<le> length q" "chan_offer cap q m = q"
  by (cases "length q < cap") (auto simp: chan_offer_def)

lemma fold_chan_offer:
  "fold (\<lambda>m q. chan_offer cap q m) ms q = q @ take (cap - length q) ms"
proof (induction ms arbitrary: q)
  case (Cons m ms)
  show ?case
  proof (cases "length q < cap")
    case True
    then have "cap - length q = Suc (cap - Suc (length q))" by simp
    with True Cons show ?thesis by (simp add: chan_offer_def)
  qed (use Cons in \<open>simp add: chan_offer_def\<close>)
qed simp

section \<open>The contract\<close>

locale lossy_sender =
  fixes offer :: "'m \<Rightarrow> 's \<Rightarrow> 's"
    and queue :: "'s \<Rightarrow> 'm list"
    and accepting :: "'s \<Rightarrow> bool"
    and cap :: nat
  assumes offer_queue: "accepting s \<Longrightarrow> queue (offer m s) = chan_offer cap (queue s) m"
    and offer_accepting: "accepting (offer m s) = accepting s"
    and offer_refuses: "\<not> accepting s \<Longrightarrow> offer m s = s"
begin

lemma offers_accepting: "accepting (fold offer ms s) = accepting s"
  by (induction ms arbitrary: s) (simp_all add: offer_accepting)

lemma offers_refuses: "\<not> accepting s \<Longrightarrow> fold offer ms s = s"
  by (induction ms) (simp_all add: offer_refuses)

lemma offers_queue:
  "accepting s \<Longrightarrow> queue (fold offer ms s) = queue s @ take (cap - length (queue s)) ms"
  unfolding fold_chan_offer [symmetric]
  by (induction ms arbitrary: s) (simp_all add: offer_queue offer_accepting)

lemma offers_bound: "length (queue s) \<le> cap \<Longrightarrow> length (queue (fold offer ms s)) \<le> cap"
  by (cases "accepting s") (simp_all add: offers_queue offers_refuses)

lemma offers_prefix: "prefix (queue s) (queue (fold offer ms s))"
  by (cases "accepting s") (simp_all add: offers_queue offers_refuses)

lemma offers_lossless:
  "accepting s \<Longrightarrow> length (queue s) + length ms \<le> cap \<Longrightarrow> queue (fold offer ms s) = queue s @ ms"
  by (simp add: offers_queue)

lemma offers_full: "length (queue s) \<ge> cap \<Longrightarrow> queue (fold offer ms s) = queue s"
  by (cases "accepting s") (simp_all add: offers_queue offers_refuses)

lemma offers_append: "fold offer (ms @ ms') s = fold offer ms' (fold offer ms s)"
  by simp

end

end
