(* ===== verification/Session.thy ===== *)
theory Session imports Channel begin

text \<open>
  Client sessions and their manager, \<open>internal/session/session.go\<close>.  A session is shared by pointer
  between the manager's map and the connection that created it, so sessions live in a heap: the map
  holds addresses, and an operation on a session changes its heap cell, which is visible through
  every pointer to it.  The outbox is a buffered channel of 512 messages; a message is a byte slice
  that may be \<open>nil\<close>.

  The lemmas show the outbox to be an order-preserving, bounded, lossy queue (an instance of
  \<open>lossy_sender\<close>), the manager's invariant, and that a broadcast reaches exactly the sessions it is
  meant for, in whatever order Go ranges over the map.
\<close>

section \<open>Data\<close>

type_synonym msg = "char slice"
type_synonym sptr = nat

datatype session_error = ErrSessionNotFound | ErrSessionClosed

record Session =
  sess_ID :: string
  sess_ConnectedAt :: gotime
  sess_tags :: "string set"
  sess_outbox :: "msg list"
  sess_closed :: bool

definition outboxBuffer :: nat where
  "outboxBuffer = 512"

record Manager =
  sessions :: "string \<rightharpoonup> sptr"
  heap :: "sptr \<Rightarrow> Session"
  next_ptr :: sptr

section \<open>Operations of a session\<close>

definition newSession :: "gotime \<Rightarrow> string \<Rightarrow> Session" where
  "newSession now sid =
     \<lparr>sess_ID = sid, sess_ConnectedAt = now, sess_tags = {}, sess_outbox = [], sess_closed = False\<rparr>"

definition session_Subscribe :: "Session \<Rightarrow> string slice \<Rightarrow> Session" where
  "session_Subscribe s tags = s\<lparr>sess_tags := fold insert (elems tags) (sess_tags s)\<rparr>"

definition session_Unsubscribe :: "Session \<Rightarrow> string slice \<Rightarrow> Session" where
  "session_Unsubscribe s tags = s\<lparr>sess_tags := fold (\<lambda>t S. S - {t}) (elems tags) (sess_tags s)\<rparr>"

definition session_HasTag :: "Session \<Rightarrow> string \<Rightarrow> bool" where
  "session_HasTag s tag \<longleftrightarrow> tag \<in> sess_tags s"

definition session_Tags :: "string list \<Rightarrow> Session \<Rightarrow> string list" where
  \<comment> \<open>the first argument is the order in which Go ranges over \<open>s.tags\<close>\<close>
  "session_Tags ks s = range_values (\<lambda>t _. Some t) (\<lambda>t. if t \<in> sess_tags s then Some () else None) ks"

definition session_Send :: "Session \<Rightarrow> msg \<Rightarrow> Session \<times> session_error option" where
  "session_Send s m =
     (if sess_closed s then (s, Some ErrSessionClosed)
      else (s\<lparr>sess_outbox := chan_offer outboxBuffer (sess_outbox s) m\<rparr>, None))"

definition session_Recv :: "Session \<Rightarrow> (msg \<times> Session) option" where
  \<comment> \<open>a receive from \<open>Outbox()\<close> that does not block; the channel is never closed\<close>
  "session_Recv s =
     (case chan_poll (sess_outbox s) of
        None \<Rightarrow> None
      | Some (m, rest) \<Rightarrow> Some (m, s\<lparr>sess_outbox := rest\<rparr>))"

definition session_Close :: "Session \<Rightarrow> Session" where
  "session_Close s = (if sess_closed s then s else s\<lparr>sess_closed := True\<rparr>)"

definition session_IsClosed :: "Session \<Rightarrow> bool" where
  "session_IsClosed s = sess_closed s"

section \<open>Operations of the manager\<close>

definition manager_New :: Manager where
  "manager_New = \<lparr>sessions = Map.empty, heap = (\<lambda>_. newSession 0 ''''), next_ptr = 0\<rparr>"

definition manager_Add :: "gotime \<Rightarrow> Manager \<Rightarrow> string \<Rightarrow> Manager \<times> sptr" where
  "manager_Add now m sid =
     (let p = next_ptr m in
      (m\<lparr>sessions := (sessions m)(sid \<mapsto> p), heap := (heap m)(p := newSession now sid), next_ptr := Suc p\<rparr>, p))"

definition manager_Get :: "Manager \<Rightarrow> string \<Rightarrow> session_error + sptr" where
  "manager_Get m sid = (case sessions m sid of None \<Rightarrow> Inl ErrSessionNotFound | Some p \<Rightarrow> Inr p)"

definition at_ptr :: "sptr \<Rightarrow> (Session \<Rightarrow> Session) \<Rightarrow> Manager \<Rightarrow> Manager" where
  \<comment> \<open>a method call through the pointer \<open>p\<close>\<close>
  "at_ptr p f m = m\<lparr>heap := (heap m)(p := f (heap m p))\<rparr>"

definition ptr_Send :: "sptr \<Rightarrow> msg \<Rightarrow> Manager \<Rightarrow> Manager \<times> session_error option" where
  "ptr_Send p x m = (at_ptr p (\<lambda>s. fst (session_Send s x)) m, snd (session_Send (heap m p) x))"

definition manager_Remove :: "Manager \<Rightarrow> string \<Rightarrow> Manager" where
  "manager_Remove m sid =
     (case sessions m sid of
        None \<Rightarrow> m
      | Some p \<Rightarrow> at_ptr p session_Close (m\<lparr>sessions := (sessions m)(sid := None)\<rparr>))"

definition manager_snapshot :: "string list \<Rightarrow> Manager \<Rightarrow> sptr list" where
  "manager_snapshot ks m = range_values (\<lambda>_ p. Some p) (sessions m) ks"

definition manager_Each :: "string list \<Rightarrow> Manager \<Rightarrow> (sptr \<Rightarrow> 's \<Rightarrow> 's) \<Rightarrow> 's \<Rightarrow> 's" where
  \<comment> \<open>the callback runs outside the lock, on a snapshot of the pointers\<close>
  "manager_Each ks m fn s = fold fn (manager_snapshot ks m) s"

primrec sessionMatchesTags :: "Session \<Rightarrow> string list \<Rightarrow> bool" where
  "sessionMatchesTags s [] = False"
| "sessionMatchesTags s (t # ts) = (if session_HasTag s t then True else sessionMatchesTags s ts)"

definition manager_Broadcast :: "string list \<Rightarrow> Manager \<Rightarrow> string slice \<Rightarrow> msg \<Rightarrow> Manager" where
  "manager_Broadcast ks m tags x =
     manager_Each ks m
       (\<lambda>p m. if elems tags = [] \<or> sessionMatchesTags (heap m p) (elems tags)
              then fst (ptr_Send p x m) else m) m"

definition manager_BroadcastAll :: "string list \<Rightarrow> Manager \<Rightarrow> msg \<Rightarrow> Manager" where
  "manager_BroadcastAll ks m x = manager_Broadcast ks m None x"

definition manager_Count :: "Manager \<Rightarrow> nat" where
  "manager_Count m = card (dom (sessions m))"

section \<open>Lemmas on sessions\<close>

lemma fold_insert_tags: "fold insert ts S = S \<union> set ts"
  by (induction ts arbitrary: S) auto

lemma fold_delete_tags: "fold (\<lambda>t S. S - {t}) ts S = S - set ts"
  by (induction ts arbitrary: S) auto

lemma sess_tags_simps [simp]:
  "sess_tags (session_Subscribe s ts) = sess_tags s \<union> set (elems ts)"
  "sess_tags (session_Unsubscribe s ts) = sess_tags s - set (elems ts)"
  by (simp_all add: session_Subscribe_def session_Unsubscribe_def fold_insert_tags fold_delete_tags)

lemma sessionMatchesTags_iff [simp]: "sessionMatchesTags s ts \<longleftrightarrow> set ts \<inter> sess_tags s \<noteq> {}"
  by (induction ts) (auto simp: session_HasTag_def)

lemma session_Send_sel [simp]:
  "sess_ID (fst (session_Send s m)) = sess_ID s"
  "sess_closed (fst (session_Send s m)) = sess_closed s"
  "sess_tags (fst (session_Send s m)) = sess_tags s"
  "snd (session_Send s m) = (if sess_closed s then Some ErrSessionClosed else None)"
  "sess_outbox (fst (session_Send s m)) =
     (if sess_closed s then sess_outbox s else chan_offer outboxBuffer (sess_outbox s) m)"
  by (simp_all add: session_Send_def)

lemma session_Close_sel [simp]:
  "sess_closed (session_Close s)"
  "sess_ID (session_Close s) = sess_ID s"
  "sess_outbox (session_Close s) = sess_outbox s"
  by (simp_all add: session_Close_def)

lemma session_Send_closed: "sess_closed s \<Longrightarrow> session_Send s m = (s, Some ErrSessionClosed)"
  by (simp add: session_Send_def)

interpretation sessionbox: lossy_sender
  "\<lambda>m s. fst (session_Send s m)" sess_outbox "\<lambda>s. \<not> sess_closed s" outboxBuffer
  by unfold_locales (simp_all add: session_Send_closed)

section \<open>Lemmas on the manager\<close>

lemma at_ptr_sel [simp]:
  "sessions (at_ptr p f m) = sessions m"
  "next_ptr (at_ptr p f m) = next_ptr m"
  "heap (at_ptr p f m) = (heap m)(p := f (heap m p))"
  by (simp_all add: at_ptr_def)

lemma ptr_Send_sel [simp]:
  "sessions (fst (ptr_Send p x m)) = sessions m"
  "next_ptr (fst (ptr_Send p x m)) = next_ptr m"
  "heap (fst (ptr_Send p x m)) = (heap m)(p := fst (session_Send (heap m p) x))"
  "snd (ptr_Send p x m) = (if sess_closed (heap m p) then Some ErrSessionClosed else None)"
  by (simp_all add: ptr_Send_def)

definition manager_ok :: "Manager \<Rightarrow> bool" where
  "manager_ok m \<longleftrightarrow>
     finite (dom (sessions m)) \<and>
     (\<forall>sid p. sessions m sid = Some p \<longrightarrow>
        p < next_ptr m \<and> sess_ID (heap m p) = sid \<and> \<not> sess_closed (heap m p)) \<and>
     (\<forall>p. length (sess_outbox (heap m p)) \<le> outboxBuffer)"

lemma manager_okD:
  assumes "manager_ok m" and "sessions m sid = Some p"
  shows "p < next_ptr m" and "sess_ID (heap m p) = sid" and "\<not> sess_closed (heap m p)"
  using assms by (simp_all add: manager_ok_def)

lemma manager_ok_inj:
  "manager_ok m \<Longrightarrow> sessions m a = Some p \<Longrightarrow> sessions m b = Some p \<Longrightarrow> a = b"
  by (metis manager_okD(2))

lemma manager_ok_New [simp]: "manager_ok manager_New"
  by (simp add: manager_ok_def manager_New_def newSession_def)

lemma manager_ok_Add: "manager_ok m \<Longrightarrow> manager_ok (fst (manager_Add now m sid))"
  by (auto simp: manager_ok_def manager_Add_def newSession_def Let_def less_Suc_eq)

lemma manager_ok_Remove: "manager_ok m \<Longrightarrow> manager_ok (manager_Remove m sid)"
  using manager_ok_inj [of m]
  by (auto simp: manager_ok_def manager_Remove_def split: option.splits)

lemma manager_ok_at_ptr:
  assumes "manager_ok m" and "\<And>s. sess_ID (f s) = sess_ID s" and "\<And>s. sess_closed (f s) = sess_closed s"
    and "\<And>s. length (sess_outbox s) \<le> outboxBuffer \<Longrightarrow> length (sess_outbox (f s)) \<le> outboxBuffer"
  shows "manager_ok (at_ptr p f m)"
  using assms by (auto simp: manager_ok_def)

lemma manager_ok_Send: "manager_ok m \<Longrightarrow> manager_ok (fst (ptr_Send p x m))"
  unfolding ptr_Send_def fst_conv
  by (rule manager_ok_at_ptr) (simp_all add: chan_offer_bound)

lemma distinct_snapshot:
  assumes "manager_ok m" and "enumerates ks (sessions m)"
  shows "distinct (manager_snapshot ks m)"
  using enumeratesD(1) [OF assms(2)] manager_ok_inj [OF assms(1)]
  by (auto simp: manager_snapshot_def intro!: distinct_range_values)

lemma set_snapshot:
  "enumerates ks (sessions m) \<Longrightarrow> set (manager_snapshot ks m) = ran (sessions m)"
  by (auto simp: manager_snapshot_def set_range_values_enum ran_def)

lemma fold_at_ptr:
  assumes "distinct ps"
  shows "fold (\<lambda>p m. if P (heap m p) then fst (ptr_Send p x m) else m) ps m =
    m\<lparr>heap := (\<lambda>p. if p \<in> set ps \<and> P (heap m p) then fst (session_Send (heap m p) x) else heap m p)\<rparr>"
  using assms
proof (induction ps arbitrary: m)
  case (Cons p ps)
  then show ?case
    by (intro Manager.equality) (auto simp: fun_eq_iff simp del: session_Send_sel)
qed simp

lemma manager_Broadcast_heap:
  assumes "manager_ok m" and "enumerates ks (sessions m)"
  shows "manager_Broadcast ks m tags x =
    m\<lparr>heap := (\<lambda>p. if p \<in> ran (sessions m) \<and>
                      (elems tags = [] \<or> set (elems tags) \<inter> sess_tags (heap m p) \<noteq> {})
                   then fst (session_Send (heap m p) x) else heap m p)\<rparr>"
  using fold_at_ptr [OF distinct_snapshot [OF assms],
      of "\<lambda>s. elems tags = [] \<or> sessionMatchesTags s (elems tags)" x m]
  by (simp add: manager_Broadcast_def manager_Each_def set_snapshot [OF assms(2)])

lemma manager_ok_Broadcast: "manager_ok m \<Longrightarrow> manager_ok (manager_Broadcast ks m tags x)"
proof -
  have "manager_ok (fold (\<lambda>p m. if P m p then fst (ptr_Send p x m) else m) ps m)"
    if "manager_ok m" for P ps and m
    using that by (induction ps arbitrary: m) (simp_all add: manager_ok_Send)
  then show "manager_ok m \<Longrightarrow> manager_ok (manager_Broadcast ks m tags x)"
    by (simp add: manager_Broadcast_def manager_Each_def)
qed

section \<open>Properties of one session\<close>

text \<open>A history of one session: the calls on it, in the order in which they take its lock.\<close>

datatype session_op =
    DoSubscribe "string slice" | DoUnsubscribe "string slice" | DoSend msg | DoRecv | DoClose

record session_trace =
  tr_session :: Session
  tr_sent :: "msg list"
  tr_received :: "msg list"

fun session_step :: "session_op \<Rightarrow> session_trace \<Rightarrow> session_trace" where
  "session_step (DoSubscribe ts) h = h\<lparr>tr_session := session_Subscribe (tr_session h) ts\<rparr>"
| "session_step (DoUnsubscribe ts) h = h\<lparr>tr_session := session_Unsubscribe (tr_session h) ts\<rparr>"
| "session_step (DoSend m) h =
     h\<lparr>tr_session := fst (session_Send (tr_session h) m), tr_sent := tr_sent h @ [m]\<rparr>"
| "session_step DoRecv h =
     (case session_Recv (tr_session h) of
        None \<Rightarrow> h
      | Some (m, s) \<Rightarrow> h\<lparr>tr_session := s, tr_received := tr_received h @ [m]\<rparr>)"
| "session_step DoClose h = h\<lparr>tr_session := session_Close (tr_session h)\<rparr>"

definition session_run :: "session_op list \<Rightarrow> Session \<Rightarrow> session_trace" where
  "session_run ops s = fold session_step ops \<lparr>tr_session = s, tr_sent = [], tr_received = []\<rparr>"

definition trace_ok :: "session_trace \<Rightarrow> bool" where
  "trace_ok h \<longleftrightarrow>
     length (sess_outbox (tr_session h)) \<le> outboxBuffer \<and>
     subseq (tr_received h @ sess_outbox (tr_session h)) (tr_sent h) \<and>
     (\<not> sess_closed (tr_session h) \<and> length (tr_sent h) \<le> outboxBuffer \<longrightarrow>
        tr_received h @ sess_outbox (tr_session h) = tr_sent h)"

lemma sess_outbox_tag_ops [simp]:
  "sess_outbox (session_Subscribe s ts) = sess_outbox s"
  "sess_outbox (session_Unsubscribe s ts) = sess_outbox s"
  "sess_closed (session_Subscribe s ts) = sess_closed s"
  "sess_closed (session_Unsubscribe s ts) = sess_closed s"
  "sess_ID (session_Subscribe s ts) = sess_ID s"
  "sess_ID (session_Unsubscribe s ts) = sess_ID s"
  by (simp_all add: session_Subscribe_def session_Unsubscribe_def)

lemma trace_ok_Send:
  assumes "trace_ok h"
  shows "trace_ok (session_step (DoSend m) h)"
proof -
  let ?s = "tr_session h" and ?c = "tr_received h @ sess_outbox (tr_session h)"
  have sub: "subseq ?c (tr_sent h)" using assms by (simp add: trace_ok_def)
  then have "subseq ?c (tr_sent h @ [m])" by (rule list_emb_prefix)
  moreover from sub have "subseq (?c @ [m]) (tr_sent h @ [m])" by (rule list_emb_append_mono) simp
  moreover have "length (sess_outbox ?s) \<le> length (tr_sent h)"
    using list_emb_length [OF sub] by simp
  ultimately show ?thesis
    using assms by (auto simp: trace_ok_def chan_offer_def)
qed

lemma trace_ok_step: "trace_ok h \<Longrightarrow> trace_ok (session_step x h)"
proof (cases x)
  case (DoSend m)
  then show "trace_ok h \<Longrightarrow> ?thesis" by (metis trace_ok_Send)
next
  case DoRecv
  then show "trace_ok h \<Longrightarrow> ?thesis"
    by (auto simp: trace_ok_def session_Recv_def chan_poll_def split: list.splits)
qed (auto simp: trace_ok_def)

text \<open>Outbox of a session: after any sequence of calls on a new session at most 512 messages wait
  in it, what has been received followed by what still waits is a subsequence of what was sent, in
  the order it was sent; and nothing at all is lost while the session is open and no more than 512
  messages have been sent.\<close>

theorem session_outbox_fifo:
  "let h = session_run ops (newSession now sid) in
     length (sess_outbox (tr_session h)) \<le> 512 \<and>
     subseq (tr_received h @ sess_outbox (tr_session h)) (tr_sent h) \<and>
     (if sess_closed (tr_session h) \<or> length (tr_sent h) > 512 then True
      else tr_received h @ sess_outbox (tr_session h) = tr_sent h)"
proof -
  have "trace_ok (fold session_step ops h)" if "trace_ok h" for h
    using that by (induction ops arbitrary: h) (simp_all add: trace_ok_step)
  then have "trace_ok (session_run ops (newSession now sid))"
    by (simp add: session_run_def trace_ok_def newSession_def)
  then show ?thesis by (simp add: trace_ok_def outboxBuffer_def Let_def)
qed

text \<open>A burst of sends to an open session keeps what already waited, appends the messages in order
  as far as there is room in the 512 places, and drops the rest without any error; on a closed session
  every send fails with \<open>ErrSessionClosed\<close> and nothing is queued.\<close>

theorem session_burst:
  "(if sess_closed s
    then fold (\<lambda>m s. fst (session_Send s m)) ms s = s \<and> snd (session_Send s m) = Some ErrSessionClosed
    else sess_outbox (fold (\<lambda>m s. fst (session_Send s m)) ms s) =
           sess_outbox s @ take (512 - length (sess_outbox s)) ms \<and>
         snd (session_Send (fold (\<lambda>m s. fst (session_Send s m)) ms s) m) = None)"
proof -
  have "sess_closed (fold (\<lambda>m s. fst (session_Send s m)) ms s) = sess_closed s"
    using sessionbox.offers_accepting [of ms s] by blast
  then show ?thesis
    using sessionbox.offers_queue [of s ms] sessionbox.offers_refuses [of s ms]
    by (simp add: outboxBuffer_def)
qed

section \<open>Properties of the manager\<close>

datatype manager_op =
    MAdd gotime string | MRemove string | MSubscribe sptr "string slice" | MUnsubscribe sptr "string slice"
  | MSend sptr msg | MRecv sptr | MBroadcast "string list" "string slice" msg

definition ptr_Recv :: "sptr \<Rightarrow> Manager \<Rightarrow> Manager" where
  "ptr_Recv p m = (case session_Recv (heap m p) of None \<Rightarrow> m | Some (x, s) \<Rightarrow> at_ptr p (\<lambda>_. s) m)"

fun manager_step :: "manager_op \<Rightarrow> Manager \<Rightarrow> Manager" where
  "manager_step (MAdd now sid) m = fst (manager_Add now m sid)"
| "manager_step (MRemove sid) m = manager_Remove m sid"
| "manager_step (MSubscribe p ts) m = at_ptr p (\<lambda>s. session_Subscribe s ts) m"
| "manager_step (MUnsubscribe p ts) m = at_ptr p (\<lambda>s. session_Unsubscribe s ts) m"
| "manager_step (MSend p x) m = fst (ptr_Send p x m)"
| "manager_step (MRecv p) m = ptr_Recv p m"
| "manager_step (MBroadcast ks ts x) m = manager_Broadcast ks m ts x"

definition manager_run :: "manager_op list \<Rightarrow> Manager \<Rightarrow> Manager" where
  "manager_run ops m = fold manager_step ops m"

lemma manager_ok_Recv: "manager_ok m \<Longrightarrow> manager_ok (ptr_Recv p m)"
proof -
  assume ok: "manager_ok m"
  show ?thesis
  proof (cases "sess_outbox (heap m p)")
    case (Cons x xs)
    have "length (x # xs) \<le> outboxBuffer" using ok Cons by (simp add: manager_ok_def flip: Cons)
    with ok Cons show ?thesis
      by (auto simp: ptr_Recv_def session_Recv_def chan_poll_def manager_ok_def)
  qed (use ok in \<open>simp add: ptr_Recv_def session_Recv_def chan_poll_def\<close>)
qed

lemma manager_ok_step: "manager_ok m \<Longrightarrow> manager_ok (manager_step x m)"
  by (cases x) (auto intro: manager_ok_Add manager_ok_Remove manager_ok_Send manager_ok_Recv
      manager_ok_Broadcast manager_ok_at_ptr)

lemma manager_ok_run: "manager_ok m \<Longrightarrow> manager_ok (manager_run ops m)"
  unfolding manager_run_def by (induction ops arbitrary: m) (simp_all add: manager_ok_step)

text \<open>Invariant of the manager: after any sequence of calls each session is registered under its
  own ID, at an address that has been allocated, is open, and no outbox holds more than 512
  messages.\<close>

theorem manager_invariant:
  "manager_ok (manager_run ops manager_New)"
  by (rule manager_ok_run) simp

text \<open>A broadcast puts the message into the outbox of exactly the registered sessions that carry
  one of its tags (all of them when it has none), and touches no other session, in whatever order
  Go ranges over the map.\<close>

theorem manager_Broadcast_exact:
  assumes "enumerates ks (sessions (manager_run ops manager_New))"
  shows "let m = manager_run ops manager_New; m' = manager_Broadcast ks m tags x in
     sessions m' = sessions m \<and> next_ptr m' = next_ptr m \<and>
     heap m' = (\<lambda>p. if p \<in> ran (sessions m) \<and>
                       (elems tags = [] \<or> set (elems tags) \<inter> sess_tags (heap m p) \<noteq> {})
                    then (heap m p)\<lparr>sess_outbox := chan_offer 512 (sess_outbox (heap m p)) x\<rparr>
                    else heap m p)"
proof -
  let ?m = "manager_run ops manager_New"
  have ok: "manager_ok ?m" by (rule manager_ok_run) simp
  then have "\<And>p. p \<in> ran (sessions ?m) \<Longrightarrow> \<not> sess_closed (heap ?m p)"
    by (auto simp: ran_def manager_ok_def)
  then show ?thesis
    unfolding Let_def manager_Broadcast_heap [OF ok assms]
    by (auto simp: fun_eq_iff session_Send_def outboxBuffer_def)
qed

lemma exampleManager_sessions:
  "sessions (manager_run [MAdd 1 ''a'', MAdd 2 ''b'', MSubscribe 1 (Some [''red''])] manager_New) =
     [''a'' \<mapsto> 0, ''b'' \<mapsto> 1]"
  by (simp add: manager_run_def manager_Add_def manager_New_def Let_def)

theorem manager_Broadcast_exact_witness:
  "let m = manager_run [MAdd 1 ''a'', MAdd 2 ''b'', MSubscribe 1 (Some [''red''])] manager_New;
       m' = manager_Broadcast [''b'', ''a''] m (Some [''red'', ''blue'']) (Some ''hi'')
   in sess_outbox (heap m' 0) = [] \<and> sess_outbox (heap m' 1) = [Some ''hi'']"
proof -
  have "enumerates [''b'', ''a'']
      (sessions (manager_run [MAdd 1 ''a'', MAdd 2 ''b'', MSubscribe 1 (Some [''red''])] manager_New))"
    unfolding exampleManager_sessions by (auto simp: enumerates_def)
  from manager_Broadcast_exact [OF this, of "Some [''red'', ''blue'']" "Some ''hi''"] show ?thesis
    by (simp add: Let_def manager_run_def manager_Add_def manager_New_def newSession_def
        session_Subscribe_def chan_offer_def)
qed

lemma allocated_step:
  assumes "p < next_ptr m"
  shows "p < next_ptr (manager_step x m)"
  using assms
  by (cases x) (auto simp: manager_Add_def Let_def manager_Remove_def ptr_Recv_def manager_Broadcast_def
      manager_Each_def split: option.splits intro!: fold_invariant [where P = "\<lambda>m. p < next_ptr m" and Q = "\<lambda>_. True"])

lemma closed_step:
  assumes "p < next_ptr m" and "sess_closed (heap m p)"
  shows "sess_closed (heap (manager_step x m) p)"
  using assms
  by (cases x) (auto simp: manager_Add_def Let_def manager_Remove_def ptr_Recv_def session_Recv_def
      manager_Broadcast_def manager_Each_def split: option.splits
      intro!: fold_invariant [where P = "\<lambda>m. sess_closed (heap m p)" and Q = "\<lambda>_. True"])

text \<open>Removing a session: it is no longer found, and every pointer to it that a connection still
  holds refers to a closed session from then on: each later send through it fails with
  \<open>ErrSessionClosed\<close>, even after a session with the same ID has been added again.\<close>

theorem manager_Remove_final:
  assumes "sessions (manager_run ops manager_New) sid = Some p"
  shows "let m = manager_Remove (manager_run ops manager_New) sid in
     manager_Get m sid = Inl ErrSessionNotFound \<and>
     snd (ptr_Send p x (manager_run ops' m)) = Some ErrSessionClosed \<and>
     sess_outbox (heap (fst (ptr_Send p x (manager_run ops' m))) p) = sess_outbox (heap (manager_run ops' m) p)"
proof -
  let ?m = "manager_run ops manager_New" and ?r = "manager_Remove (manager_run ops manager_New) sid"
  have "p < next_ptr ?m"
    using manager_okD(1) [OF manager_ok_run assms] by simp
  with assms have 0: "p < next_ptr ?r" "sess_closed (heap ?r p)"
    by (simp_all add: manager_Remove_def)
  have "p < next_ptr (manager_run ops' m) \<and> sess_closed (heap (manager_run ops' m) p)"
    if "p < next_ptr m" "sess_closed (heap m p)" for m
    using that unfolding manager_run_def
    by (induction ops' arbitrary: m) (simp_all add: allocated_step closed_step)
  from this [OF 0] have closed: "sess_closed (heap (manager_run ops' ?r) p)" by blast
  moreover have "manager_Get ?r sid = Inl ErrSessionNotFound"
    using assms by (simp add: manager_Get_def manager_Remove_def)
  ultimately show ?thesis by (simp add: Let_def)
qed

theorem manager_Remove_final_witness:
  "snd (ptr_Send 0 (Some ''late'') (manager_run [MAdd 9 ''a''] (manager_Remove (manager_run [MAdd 1 ''a''] manager_New) ''a''))) =
     Some ErrSessionClosed"
proof -
  have "sessions (manager_run [MAdd 1 ''a''] manager_New) ''a'' = Some 0"
    by (simp add: manager_run_def manager_Add_def manager_New_def Let_def)
  from manager_Remove_final [OF this, of "Some ''late''" "[MAdd 9 ''a'']"] show ?thesis
    by (simp add: Let_def)
qed

end
