(* ===== verification/Task.thy ===== *)
theory Task imports Prelude begin

text \<open>
  The task registry with its leases, \<open>internal/task/task.go\<close>.  Tasks are never deleted and never leave
  the registry by pointer, so they are values in a map.  Every method is one critical section
  followed by callbacks, with one exception: \<open>Acquire\<close> on an expired lease leaves the lock to run
  the callbacks and takes it again.  It is therefore given as two atomic steps, \<open>acquire_enter\<close> and
  \<open>acquire_grant\<close>, and as their sequential composition \<open>registry_Acquire\<close>; the relation \<open>reg_step\<close>
  interleaves the steps of any number of threads.

  The availability callbacks are called under \<open>recover\<close>, the ownership-lost callbacks are not: a
  panic of one of them ends the call (\<open>Panics\<close>).
\<close>

section \<open>Data\<close>

datatype task_error = ErrTaskNotFound | ErrTaskNotAvailable | ErrNotOwner | ErrTaskAlreadyExists

datatype Status = StatusAvailable | StatusOwned | StatusCompleted

record Task =
  task_ID :: string
  task_Tags :: "string slice"
  task_Hint :: "char slice"
  task_Status :: Status
  task_OwnerID :: string
  task_LeaseUntil :: gotime
  task_CreatedAt :: gotime
  task_UpdatedAt :: gotime

record LeaseOptions =
  opt_Duration :: duration

definition DefaultLeaseDuration :: duration where
  "DefaultLeaseDuration = 30 * Second"

record AcquireResult =
  acq_Task :: Task
  acq_LeaseUntil :: gotime

record LostEvent =
  lost_TaskID :: string
  lost_OwnerID :: string
  lost_Reason :: string

record AvailableEvent =
  avail_TaskID :: string
  avail_Tags :: "string slice"
  avail_Hint :: "char slice"
  avail_Reason :: string

record 'e Registry =
  tasks :: "string \<rightharpoonup> Task"
  lostHandlers :: "(LostEvent, 'e) handler list"
  availHandlers :: "(AvailableEvent, 'e) handler list"
  reg_done :: bool
  reg_closed :: bool

section \<open>Operations\<close>

definition registry_New :: "'e Registry" where
  "registry_New =
     \<lparr>tasks = Map.empty, lostHandlers = [], availHandlers = [], reg_done = False, reg_closed = False\<rparr>"

definition registry_Close :: "'e Registry \<Rightarrow> 'e Registry" where
  \<comment> \<open>\<open>reg_done\<close>: the channel \<open>done\<close> is closed\<close>
  "registry_Close r = (if reg_closed r then r else r\<lparr>reg_closed := True, reg_done := True\<rparr>)"

definition registry_OnOwnershipLost :: "'e Registry \<Rightarrow> (LostEvent, 'e) handler \<Rightarrow> 'e Registry" where
  "registry_OnOwnershipLost r h = r\<lparr>lostHandlers := lostHandlers r @ [h]\<rparr>"

definition registry_OnAvailable :: "'e Registry \<Rightarrow> (AvailableEvent, 'e) handler \<Rightarrow> 'e Registry" where
  "registry_OnAvailable r h = r\<lparr>availHandlers := availHandlers r @ [h]\<rparr>"

definition registry_fireAvailable :: "AvailableEvent \<Rightarrow> (AvailableEvent, 'e) handler list \<Rightarrow> 'e \<Rightarrow> 'e" where
  "registry_fireAvailable evt hs e = fire_recover hs evt e"

definition registry_Register ::
    "gotime \<Rightarrow> gotime \<Rightarrow> 'e Registry \<Rightarrow> string \<Rightarrow> string slice \<Rightarrow> char slice \<Rightarrow> 'e \<Rightarrow>
     'e Registry \<times> 'e \<times> task_error option" where
  "registry_Register nowC nowU r tid tags hint e =
     (case tasks r tid of
        Some _ \<Rightarrow> (r, e, Some ErrTaskAlreadyExists)
      | None \<Rightarrow>
          let tagsCopy = appendNil tags; hintCopy = appendNil hint;
              t = \<lparr>task_ID = tid, task_Tags = tagsCopy, task_Hint = hintCopy,
                   task_Status = StatusAvailable, task_OwnerID = '''', task_LeaseUntil = 0,
                   task_CreatedAt = nowC, task_UpdatedAt = nowU\<rparr>
          in (r\<lparr>tasks := (tasks r)(tid \<mapsto> t)\<rparr>,
              registry_fireAvailable
                \<lparr>avail_TaskID = tid, avail_Tags = tagsCopy, avail_Hint = hintCopy,
                 avail_Reason = ''registered''\<rparr> (availHandlers r) e,
              None))"

definition registry_Get :: "'e Registry \<Rightarrow> string \<Rightarrow> task_error + Task" where
  "registry_Get r tid = (case tasks r tid of None \<Rightarrow> Inl ErrTaskNotFound | Some t \<Rightarrow> Inr t)"

definition registry_ListAvailable :: "string list \<Rightarrow> 'e Registry \<Rightarrow> string slice \<Rightarrow> Task list" where
  "registry_ListAvailable ks r filterTags =
     range_values
       (\<lambda>_ t. if task_Status t \<noteq> StatusAvailable then None
              else if tagFilter filterTags (task_Tags t) then Some t else None)
       (tasks r) ks"

definition freeTask :: "Task \<Rightarrow> Task" where
  "freeTask t = t\<lparr>task_Status := StatusAvailable, task_OwnerID := '''', task_LeaseUntil := 0\<rparr>"

definition leaseExpired :: "gotime \<Rightarrow> Task \<Rightarrow> bool" where
  \<comment> \<open>\<open>!t.LeaseUntil.IsZero() && now.After(t.LeaseUntil)\<close>\<close>
  "leaseExpired now t \<longleftrightarrow> task_LeaseUntil t \<noteq> 0 \<and> now > task_LeaseUntil t"

definition availableEvent :: "Task \<Rightarrow> string \<Rightarrow> string \<Rightarrow> AvailableEvent" where
  "availableEvent t tid reason =
     \<lparr>avail_TaskID = tid, avail_Tags = appendNil (task_Tags t), avail_Hint = appendNil (task_Hint t),
      avail_Reason = reason\<rparr>"

subsection \<open>Acquire\<close>

datatype acquire_phase =
    AcqFail task_error
  | AcqProceed
  | AcqExpired LostEvent AvailableEvent

definition acquire_enter :: "gotime \<Rightarrow> 'e Registry \<Rightarrow> string \<Rightarrow> 'e Registry \<times> acquire_phase" where
  \<comment> \<open>the first critical section, up to the point where it fails, goes on, or leaves the lock\<close>
  "acquire_enter now r tid =
     (case tasks r tid of
        None \<Rightarrow> (r, AcqFail ErrTaskNotFound)
      | Some t \<Rightarrow>
          if task_Status t = StatusOwned then
            if leaseExpired now t then
              (r\<lparr>tasks := (tasks r)(tid \<mapsto> freeTask t)\<rparr>,
               AcqExpired
                 \<lparr>lost_TaskID = tid, lost_OwnerID = task_OwnerID t, lost_Reason = ''lease_expired''\<rparr>
                 (availableEvent t tid ''lease_expired''))
            else (r, AcqFail ErrTaskNotAvailable)
          else (r, AcqProceed))"

definition acquire_grant ::
    "gotime \<Rightarrow> gotime \<Rightarrow> 'e Registry \<Rightarrow> string \<Rightarrow> string \<Rightarrow> LeaseOptions \<Rightarrow>
     'e Registry \<times> (task_error + AcquireResult)" where
  \<comment> \<open>the rest of the method, under the lock: only the presence of the task is checked again\<close>
  "acquire_grant nowL nowU r tid ownerID opts =
     (case tasks r tid of
        None \<Rightarrow> (r, Inl ErrTaskNotFound)
      | Some t \<Rightarrow>
          let dur = (if opt_Duration opts \<le> 0 then DefaultLeaseDuration else opt_Duration opts);
              t' = t\<lparr>task_Status := StatusOwned, task_OwnerID := ownerID,
                     task_LeaseUntil := nowL + dur, task_UpdatedAt := nowU\<rparr>
          in (r\<lparr>tasks := (tasks r)(tid \<mapsto> t')\<rparr>,
              Inr \<lparr>acq_Task = t', acq_LeaseUntil = task_LeaseUntil t'\<rparr>))"

definition registry_Acquire ::
    "gotime \<Rightarrow> gotime \<Rightarrow> gotime \<Rightarrow> 'e Registry \<Rightarrow> string \<Rightarrow> string \<Rightarrow> LeaseOptions \<Rightarrow> 'e \<Rightarrow>
     'e Registry \<times> 'e \<times> (task_error + AcquireResult) outcome" where
  "registry_Acquire now nowL nowU r tid ownerID opts e =
     (case acquire_enter now r tid of
        (r1, AcqFail err) \<Rightarrow> (r1, e, Returns (Inl err))
      | (r1, AcqProceed) \<Rightarrow>
          let (r2, res) = acquire_grant nowL nowU r1 tid ownerID opts in (r2, e, Returns res)
      | (r1, AcqExpired lost avail) \<Rightarrow>
          (case fire_plain (lostHandlers r) lost e of
             Panicked e1 \<Rightarrow> (r1, e1, Panics)
           | Returned e1 \<Rightarrow>
               let e2 = registry_fireAvailable avail (availHandlers r) e1;
                   (r2, res) = acquire_grant nowL nowU r1 tid ownerID opts
               in (r2, e2, Returns res)))"

subsection \<open>Release and completion\<close>

definition registry_Release ::
    "gotime \<Rightarrow> 'e Registry \<Rightarrow> string \<Rightarrow> string \<Rightarrow> 'e \<Rightarrow> 'e Registry \<times> 'e \<times> task_error option" where
  "registry_Release now r tid ownerID e =
     (case tasks r tid of
        None \<Rightarrow> (r, e, Some ErrTaskNotFound)
      | Some t \<Rightarrow>
          if task_OwnerID t \<noteq> ownerID then (r, e, Some ErrNotOwner)
          else
            (r\<lparr>tasks := (tasks r)(tid \<mapsto> (freeTask t)\<lparr>task_UpdatedAt := now\<rparr>)\<rparr>,
             registry_fireAvailable (availableEvent t tid ''released'') (availHandlers r) e,
             None))"

definition registry_MarkCompleted ::
    "gotime \<Rightarrow> 'e Registry \<Rightarrow> string \<Rightarrow> string \<Rightarrow> 'e Registry \<times> task_error option" where
  "registry_MarkCompleted now r tid ownerID =
     (case tasks r tid of
        None \<Rightarrow> (r, Some ErrTaskNotFound)
      | Some t \<Rightarrow>
          if task_OwnerID t \<noteq> ownerID then (r, Some ErrNotOwner)
          else
            (r\<lparr>tasks := (tasks r)(tid \<mapsto>
                 t\<lparr>task_Status := StatusCompleted, task_OwnerID := '''', task_LeaseUntil := 0,
                   task_UpdatedAt := now\<rparr>)\<rparr>,
             None))"

definition ownedBy :: "string \<Rightarrow> Task \<Rightarrow> bool" where
  "ownedBy ownerID t \<longleftrightarrow> task_Status t = StatusOwned \<and> task_OwnerID t = ownerID"

primrec fire_released ::
    "(AvailableEvent, 'e) handler list \<Rightarrow> (LostEvent, 'e) handler list \<Rightarrow> string \<Rightarrow> Task list \<Rightarrow> 'e \<Rightarrow> 'e hresult" where
  "fire_released ahs lhs ownerID [] e = Returned e"
| "fire_released ahs lhs ownerID (t # ts) e =
     (let e1 = registry_fireAvailable (availableEvent t (task_ID t) ''disconnected'') ahs e in
      case fire_plain lhs \<lparr>lost_TaskID = task_ID t, lost_OwnerID = ownerID, lost_Reason = ''disconnected''\<rparr> e1 of
        Returned e2 \<Rightarrow> fire_released ahs lhs ownerID ts e2
      | Panicked e2 \<Rightarrow> Panicked e2)"

definition registry_ReleaseAll ::
    "string list \<Rightarrow> (string \<Rightarrow> gotime) \<Rightarrow> 'e Registry \<Rightarrow> string \<Rightarrow> 'e \<Rightarrow>
     'e Registry \<times> 'e \<times> string list outcome" where
  \<comment> \<open>the order in which Go ranges over \<open>r.tasks\<close>, and the clock reading taken for each freed task\<close>
  "registry_ReleaseAll ks clk r ownerID e =
     (let released = range_values (\<lambda>_ t. if ownedBy ownerID t then Some t else None) (tasks r) ks;
          r' = r\<lparr>tasks := range_update
                 (\<lambda>k t. if ownedBy ownerID t then (freeTask t)\<lparr>task_UpdatedAt := clk k\<rparr> else t)
                 (tasks r) ks\<rparr>
      in case fire_released (availHandlers r) (lostHandlers r) ownerID released e of
           Returned e' \<Rightarrow> (r', e', Returns (map task_ID released))
         | Panicked e' \<Rightarrow> (r', e', Panics))"

subsection \<open>Lease expiry\<close>

definition evictable :: "gotime \<Rightarrow> Task \<Rightarrow> bool" where
  "evictable now t \<longleftrightarrow> task_Status t = StatusOwned \<and> leaseExpired now t"

primrec fire_expired ::
    "(LostEvent, 'e) handler list \<Rightarrow> (AvailableEvent, 'e) handler list \<Rightarrow> Task list \<Rightarrow> 'e \<Rightarrow> 'e hresult" where
  "fire_expired lhs ahs [] e = Returned e"
| "fire_expired lhs ahs (t # ts) e =
     (case fire_plain lhs \<lparr>lost_TaskID = task_ID t, lost_OwnerID = task_OwnerID t,
                          lost_Reason = ''lease_expired''\<rparr> e of
        Returned e1 \<Rightarrow>
          fire_expired lhs ahs ts
            (registry_fireAvailable (availableEvent t (task_ID t) ''lease_expired'') ahs e1)
      | Panicked e1 \<Rightarrow> Panicked e1)"

definition registry_evictExpired ::
    "string list \<Rightarrow> gotime \<Rightarrow> (string \<Rightarrow> gotime) \<Rightarrow> 'e Registry \<Rightarrow> 'e \<Rightarrow> 'e Registry \<times> 'e \<times> unit outcome" where
  "registry_evictExpired ks now clk r e =
     (let expiredTasks = range_values (\<lambda>_ t. if evictable now t then Some t else None) (tasks r) ks;
          r' = r\<lparr>tasks := range_update
                 (\<lambda>k t. if evictable now t then (freeTask t)\<lparr>task_UpdatedAt := clk k\<rparr> else t)
                 (tasks r) ks\<rparr>
      in case fire_expired (lostHandlers r) (availHandlers r) expiredTasks e of
           Returned e' \<Rightarrow> (r', e', Returns ())
         | Panicked e' \<Rightarrow> (r', e', Panics))"

text \<open>
  \<open>leaseWatcher\<close>: the list is what its \<open>select\<close> receives, in order.  The result says whether the
  loop still runs after it, has returned, or was ended by a panic of a callback.
\<close>

datatype watch_event = WDone | WTick "string list" gotime "string \<Rightarrow> gotime"

datatype watcher = Running | Stopped | Crashed

fun registry_leaseWatcher :: "watch_event list \<Rightarrow> 'e Registry \<Rightarrow> 'e \<Rightarrow> 'e Registry \<times> 'e \<times> watcher" where
  "registry_leaseWatcher [] r e = (r, e, Running)"
| "registry_leaseWatcher (WDone # evs) r e = (r, e, Stopped)"
| "registry_leaseWatcher (WTick ks now clk # evs) r e =
     (case registry_evictExpired ks now clk r e of
        (r', e', Returns _) \<Rightarrow> registry_leaseWatcher evs r' e'
      | (r', e', Panics) \<Rightarrow> (r', e', Crashed))"

section \<open>Lemmas\<close>

lemma freeTask_sel [simp]:
  "task_Status (freeTask t) = StatusAvailable"
  "task_OwnerID (freeTask t) = ''''"
  "task_LeaseUntil (freeTask t) = 0"
  "task_ID (freeTask t) = task_ID t"
  "task_Tags (freeTask t) = task_Tags t"
  "task_Hint (freeTask t) = task_Hint t"
  "task_UpdatedAt (freeTask t) = task_UpdatedAt t"
  by (simp_all add: freeTask_def)

definition leaseLength :: "LeaseOptions \<Rightarrow> duration" where
  "leaseLength opts = (if opt_Duration opts \<le> 0 then DefaultLeaseDuration else opt_Duration opts)"

lemma leaseLength_pos: "0 < leaseLength opts"
  by (simp add: leaseLength_def DefaultLeaseDuration_def Second_def)

definition grantedTask :: "gotime \<Rightarrow> gotime \<Rightarrow> string \<Rightarrow> LeaseOptions \<Rightarrow> Task \<Rightarrow> Task" where
  "grantedTask nowL nowU ownerID opts t =
     t\<lparr>task_Status := StatusOwned, task_OwnerID := ownerID,
       task_LeaseUntil := nowL + leaseLength opts, task_UpdatedAt := nowU\<rparr>"

lemma grantedTask_sel [simp]:
  "task_Status (grantedTask nowL nowU o' opts t) = StatusOwned"
  "task_OwnerID (grantedTask nowL nowU o' opts t) = o'"
  "task_LeaseUntil (grantedTask nowL nowU o' opts t) = nowL + leaseLength opts"
  "task_ID (grantedTask nowL nowU o' opts t) = task_ID t"
  by (simp_all add: grantedTask_def)

lemma acquire_grant_eq:
  "acquire_grant nowL nowU r tid ownerID opts =
     (case tasks r tid of
        None \<Rightarrow> (r, Inl ErrTaskNotFound)
      | Some t \<Rightarrow>
          (r\<lparr>tasks := (tasks r)(tid \<mapsto> grantedTask nowL nowU ownerID opts t)\<rparr>,
           Inr \<lparr>acq_Task = grantedTask nowL nowU ownerID opts t,
                acq_LeaseUntil = nowL + leaseLength opts\<rparr>))"
  by (simp add: acquire_grant_def grantedTask_def leaseLength_def Let_def split: option.splits)

lemma acquire_grant_tasks:
  "tasks (fst (acquire_grant nowL nowU r tid ownerID opts)) =
     (tasks r)(tid := map_option (grantedTask nowL nowU ownerID opts) (tasks r tid))"
  by (auto simp: acquire_grant_eq fun_eq_iff split: option.splits)

lemma acquire_enter_cases:
  obtains (missing) "tasks r tid = None" "acquire_enter now r tid = (r, AcqFail ErrTaskNotFound)"
  | (owned) t where "tasks r tid = Some t" "task_Status t = StatusOwned" "\<not> leaseExpired now t"
      "acquire_enter now r tid = (r, AcqFail ErrTaskNotAvailable)"
  | (expired) t where "tasks r tid = Some t" "task_Status t = StatusOwned" "leaseExpired now t"
      "acquire_enter now r tid =
         (r\<lparr>tasks := (tasks r)(tid \<mapsto> freeTask t)\<rparr>,
          AcqExpired \<lparr>lost_TaskID = tid, lost_OwnerID = task_OwnerID t, lost_Reason = ''lease_expired''\<rparr>
            (availableEvent t tid ''lease_expired''))"
  | (free) t where "tasks r tid = Some t" "task_Status t \<noteq> StatusOwned"
      "acquire_enter now r tid = (r, AcqProceed)"
  by (cases "tasks r tid") (auto simp: acquire_enter_def split: if_splits)

subsection \<open>Well-formed registries\<close>

definition task_ok :: "string \<Rightarrow> Task \<Rightarrow> bool" where
  "task_ok k t \<longleftrightarrow> task_ID t = k \<and>
     (if task_Status t = StatusOwned then task_LeaseUntil t \<noteq> 0
      else task_OwnerID t = '''' \<and> task_LeaseUntil t = 0)"

definition registry_ok :: "'e Registry \<Rightarrow> bool" where
  "registry_ok r \<longleftrightarrow> finite (dom (tasks r)) \<and> (\<forall>k t. tasks r k = Some t \<longrightarrow> task_ok k t)"

lemma registry_okD: "registry_ok r \<Longrightarrow> tasks r k = Some t \<Longrightarrow> task_ok k t"
  by (simp add: registry_ok_def)

lemma registry_ok_ID: "registry_ok r \<Longrightarrow> tasks r k = Some t \<Longrightarrow> task_ID t = k"
  by (simp add: registry_ok_def task_ok_def)

lemma registry_ok_inj: "registry_ok r \<Longrightarrow> tasks r a = Some t \<Longrightarrow> tasks r b = Some t \<Longrightarrow> a = b"
  by (metis registry_ok_ID)

lemma registry_ok_New [simp]: "registry_ok registry_New"
  by (simp add: registry_ok_def registry_New_def)

lemma task_ok_free [simp]: "task_ok k (freeTask t) \<longleftrightarrow> task_ID t = k"
  by (simp add: task_ok_def)

lemma task_ok_free_at [simp]: "task_ok k ((freeTask t)\<lparr>task_UpdatedAt := now\<rparr>) \<longleftrightarrow> task_ID t = k"
  by (simp add: task_ok_def)

lemma task_ok_granted:
  "0 < nowL \<Longrightarrow> task_ok k (grantedTask nowL nowU o' opts t) \<longleftrightarrow> task_ID t = k"
  using leaseLength_pos [of opts] by (auto simp: task_ok_def)

lemma registry_ok_upd:
  assumes "registry_ok r" and "dom m = dom (tasks r) \<or> dom m = insert k (dom (tasks r))"
    and "\<And>j t. m j = Some t \<Longrightarrow> task_ok j t"
  shows "registry_ok (r\<lparr>tasks := m\<rparr>)"
  using assms by (auto simp: registry_ok_def)

lemma registry_ok_upd1:
  assumes "registry_ok r" and "task_ok k t"
  shows "registry_ok (r\<lparr>tasks := (tasks r)(k \<mapsto> t)\<rparr>)"
  using assms by (auto simp: registry_ok_def)

lemma registry_ok_grant:
  assumes "registry_ok r" and "0 < nowL"
  shows "registry_ok (fst (acquire_grant nowL nowU r tid ownerID opts))"
  using assms registry_ok_ID [OF assms(1)]
  by (auto simp: acquire_grant_eq task_ok_granted split: option.splits intro!: registry_ok_upd1)

lemma registry_ok_enter: "registry_ok r \<Longrightarrow> registry_ok (fst (acquire_enter now r tid))"
  by (rule acquire_enter_cases [of r tid now]) (auto intro!: registry_ok_upd1 dest: registry_ok_ID)

lemma registry_Acquire_registry:
  "fst (registry_Acquire now nowL nowU r tid ownerID opts e) = fst (acquire_enter now r tid) \<or>
   fst (registry_Acquire now nowL nowU r tid ownerID opts e) =
     fst (acquire_grant nowL nowU (fst (acquire_enter now r tid)) tid ownerID opts)"
  by (cases "acquire_enter now r tid")
     (auto simp: registry_Acquire_def Let_def split: prod.splits acquire_phase.splits hresult.splits)

lemma registry_ok_Acquire:
  assumes "registry_ok r" and "0 < nowL"
  shows "registry_ok (fst (registry_Acquire now nowL nowU r tid ownerID opts e))"
  using registry_Acquire_registry [of now nowL nowU r tid ownerID opts e] assms
  by (auto simp: registry_ok_enter registry_ok_grant)

lemma registry_ok_Register: "registry_ok r \<Longrightarrow> registry_ok (fst (registry_Register nowC nowU r tid tags hint e))"
  by (auto simp: registry_Register_def Let_def task_ok_def split: option.splits intro!: registry_ok_upd1)

lemma registry_ok_Release: "registry_ok r \<Longrightarrow> registry_ok (fst (registry_Release now r tid ownerID e))"
  by (auto simp: registry_Release_def split: option.splits intro!: registry_ok_upd1 dest: registry_ok_ID)

lemma registry_ok_MarkCompleted: "registry_ok r \<Longrightarrow> registry_ok (fst (registry_MarkCompleted now r tid ownerID))"
  by (auto simp: registry_MarkCompleted_def task_ok_def split: option.splits
      intro!: registry_ok_upd1 dest: registry_ok_ID)

text \<open>The loops of \<open>ReleaseAll\<close> and \<open>evictExpired\<close> free the tasks that satisfy a condition.\<close>

definition freeing :: "(Task \<Rightarrow> bool) \<Rightarrow> (string \<Rightarrow> gotime) \<Rightarrow> string \<Rightarrow> Task \<Rightarrow> Task" where
  "freeing P clk k t = (if P t then (freeTask t)\<lparr>task_UpdatedAt := clk k\<rparr> else t)"

lemma registry_ReleaseAll_tasks:
  "tasks (fst (registry_ReleaseAll ks clk r ownerID e)) = range_update (freeing (ownedBy ownerID) clk) (tasks r) ks"
  by (simp add: registry_ReleaseAll_def Let_def freeing_def [abs_def] split: hresult.splits)

lemma registry_evictExpired_tasks:
  "tasks (fst (registry_evictExpired ks now clk r e)) = range_update (freeing (evictable now) clk) (tasks r) ks"
  by (simp add: registry_evictExpired_def Let_def freeing_def [abs_def] split: hresult.splits)

lemma task_ok_freeing: "task_ok k t \<Longrightarrow> task_ok k (freeing P clk k t)"
  by (simp add: freeing_def task_ok_def)

lemma range_update_preserves:
  assumes "\<And>k v. m k = Some v \<Longrightarrow> Q k v" and "\<And>k v. Q k v \<Longrightarrow> Q k (f k v)"
    and "range_update f m ks k = Some v"
  shows "Q k v"
  using assms
proof (induction ks arbitrary: m)
  case (Cons j ks)
  show ?case
  proof (cases "m j")
    case None
    with Cons.IH [of m] Cons.prems show ?thesis by simp
  next
    case (Some u)
    have Q: "Q i w" if "(m(j \<mapsto> f j u)) i = Some w" for i w
      using that Cons.prems(1,2) Some by (auto split: if_splits)
    moreover have "range_update f (m(j \<mapsto> f j u)) ks k = Some v"
      using Cons.prems(3) Some by simp
    ultimately show ?thesis using Cons.IH [OF Q Cons.prems(2)] by blast
  qed
qed simp

lemma registry_ok_free_many:
  assumes "registry_ok r" and "tasks r' = range_update (freeing P clk) (tasks r) ks"
  shows "registry_ok r'"
proof -
  have "task_ok k t" if "tasks r' k = Some t" for k t
    using range_update_preserves [where Q = task_ok and f = "freeing P clk" and m = "tasks r" and ks = ks]
      registry_okD [OF assms(1)] task_ok_freeing that unfolding assms(2) by metis
  with assms show ?thesis by (simp add: registry_ok_def)
qed

lemma registry_ok_ReleaseAll: "registry_ok r \<Longrightarrow> registry_ok (fst (registry_ReleaseAll ks clk r ownerID e))"
  by (rule registry_ok_free_many [OF _ registry_ReleaseAll_tasks])

lemma registry_ok_evictExpired: "registry_ok r \<Longrightarrow> registry_ok (fst (registry_evictExpired ks now clk r e))"
  by (rule registry_ok_free_many [OF _ registry_evictExpired_tasks])

lemmas registry_ok_ops = registry_ok_Register registry_ok_Release registry_ok_MarkCompleted
  registry_ok_ReleaseAll registry_ok_evictExpired registry_ok_enter registry_ok_grant

section \<open>Concurrent threads\<close>

text \<open>
  A system state is the registry and, for each thread that is between the two critical sections of
  \<open>Acquire\<close>, the arguments of its call.  The callbacks of the program do not call back into the
  registry, so they do not appear here.  Clock readings lie after Go's zero time.
\<close>

record reg_sys =
  sys_reg :: "unit Registry"
  sys_pend :: "nat \<rightharpoonup> string \<times> string \<times> LeaseOptions"

datatype reg_event =
    EvRegister gotime gotime string "string slice" "char slice"
  | EvAcquire nat gotime gotime gotime string string LeaseOptions
  | EvResume nat gotime gotime
  | EvRelease gotime string string
  | EvReleaseAll "string list" "string \<Rightarrow> gotime" string
  | EvComplete gotime string string
  | EvEvict "string list" gotime "string \<Rightarrow> gotime"

inductive reg_step :: "reg_sys \<Rightarrow> reg_event \<Rightarrow> reg_sys \<Rightarrow> bool" where
  register: "reg_step s (EvRegister nowC nowU tid tags hint)
     (s\<lparr>sys_reg := fst (registry_Register nowC nowU (sys_reg s) tid tags hint ())\<rparr>)"
| acquire_fails: "sys_pend s th = None \<Longrightarrow> acquire_enter now (sys_reg s) tid = (r1, AcqFail err) \<Longrightarrow>
     reg_step s (EvAcquire th now nowL nowU tid ownerID opts) (s\<lparr>sys_reg := r1\<rparr>)"
| acquire_at_once: "sys_pend s th = None \<Longrightarrow> acquire_enter now (sys_reg s) tid = (r1, AcqProceed) \<Longrightarrow> 0 < nowL \<Longrightarrow>
     reg_step s (EvAcquire th now nowL nowU tid ownerID opts)
       (s\<lparr>sys_reg := fst (acquire_grant nowL nowU r1 tid ownerID opts)\<rparr>)"
| acquire_leaves: "sys_pend s th = None \<Longrightarrow> acquire_enter now (sys_reg s) tid = (r1, AcqExpired lost avail) \<Longrightarrow>
     reg_step s (EvAcquire th now nowL nowU tid ownerID opts)
       (s\<lparr>sys_reg := r1, sys_pend := (sys_pend s)(th \<mapsto> (tid, ownerID, opts))\<rparr>)"
| acquire_resumes: "sys_pend s th = Some (tid, ownerID, opts) \<Longrightarrow> 0 < nowL \<Longrightarrow>
     reg_step s (EvResume th nowL nowU)
       (s\<lparr>sys_reg := fst (acquire_grant nowL nowU (sys_reg s) tid ownerID opts),
          sys_pend := (sys_pend s)(th := None)\<rparr>)"
| release: "reg_step s (EvRelease now tid ownerID)
     (s\<lparr>sys_reg := fst (registry_Release now (sys_reg s) tid ownerID ())\<rparr>)"
| release_all: "reg_step s (EvReleaseAll ks clk ownerID)
     (s\<lparr>sys_reg := fst (registry_ReleaseAll ks clk (sys_reg s) ownerID ())\<rparr>)"
| complete: "reg_step s (EvComplete now tid ownerID)
     (s\<lparr>sys_reg := fst (registry_MarkCompleted now (sys_reg s) tid ownerID)\<rparr>)"
| evict: "reg_step s (EvEvict ks now clk)
     (s\<lparr>sys_reg := fst (registry_evictExpired ks now clk (sys_reg s) ())\<rparr>)"

inductive_cases reg_step_Acquire: "reg_step s (EvAcquire th now nowL nowU tid ownerID opts) s'"
inductive_cases reg_step_Resume: "reg_step s (EvResume th nowL nowU) s'"

definition sys_New :: reg_sys where
  "sys_New = \<lparr>sys_reg = registry_New, sys_pend = Map.empty\<rparr>"

inductive reg_path :: "reg_sys \<Rightarrow> reg_event list \<Rightarrow> reg_sys \<Rightarrow> bool" where
  path_here: "reg_path s [] s"
| path_step: "reg_step s ev s' \<Longrightarrow> reg_path s' evs s'' \<Longrightarrow> reg_path s (ev # evs) s''"

inductive_cases reg_path_Cons: "reg_path s (ev # evs) s''"

lemma reg_step_ok: "reg_step s ev s' \<Longrightarrow> registry_ok (sys_reg s) \<Longrightarrow> registry_ok (sys_reg s')"
proof (induction rule: reg_step.induct)
  case (acquire_fails s th now tid r1 err)
  then show ?case using registry_ok_enter [of "sys_reg s" now tid] by simp
next
  case (acquire_at_once s th now tid r1 nowL)
  then show ?case using registry_ok_enter [of "sys_reg s" now tid] by (simp add: registry_ok_grant)
next
  case (acquire_leaves s th now tid r1 lost avail)
  then show ?case using registry_ok_enter [of "sys_reg s" now tid] by simp
qed (simp_all add: registry_ok_ops)

text \<open>C23. Invariant of the registry under any interleaving of any number of threads: each task is
  filed under its own ID; an owned task has a lease, and a task that is available or completed has
  neither an owner nor a lease.\<close>

theorem registry_invariant:
  assumes "reg_path sys_New evs s" and "tasks (sys_reg s) k = Some t"
  shows "task_ID t = k \<and>
     (if task_Status t = StatusOwned then task_LeaseUntil t \<noteq> 0
      else task_OwnerID t = '''' \<and> task_LeaseUntil t = 0)"
proof -
  have "registry_ok (sys_reg s') \<Longrightarrow> registry_ok (sys_reg s'')" if "reg_path s' evs s''" for s' s'' evs
    using that by (induction rule: reg_path.induct) (auto dest: reg_step_ok)
  from this [OF assms(1)] have "registry_ok (sys_reg s)"
    by (simp add: sys_New_def)
  with assms(2) show ?thesis
    by (auto dest: registry_okD simp: task_ok_def)
qed

definition exampleTask :: "Status \<Rightarrow> string \<Rightarrow> gotime \<Rightarrow> gotime \<Rightarrow> Task" where
  "exampleTask st ownerID lease upd =
     \<lparr>task_ID = ''t'', task_Tags = None, task_Hint = None, task_Status = st, task_OwnerID = ownerID,
      task_LeaseUntil = lease, task_CreatedAt = 1, task_UpdatedAt = upd\<rparr>"

definition exampleSys :: "Task \<Rightarrow> (nat \<rightharpoonup> string \<times> string \<times> LeaseOptions) \<Rightarrow> reg_sys" where
  "exampleSys t pend = \<lparr>sys_reg = registry_New\<lparr>tasks := [''t'' \<mapsto> t]\<rparr>, sys_pend = pend\<rparr>"

abbreviation tenNs :: LeaseOptions where
  "tenNs \<equiv> \<lparr>opt_Duration = 10\<rparr>"

lemma exampleSys_register:
  "reg_step sys_New (EvRegister 1 1 ''t'' None None) (exampleSys (exampleTask StatusAvailable '''' 0 1) Map.empty)"
  using reg_step.register [of sys_New 1 1 "''t''" None None]
  by (simp add: sys_New_def registry_Register_def registry_New_def exampleSys_def exampleTask_def
      appendNil_def Let_def)

lemma exampleSys_grant:
  "fst (acquire_grant nowL nowU (registry_New\<lparr>tasks := [''t'' \<mapsto> exampleTask st ownerID lease upd]\<rparr>) ''t'' o' tenNs) =
     registry_New\<lparr>tasks := [''t'' \<mapsto> exampleTask StatusOwned o' (nowL + 10) nowU]\<rparr>"
  by (simp add: acquire_grant_def exampleTask_def Let_def)

lemma exampleSys_acquire:
  assumes "st \<noteq> StatusOwned" and "0 < nowL" and "pend th = None"
  shows "reg_step (exampleSys (exampleTask st ownerID lease upd) pend)
     (EvAcquire th now nowL nowU ''t'' o' tenNs)
     (exampleSys (exampleTask StatusOwned o' (nowL + 10) nowU) pend)"
proof -
  let ?s = "exampleSys (exampleTask st ownerID lease upd) pend"
  have "acquire_enter now (sys_reg ?s) ''t'' = (sys_reg ?s, AcqProceed)"
    using assms(1) by (simp add: acquire_enter_def exampleTask_def exampleSys_def)
  from reg_step.acquire_at_once [OF _ this, of th nowL nowU o' tenNs]
  show ?thesis
    using assms by (simp add: exampleSys_def exampleSys_grant)
qed

theorem registry_invariant_witness:
  "task_OwnerID (exampleTask StatusAvailable '''' 0 1) = '''' \<and>
   task_LeaseUntil (exampleTask StatusOwned ''s'' 15 5) \<noteq> 0"
proof -
  have reg: "reg_path sys_New [EvRegister 1 1 ''t'' None None]
      (exampleSys (exampleTask StatusAvailable '''' 0 1) Map.empty)"
    by (rule reg_path.intros exampleSys_register)+
  have acq: "reg_path sys_New [EvRegister 1 1 ''t'' None None, EvAcquire 0 5 5 5 ''t'' ''s'' tenNs]
      (exampleSys (exampleTask StatusOwned ''s'' 15 5) Map.empty)"
    using exampleSys_acquire [of StatusAvailable 5 Map.empty 0 "''''" 0 1 5 5 "''s''"]
    by (auto intro!: reg_path.intros exampleSys_register)
  show ?thesis
    using registry_invariant [OF reg, of "''t''" "exampleTask StatusAvailable '''' 0 1"]
      registry_invariant [OF acq, of "''t''" "exampleTask StatusOwned ''s'' 15 5"]
    by (simp add: exampleSys_def exampleTask_def)
qed

text \<open>
  What may take a task away from its owner: an event of the owner, or one that reads a clock after
  the end of the lease.
\<close>

fun disturbs :: "string \<Rightarrow> Task \<Rightarrow> reg_event \<Rightarrow> bool" where
  "disturbs k t (EvAcquire th now nowL nowU tid ownerID opts) \<longleftrightarrow> tid = k \<and> leaseExpired now t"
| "disturbs k t (EvRelease now tid ownerID) \<longleftrightarrow> tid = k \<and> ownerID = task_OwnerID t"
| "disturbs k t (EvReleaseAll ks clk ownerID) \<longleftrightarrow> ownerID = task_OwnerID t"
| "disturbs k t (EvComplete now tid ownerID) \<longleftrightarrow> tid = k \<and> ownerID = task_OwnerID t"
| "disturbs k t (EvEvict ks now clk) \<longleftrightarrow> leaseExpired now t"
| "disturbs k t ev \<longleftrightarrow> False"

definition no_pending :: "string \<Rightarrow> reg_sys \<Rightarrow> bool" where
  \<comment> \<open>no thread is between the two critical sections of an \<open>Acquire\<close> of task \<open>k\<close>\<close>
  "no_pending k s \<longleftrightarrow> (\<forall>th ownerID opts. sys_pend s th \<noteq> Some (k, ownerID, opts))"

lemma acquire_enter_other: "tid \<noteq> k \<Longrightarrow> tasks (fst (acquire_enter now r tid)) k = tasks r k"
  by (rule acquire_enter_cases [of r tid now]) auto

lemma range_update_fixed:
  "m k = Some v \<Longrightarrow> f k v = v \<Longrightarrow> range_update f m ks k = Some v"
proof (induction ks arbitrary: m)
  case (Cons j ks)
  then have "\<And>u. m j = Some u \<Longrightarrow> (m(j \<mapsto> f j u)) k = Some v" by auto
  with Cons show ?case by (auto split: option.splits simp del: fun_upd_apply)
qed simp

lemma reg_step_protects:
  assumes "reg_step s ev s'" and "tasks (sys_reg s) k = Some t" and "task_Status t = StatusOwned"
    and "no_pending k s" and "\<not> disturbs k t ev"
  shows "tasks (sys_reg s') k = Some t \<and> no_pending k s'"
  using assms
proof (induction rule: reg_step.induct)
  case (acquire_fails s th now tid r1 err nowL nowU ownerID opts)
  have "r1 = sys_reg s"
    using acquire_fails by (cases rule: acquire_enter_cases [of "sys_reg s" tid now]) auto
  with acquire_fails show ?case by (simp add: no_pending_def)
next
  case (acquire_at_once s th now tid r1 nowL nowU ownerID opts)
  have "tid \<noteq> k" "r1 = sys_reg s"
    using acquire_at_once by (cases rule: acquire_enter_cases [of "sys_reg s" tid now]; auto)+
  with acquire_at_once show ?case by (simp add: no_pending_def acquire_grant_tasks)
next
  case (acquire_leaves s th now tid r1 lost avail nowL nowU ownerID opts)
  have "tid \<noteq> k"
    using acquire_leaves by (cases rule: acquire_enter_cases [of "sys_reg s" tid now]) auto
  then show ?case
    using acquire_leaves acquire_enter_other [of tid k now "sys_reg s"] by (auto simp: no_pending_def)
next
  case (acquire_resumes s th tid ownerID opts nowL nowU)
  have "tid \<noteq> k" using acquire_resumes by (auto simp: no_pending_def)
  with acquire_resumes show ?case by (auto simp: no_pending_def acquire_grant_tasks)
next
  case (release_all s ks clk ownerID)
  then show ?case
    by (auto simp: no_pending_def registry_ReleaseAll_tasks freeing_def ownedBy_def intro!: range_update_fixed)
next
  case (evict s ks now clk)
  then show ?case
    by (auto simp: no_pending_def registry_evictExpired_tasks freeing_def evictable_def intro!: range_update_fixed)
qed (auto simp: no_pending_def registry_Register_def registry_Release_def registry_MarkCompleted_def Let_def
    split: option.splits)

text \<open>C22. A lease protects its owner: while a task is owned and no other thread has found its previous
  lease expired and is still about to take it over, no interleaving of calls changes the task, as long
  as the calls are not the owner's own and no clock reading lies after the end of the lease.\<close>

theorem lease_protects:
  assumes "reg_path s evs s'" and "tasks (sys_reg s) k = Some t" and "task_Status t = StatusOwned"
    and "no_pending k s" and "\<And>ev. ev \<in> set evs \<Longrightarrow> \<not> disturbs k t ev"
  shows "tasks (sys_reg s') k = Some t"
  using assms
proof (induction rule: reg_path.induct)
  case (path_step s ev s' evs s'')
  then show ?case using reg_step_protects [of s ev s' k t] by simp
qed simp

theorem lease_protects_witness:
  "tasks (sys_reg (exampleSys (exampleTask StatusOwned ''s'' 15 5) Map.empty)) ''t'' =
     Some (exampleTask StatusOwned ''s'' 15 5)"
proof -
  let ?s = "exampleSys (exampleTask StatusOwned ''s'' 15 5) Map.empty"
  have "acquire_enter 9 (sys_reg ?s) ''t'' = (sys_reg ?s, AcqFail ErrTaskNotAvailable)"
    by (simp add: acquire_enter_def exampleSys_def exampleTask_def leaseExpired_def)
  from reg_step.acquire_fails [OF _ this, of 3 9 9 "''thief''" tenNs]
  have "reg_step ?s (EvAcquire 3 9 9 9 ''t'' ''thief'' tenNs) ?s"
    by (simp add: exampleSys_def)
  then have "reg_path ?s [EvAcquire 3 9 9 9 ''t'' ''thief'' tenNs] ?s"
    by (rule reg_path.path_step [OF _ reg_path.path_here])
  from lease_protects [OF this, of "''t''" "exampleTask StatusOwned ''s'' 15 5"] show ?thesis
    by (simp add: exampleSys_def exampleTask_def no_pending_def leaseExpired_def)
qed

text \<open>C39. The hypothesis about other threads is needed: two callers that race for an expired lease can
  both be told that they own the task.  The first finds the lease expired and leaves the lock to run
  the callbacks; the second acquires the task; the first takes the lock again, does not look at the
  status, and takes the task from the second, whose lease has not expired and who gets no
  ownership-lost event.\<close>

theorem acquire_race_steals:
  "\<exists>evs s s'. reg_path sys_New evs s \<and>
     tasks (sys_reg s) ''t'' = Some (exampleTask StatusOwned ''second'' 40 30) \<and>
     \<not> leaseExpired 31 (exampleTask StatusOwned ''second'' 40 30) \<and>
     reg_step s (EvResume 1 31 31) s' \<and>
     tasks (sys_reg s') ''t'' = Some (exampleTask StatusOwned ''first'' 41 31)"
proof -
  let ?s2 = "exampleSys (exampleTask StatusOwned ''old'' 15 5) Map.empty"
  let ?p = "[1 \<mapsto> (''t'', ''first'', tenNs)]"
  let ?s3 = "exampleSys (exampleTask StatusAvailable '''' 0 5) ?p"
  let ?s4 = "exampleSys (exampleTask StatusOwned ''second'' 40 30) ?p"
  let ?s5 = "exampleSys (exampleTask StatusOwned ''first'' 41 31) Map.empty"
  have 1: "reg_step (exampleSys (exampleTask StatusAvailable '''' 0 1) Map.empty)
      (EvAcquire 0 5 5 5 ''t'' ''old'' tenNs) ?s2"
    using exampleSys_acquire [of StatusAvailable 5 Map.empty 0 "''''" 0 1 5 5 "''old''"] by simp
  have "acquire_enter 29 (sys_reg ?s2) ''t'' =
      (sys_reg ?s3, AcqExpired \<lparr>lost_TaskID = ''t'', lost_OwnerID = ''old'', lost_Reason = ''lease_expired''\<rparr>
         (availableEvent (exampleTask StatusOwned ''old'' 15 5) ''t'' ''lease_expired''))"
    by (simp add: acquire_enter_def exampleSys_def exampleTask_def leaseExpired_def freeTask_def)
  from reg_step.acquire_leaves [OF _ this, of 1 29 29 "''first''" tenNs]
  have 2: "reg_step ?s2 (EvAcquire 1 29 29 29 ''t'' ''first'' tenNs) ?s3"
    by (simp add: exampleSys_def)
  have 3: "reg_step ?s3 (EvAcquire 2 30 30 30 ''t'' ''second'' tenNs) ?s4"
    using exampleSys_acquire [of StatusAvailable 30 ?p 2 "''''" 0 5 30 30 "''second''"] by simp
  have 4: "reg_step ?s4 (EvResume 1 31 31) ?s5"
    using reg_step.acquire_resumes [of ?s4 1 "''t''" "''first''" tenNs 31 31]
    by (simp add: exampleSys_def exampleSys_grant)
  have "reg_path sys_New [EvRegister 1 1 ''t'' None None, EvAcquire 0 5 5 5 ''t'' ''old'' tenNs,
      EvAcquire 1 29 29 29 ''t'' ''first'' tenNs, EvAcquire 2 30 30 30 ''t'' ''second'' tenNs] ?s4"
    by (rule reg_path.intros exampleSys_register 1 2 3)+
  with 4 show ?thesis
    by (intro exI conjI) (auto simp: exampleSys_def exampleTask_def leaseExpired_def)
qed

section \<open>Properties of single calls\<close>

lemma registry_Acquire_unexpired:
  assumes "tasks r tid = Some t" and "task_Status t = StatusOwned" and "\<not> leaseExpired now t"
  shows "registry_Acquire now nowL nowU r tid ownerID opts e = (r, e, Returns (Inl ErrTaskNotAvailable))"
  using assms by (simp add: registry_Acquire_def acquire_enter_def)

lemma registry_Acquire_free:
  assumes "tasks r tid = Some t" and "task_Status t \<noteq> StatusOwned"
  shows "registry_Acquire now nowL nowU r tid ownerID opts e =
    (r\<lparr>tasks := (tasks r)(tid \<mapsto> grantedTask nowL nowU ownerID opts t)\<rparr>, e,
     Returns (Inr \<lparr>acq_Task = grantedTask nowL nowU ownerID opts t, acq_LeaseUntil = nowL + leaseLength opts\<rparr>))"
  using assms by (simp add: registry_Acquire_def acquire_enter_def acquire_grant_eq)

lemma registry_Acquire_expired:
  assumes "tasks r tid = Some t" and "task_Status t = StatusOwned" and "leaseExpired now t"
  shows "registry_Acquire now nowL nowU r tid ownerID opts e =
    (case fire_plain (lostHandlers r)
            \<lparr>lost_TaskID = tid, lost_OwnerID = task_OwnerID t, lost_Reason = ''lease_expired''\<rparr> e of
       Panicked e1 \<Rightarrow> (r\<lparr>tasks := (tasks r)(tid \<mapsto> freeTask t)\<rparr>, e1, Panics)
     | Returned e1 \<Rightarrow>
         (r\<lparr>tasks := (tasks r)(tid \<mapsto> grantedTask nowL nowU ownerID opts (freeTask t))\<rparr>,
          fire_recover (availHandlers r) (availableEvent t tid ''lease_expired'') e1,
          Returns (Inr \<lparr>acq_Task = grantedTask nowL nowU ownerID opts (freeTask t),
                        acq_LeaseUntil = nowL + leaseLength opts\<rparr>)))"
  using assms
  by (simp add: registry_Acquire_def acquire_enter_def acquire_grant_eq registry_fireAvailable_def Let_def
      split: hresult.splits)

lemma registry_Acquire_success:
  assumes "registry_Acquire now nowL nowU r tid ownerID opts e = (r', e', Returns (Inr res))"
  obtains t where "tasks r' = (tasks r)(tid \<mapsto> grantedTask nowL nowU ownerID opts t)"
    and "acq_LeaseUntil res = nowL + leaseLength opts" and "task_ID t = task_ID (the (tasks r tid))"
    and "acq_Task res = grantedTask nowL nowU ownerID opts t"
proof (cases rule: acquire_enter_cases [of r tid now])
  case missing
  with assms show ?thesis by (simp add: registry_Acquire_def)
next
  case (owned t)
  with assms show ?thesis by (simp add: registry_Acquire_def)
next
  case (expired t)
  show ?thesis
    by (rule that [of "freeTask t"])
       (use assms expired in \<open>auto simp: registry_Acquire_expired split: hresult.splits\<close>)
next
  case (free t)
  show ?thesis
    by (rule that [of t]) (use assms free in \<open>auto simp: registry_Acquire_free\<close>)
qed

text \<open>Exclusive leases: a successful \<open>Acquire\<close> makes the caller the owner until the clock reading
  plus the requested duration (30 seconds when none is given), and until then every further \<open>Acquire\<close>
  of the task, by anyone, is refused and changes nothing.\<close>

theorem acquire_exclusive:
  assumes "registry_Acquire now nowL nowU r tid ownerID opts e = (r', e', Returns (Inr res))"
  shows "acq_LeaseUntil res = nowL + (if opt_Duration opts \<le> 0 then 30000000000 else opt_Duration opts) \<and>
     ownedBy ownerID (acq_Task res) \<and> registry_Get r' tid = Inr (acq_Task res) \<and>
     (if now' > acq_LeaseUntil res then True
      else registry_Acquire now' nowL' nowU' r' tid ownerID' opts' e'' =
             (r', e'', Returns (Inl ErrTaskNotAvailable)))"
proof -
  obtain t where t: "tasks r' = (tasks r)(tid \<mapsto> grantedTask nowL nowU ownerID opts t)"
      "acq_LeaseUntil res = nowL + leaseLength opts"
      "acq_Task res = grantedTask nowL nowU ownerID opts t"
    using assms by (rule registry_Acquire_success)
  have "registry_Acquire now' nowL' nowU' r' tid ownerID' opts' e'' = (r', e'', Returns (Inl ErrTaskNotAvailable))"
    if "\<not> now' > acq_LeaseUntil res"
    by (rule registry_Acquire_unexpired [where t = "grantedTask nowL nowU ownerID opts t"])
       (use t that in \<open>simp_all add: leaseExpired_def\<close>)
  with t show ?thesis
    by (simp add: leaseLength_def DefaultLeaseDuration_def Second_def ownedBy_def registry_Get_def)
qed

definition exampleRegistry :: "Task \<Rightarrow> string list Registry" where
  "exampleRegistry t =
     registry_New\<lparr>tasks := [''t'' \<mapsto> t],
       lostHandlers := [\<lambda>ev e. Returned (e @ [''lost '' @ lost_OwnerID ev])],
       availHandlers := [\<lambda>ev e. Returned (e @ [''free '' @ avail_TaskID ev])]\<rparr>"

theorem acquire_exclusive_witness:
  "registry_Acquire 15 15 15 (exampleRegistry (exampleTask StatusOwned ''s'' 15 5)) ''t'' ''thief'' tenNs [] =
     (exampleRegistry (exampleTask StatusOwned ''s'' 15 5), [], Returns (Inl ErrTaskNotAvailable))"
proof -
  have "registry_Acquire 5 5 5 (exampleRegistry (exampleTask StatusAvailable '''' 0 1)) ''t'' ''s'' tenNs [] =
      (exampleRegistry (exampleTask StatusOwned ''s'' 15 5), [],
       Returns (Inr \<lparr>acq_Task = exampleTask StatusOwned ''s'' 15 5, acq_LeaseUntil = 15\<rparr>))"
    by (simp add: exampleRegistry_def exampleTask_def registry_Acquire_def acquire_enter_def
        acquire_grant_def Let_def)
  from acquire_exclusive [OF this, of 15 15 15 "''thief''" tenNs "[]"] show ?thesis by simp
qed

text \<open>Leases end: when the lease of an owned task has expired and no ownership-lost callback panics,
  an \<open>Acquire\<close> succeeds; the previous owner's loss is reported before the availability of the task,
  and both before the new lease is granted.\<close>

theorem acquire_after_expiry:
  assumes "tasks r tid = Some t" and "task_Status t = StatusOwned" and "leaseExpired now t"
    and "\<And>h e. h \<in> set (lostHandlers r) \<Longrightarrow> \<exists>e'. h lev e = Returned e'"
    and "lev = \<lparr>lost_TaskID = tid, lost_OwnerID = task_OwnerID t, lost_Reason = ''lease_expired''\<rparr>"
  shows "\<exists>t'. registry_Acquire now nowL nowU r tid ownerID opts e =
      (r\<lparr>tasks := (tasks r)(tid \<mapsto> t')\<rparr>,
       fire_recover (availHandlers r) (availableEvent t tid ''lease_expired'')
         (fire_recover (lostHandlers r) lev e),
       Returns (Inr \<lparr>acq_Task = t', acq_LeaseUntil = task_LeaseUntil t'\<rparr>)) \<and>
     ownedBy ownerID t' \<and> task_ID t' = task_ID t \<and> nowL < task_LeaseUntil t'"
proof -
  have "fire_plain (lostHandlers r) lev e = Returned (fire_recover (lostHandlers r) lev e)"
    using assms(4) by (rule fire_plain_returns)
  then show ?thesis
    using assms(1-3) leaseLength_pos [of opts]
    by (intro exI [of _ "grantedTask nowL nowU ownerID opts (freeTask t)"])
       (simp add: registry_Acquire_expired ownedBy_def assms(5))
qed

theorem acquire_after_expiry_witness:
  "fst (snd (registry_Acquire 16 16 16 (exampleRegistry (exampleTask StatusOwned ''s'' 15 5)) ''t'' ''next'' tenNs [])) =
     [''lost s'', ''free t'']"
proof -
  let ?r = "exampleRegistry (exampleTask StatusOwned ''s'' 15 5)"
  have "\<exists>t'. registry_Acquire 16 16 16 ?r ''t'' ''next'' tenNs [] =
      (?r\<lparr>tasks := (tasks ?r)(''t'' \<mapsto> t')\<rparr>,
       fire_recover (availHandlers ?r) (availableEvent (exampleTask StatusOwned ''s'' 15 5) ''t'' ''lease_expired'')
         (fire_recover (lostHandlers ?r) \<lparr>lost_TaskID = ''t'', lost_OwnerID = ''s'', lost_Reason = ''lease_expired''\<rparr> []),
       Returns (Inr \<lparr>acq_Task = t', acq_LeaseUntil = task_LeaseUntil t'\<rparr>)) \<and>
      ownedBy ''next'' t' \<and> task_ID t' = task_ID (exampleTask StatusOwned ''s'' 15 5) \<and> 16 < task_LeaseUntil t'"
    by (rule acquire_after_expiry) (auto simp: exampleRegistry_def exampleTask_def leaseExpired_def)
  then show ?thesis
    by (auto simp: exampleRegistry_def availableEvent_def)
qed

text \<open>Completion is not final: \<open>Acquire\<close> refuses a task only while it is owned, so a completed task
  is granted like an available one, although it is no longer listed as available; and \<open>Release\<close> with
  an empty owner makes any task that nobody owns available again, a completed one included.\<close>

theorem completed_task_reopens:
  assumes "registry_ok r" and "registry_MarkCompleted now r tid ownerID = (r', None)"
  shows "\<exists>t. registry_Get r' tid = Inr t \<and> task_Status t = StatusCompleted \<and>
     t \<notin> set (registry_ListAvailable ks r' f) \<and>
     (\<exists>r'' res. registry_Acquire now' nowL nowU r' tid other opts e = (r'', e, Returns (Inr res)) \<and>
        ownedBy other (acq_Task res)) \<and>
     (\<exists>r'' t'. fst (registry_Release now' r' tid '''' e) = r'' \<and> tasks r'' tid = Some t' \<and>
        task_Status t' = StatusAvailable)"
proof -
  obtain t where t: "tasks r' tid = Some t" "task_Status t = StatusCompleted" "task_OwnerID t = ''''"
    using assms(2) by (auto simp: registry_MarkCompleted_def split: option.splits if_splits)
  then show ?thesis
    by (auto simp: registry_Get_def registry_Acquire_free ownedBy_def registry_Release_def
        registry_ListAvailable_def set_range_values split: if_splits)
qed

theorem completed_task_reopens_witness:
  "\<exists>r'' res. registry_Acquire 8 8 8 (exampleRegistry (exampleTask StatusCompleted '''' 0 7)) ''t'' ''again'' tenNs [] =
     (r'', [], Returns (Inr res)) \<and> ownedBy ''again'' (acq_Task res)"
proof -
  have ok: "registry_ok (exampleRegistry (exampleTask StatusOwned ''s'' 15 5))"
    by (simp add: registry_ok_def exampleRegistry_def exampleTask_def task_ok_def)
  have "registry_MarkCompleted 7 (exampleRegistry (exampleTask StatusOwned ''s'' 15 5)) ''t'' ''s'' =
      (exampleRegistry (exampleTask StatusCompleted '''' 0 7), None)"
    by (simp add: registry_MarkCompleted_def exampleRegistry_def exampleTask_def)
  from completed_task_reopens [OF ok this, of "[]" None 8 8 8 "''again''" tenNs "[]"]
  show ?thesis by blast
qed

text \<open>\<open>ListAvailable\<close> returns, each exactly once, the tasks that are available and carry one of the
  filter tags, and all available tasks when the filter is empty.\<close>

theorem ListAvailable_exact:
  assumes "registry_ok r" and "enumerates ks (tasks r)"
  shows "distinct (registry_ListAvailable ks r f) \<and>
     set (registry_ListAvailable ks r f) =
       {t \<in> ran (tasks r). task_Status t = StatusAvailable \<and>
          (elems f = [] \<or> set (elems (task_Tags t)) \<inter> set (elems f) \<noteq> {})}"
proof
  show "distinct (registry_ListAvailable ks r f)"
    using enumeratesD(1) [OF assms(2)] registry_ok_inj [OF assms(1)]
    by (auto simp: registry_ListAvailable_def split: if_splits intro!: distinct_range_values)
  have "set (registry_ListAvailable ks r f) =
      {t. \<exists>k. tasks r k = Some t \<and> task_Status t = StatusAvailable \<and> tagFilter f (task_Tags t)}"
    unfolding registry_ListAvailable_def set_range_values_enum [OF assms(2)] by (auto split: if_splits)
  then show "set (registry_ListAvailable ks r f) =
      {t \<in> ran (tasks r). task_Status t = StatusAvailable \<and>
         (elems f = [] \<or> set (elems (task_Tags t)) \<inter> set (elems f) \<noteq> {})}"
    unfolding tagFilter_iff ran_def by blast
qed

theorem ListAvailable_exact_witness:
  "exampleTask StatusAvailable '''' 0 1 \<in>
     set (registry_ListAvailable [''t''] (exampleRegistry (exampleTask StatusAvailable '''' 0 1)) None)"
proof -
  have "registry_ok (exampleRegistry (exampleTask StatusAvailable '''' 0 1))"
    "enumerates [''t''] (tasks (exampleRegistry (exampleTask StatusAvailable '''' 0 1)))"
    by (auto simp: registry_ok_def exampleRegistry_def exampleTask_def task_ok_def enumerates_def)
  note exact = ListAvailable_exact [OF this, of None]
  have "ran (tasks (exampleRegistry (exampleTask StatusAvailable '''' 0 1))) = {exampleTask StatusAvailable '''' 0 1}"
    by (simp add: exampleRegistry_def)
  moreover have "task_Status (exampleTask StatusAvailable '''' 0 1) = StatusAvailable"
    by (simp add: exampleTask_def)
  ultimately show ?thesis using exact by simp
qed

section \<open>Properties of the calls that free many tasks\<close>

definition never_panics :: "('ev, 'e) handler list \<Rightarrow> bool" where
  "never_panics hs \<longleftrightarrow> (\<forall>h \<in> set hs. \<forall>ev e. \<exists>e'. h ev e = Returned e')"

lemma fire_plain_never_panics: "never_panics hs \<Longrightarrow> fire_plain hs ev e = Returned (fire_recover hs ev e)"
  by (rule fire_plain_returns) (simp add: never_panics_def)

definition lostEvent :: "Task \<Rightarrow> string \<Rightarrow> LostEvent" where
  "lostEvent t reason = \<lparr>lost_TaskID = task_ID t, lost_OwnerID = task_OwnerID t, lost_Reason = reason\<rparr>"

lemma fire_released_fold:
  assumes "never_panics lhs" and "\<And>t. t \<in> set ts \<Longrightarrow> task_OwnerID t = ownerID"
  shows "fire_released ahs lhs ownerID ts e =
    Returned (fold (\<lambda>t e. fire_recover lhs (lostEvent t ''disconnected'')
                            (fire_recover ahs (availableEvent t (task_ID t) ''disconnected'') e)) ts e)"
  using assms(2)
  by (induction ts arbitrary: e)
     (simp_all add: registry_fireAvailable_def fire_plain_never_panics [OF assms(1)] lostEvent_def Let_def)

lemma fire_expired_fold:
  assumes "never_panics lhs"
  shows "fire_expired lhs ahs ts e =
    Returned (fold (\<lambda>t e. fire_recover ahs (availableEvent t (task_ID t) ''lease_expired'')
                            (fire_recover lhs (lostEvent t ''lease_expired'') e)) ts e)"
  by (induction ts arbitrary: e)
     (simp_all add: registry_fireAvailable_def fire_plain_never_panics [OF assms] lostEvent_def)

lemma selected_tasks:
  assumes "registry_ok r" and "enumerates ks (tasks r)"
  shows "distinct (range_values (\<lambda>_ t. if P t then Some t else None) (tasks r) ks)"
    and "set (range_values (\<lambda>_ t. if P t then Some t else None) (tasks r) ks) = {t \<in> ran (tasks r). P t}"
proof -
  show "distinct (range_values (\<lambda>_ t. if P t then Some t else None) (tasks r) ks)"
    using enumeratesD(1) [OF assms(2)] registry_ok_inj [OF assms(1)]
    by (auto split: if_splits intro!: distinct_range_values)
  have "set (range_values (\<lambda>_ t. if P t then Some t else None) (tasks r) ks) = {t. \<exists>k. tasks r k = Some t \<and> P t}"
    unfolding set_range_values_enum [OF assms(2)] by (auto split: if_splits)
  then show "set (range_values (\<lambda>_ t. if P t then Some t else None) (tasks r) ks) = {t \<in> ran (tasks r). P t}"
    unfolding ran_def by blast
qed

lemma registry_ReleaseAll_eq:
  assumes "registry_ok r" and "enumerates ks (tasks r)" and "never_panics (lostHandlers r)"
  shows "registry_ReleaseAll ks clk r ownerID e =
    (let ts = range_values (\<lambda>_ t. if ownedBy ownerID t then Some t else None) (tasks r) ks in
     (r\<lparr>tasks := (\<lambda>k. map_option (freeing (ownedBy ownerID) clk k) (tasks r k))\<rparr>,
      fold (\<lambda>t e. fire_recover (lostHandlers r) (lostEvent t ''disconnected'')
                    (fire_recover (availHandlers r) (availableEvent t (task_ID t) ''disconnected'') e)) ts e,
      Returns (map task_ID ts)))"
proof -
  let ?ts = "range_values (\<lambda>_ t. if ownedBy ownerID t then Some t else None) (tasks r) ks"
  have fire: "fire_released (availHandlers r) (lostHandlers r) ownerID ?ts e =
      Returned (fold (\<lambda>t e. fire_recover (lostHandlers r) (lostEvent t ''disconnected'')
        (fire_recover (availHandlers r) (availableEvent t (task_ID t) ''disconnected'') e)) ?ts e)"
  proof (rule fire_released_fold [OF assms(3)])
    fix t
    assume "t \<in> set ?ts"
    then show "task_OwnerID t = ownerID"
      unfolding selected_tasks(2) [OF assms(1,2)] by (simp add: ownedBy_def)
  qed
  have upd: "range_update (freeing (ownedBy ownerID) clk) (tasks r) ks =
      (\<lambda>k. map_option (freeing (ownedBy ownerID) clk k) (tasks r k))"
    by (rule ext) (rule range_update_enum [OF assms(2)])
  have free: "(\<lambda>k t. if ownedBy ownerID t then (freeTask t)\<lparr>task_UpdatedAt := clk k\<rparr> else t) =
      freeing (ownedBy ownerID) clk"
    by (simp add: fun_eq_iff freeing_def)
  show ?thesis
    unfolding registry_ReleaseAll_def Let_def free upd fire
    by simp
qed

lemma registry_evictExpired_eq:
  assumes "registry_ok r" and "enumerates ks (tasks r)" and "never_panics (lostHandlers r)"
  shows "registry_evictExpired ks now clk r e =
    (let ts = range_values (\<lambda>_ t. if evictable now t then Some t else None) (tasks r) ks in
     (r\<lparr>tasks := (\<lambda>k. map_option (freeing (evictable now) clk k) (tasks r k))\<rparr>,
      fold (\<lambda>t e. fire_recover (availHandlers r) (availableEvent t (task_ID t) ''lease_expired'')
                    (fire_recover (lostHandlers r) (lostEvent t ''lease_expired'') e)) ts e,
      Returns ()))"
proof -
  have upd: "range_update (freeing (evictable now) clk) (tasks r) ks =
      (\<lambda>k. map_option (freeing (evictable now) clk k) (tasks r k))"
    by (rule ext) (rule range_update_enum [OF assms(2)])
  have free: "(\<lambda>k t. if evictable now t then (freeTask t)\<lparr>task_UpdatedAt := clk k\<rparr> else t) =
      freeing (evictable now) clk"
    by (simp add: fun_eq_iff freeing_def)
  show ?thesis
    unfolding registry_evictExpired_def Let_def free upd fire_expired_fold [OF assms(3)]
    by simp
qed

text \<open>A disconnect: \<open>ReleaseAll\<close> frees exactly the tasks that the owner holds, leaves every other
  task as it is, returns the IDs of the freed tasks, each once, and reports each of them once, first as
  available and then as lost by its owner, when no ownership-lost callback panics.\<close>

theorem ReleaseAll_exact:
  assumes "registry_ok r" and "enumerates ks (tasks r)" and "never_panics (lostHandlers r)"
  shows "\<exists>ts. registry_ReleaseAll ks clk r ownerID e =
     (r\<lparr>tasks := (\<lambda>k. map_option (\<lambda>t. if ownedBy ownerID t then (freeTask t)\<lparr>task_UpdatedAt := clk k\<rparr> else t)
                        (tasks r k))\<rparr>,
      fold (\<lambda>t e. fire_recover (lostHandlers r) (lostEvent t ''disconnected'')
                    (fire_recover (availHandlers r) (availableEvent t (task_ID t) ''disconnected'') e)) ts e,
      Returns (map task_ID ts)) \<and>
     distinct (map task_ID ts) \<and> set ts = {t \<in> ran (tasks r). ownedBy ownerID t}"
proof -
  let ?ts = "range_values (\<lambda>_ t. if ownedBy ownerID t then Some t else None) (tasks r) ks"
  have "inj_on task_ID (set ?ts)"
    unfolding selected_tasks(2) [OF assms(1,2)] inj_on_def ran_def
    using registry_ok_ID [OF assms(1)] by fastforce
  then show ?thesis
    using registry_ReleaseAll_eq [OF assms, of clk ownerID e] selected_tasks [OF assms(1,2), of "ownedBy ownerID"]
    by (intro exI [of _ ?ts]) (simp add: distinct_map freeing_def [abs_def] Let_def)
qed

text \<open>Lease expiry: \<open>evictExpired\<close> frees exactly the owned tasks whose lease ended before its clock
  reading, so that no such task is left, leaves every other task as it is, and reports each freed task
  once, first as lost by its owner and then as available, when no ownership-lost callback panics.\<close>

theorem evictExpired_exact:
  assumes "registry_ok r" and "enumerates ks (tasks r)" and "never_panics (lostHandlers r)"
  shows "\<exists>ts. registry_evictExpired ks now clk r e =
     (r\<lparr>tasks := (\<lambda>k. map_option (\<lambda>t. if evictable now t then (freeTask t)\<lparr>task_UpdatedAt := clk k\<rparr> else t)
                        (tasks r k))\<rparr>,
      fold (\<lambda>t e. fire_recover (availHandlers r) (availableEvent t (task_ID t) ''lease_expired'')
                    (fire_recover (lostHandlers r) (lostEvent t ''lease_expired'') e)) ts e,
      Returns ()) \<and>
     distinct ts \<and> set ts = {t \<in> ran (tasks r). task_Status t = StatusOwned \<and> task_LeaseUntil t < now}"
proof -
  let ?ts = "range_values (\<lambda>_ t. if evictable now t then Some t else None) (tasks r) ks"
  have "{t \<in> ran (tasks r). evictable now t} =
      {t \<in> ran (tasks r). task_Status t = StatusOwned \<and> task_LeaseUntil t < now}"
  proof -
    have "evictable now t \<longleftrightarrow> task_Status t = StatusOwned \<and> task_LeaseUntil t < now" if "t \<in> ran (tasks r)" for t
      using that registry_okD [OF assms(1)]
      by (auto simp: ran_def evictable_def leaseExpired_def task_ok_def split: if_splits)
    then show ?thesis by blast
  qed
  then show ?thesis
    using registry_evictExpired_eq [OF assms, of now clk e] selected_tasks [OF assms(1,2), of "evictable now"]
    by (intro exI [of _ ?ts]) (simp add: freeing_def [abs_def] Let_def)
qed

lemma exampleRegistry_facts:
  "registry_ok (exampleRegistry (exampleTask StatusOwned ''s'' 15 5))"
  "enumerates [''t''] (tasks (exampleRegistry t))"
  "never_panics (lostHandlers (exampleRegistry t))"
  "ran (tasks (exampleRegistry t)) = {t}"
  by (auto simp: registry_ok_def exampleRegistry_def exampleTask_def task_ok_def enumerates_def never_panics_def)

theorem ReleaseAll_exact_witness:
  "fst (snd (registry_ReleaseAll [''t''] (\<lambda>_. 7) (exampleRegistry (exampleTask StatusOwned ''s'' 15 5)) ''s'' [])) =
     [''free t'', ''lost s'']"
proof -
  let ?t = "exampleTask StatusOwned ''s'' 15 5"
  obtain ts where ts: "registry_ReleaseAll [''t''] (\<lambda>_. 7) (exampleRegistry ?t) ''s'' [] =
     ((exampleRegistry ?t)\<lparr>tasks := (\<lambda>k. map_option (\<lambda>t. if ownedBy ''s'' t then (freeTask t)\<lparr>task_UpdatedAt := 7\<rparr> else t)
                        (tasks (exampleRegistry ?t) k))\<rparr>,
      fold (\<lambda>t e. fire_recover (lostHandlers (exampleRegistry ?t)) (lostEvent t ''disconnected'')
        (fire_recover (availHandlers (exampleRegistry ?t)) (availableEvent t (task_ID t) ''disconnected'') e)) ts [],
      Returns (map task_ID ts))"
    "distinct (map task_ID ts)" "set ts = {t \<in> ran (tasks (exampleRegistry ?t)). ownedBy ''s'' t}"
    using ReleaseAll_exact [OF exampleRegistry_facts(1-3), of "\<lambda>_. 7" "''s''" "[]"] by blast
  have "ownedBy ''s'' ?t" by (simp add: ownedBy_def exampleTask_def)
  then have "ts = [?t]"
    using ts(2,3) by (intro set_singleton_distinct) (auto simp: distinct_map exampleRegistry_facts(4))
  with ts(1) show ?thesis
    by (simp add: exampleRegistry_def exampleTask_def lostEvent_def availableEvent_def)
qed

theorem evictExpired_exact_witness:
  "fst (snd (registry_evictExpired [''t''] 16 (\<lambda>_. 16) (exampleRegistry (exampleTask StatusOwned ''s'' 15 5)) [])) =
     [''lost s'', ''free t'']"
proof -
  let ?t = "exampleTask StatusOwned ''s'' 15 5"
  obtain ts where ts: "registry_evictExpired [''t''] 16 (\<lambda>_. 16) (exampleRegistry ?t) [] =
     ((exampleRegistry ?t)\<lparr>tasks := (\<lambda>k. map_option (\<lambda>t. if evictable 16 t then (freeTask t)\<lparr>task_UpdatedAt := 16\<rparr> else t)
                        (tasks (exampleRegistry ?t) k))\<rparr>,
      fold (\<lambda>t e. fire_recover (availHandlers (exampleRegistry ?t)) (availableEvent t (task_ID t) ''lease_expired'')
        (fire_recover (lostHandlers (exampleRegistry ?t)) (lostEvent t ''lease_expired'') e)) ts [],
      Returns ())"
    "distinct ts" "set ts = {t \<in> ran (tasks (exampleRegistry ?t)). task_Status t = StatusOwned \<and> task_LeaseUntil t < 16}"
    using evictExpired_exact [OF exampleRegistry_facts(1-3), of 16 "\<lambda>_. 16" "[]"] by blast
  have "task_Status ?t = StatusOwned \<and> task_LeaseUntil ?t < 16" by (simp add: exampleTask_def)
  then have "ts = [?t]"
    using ts(2,3) by (intro set_singleton_distinct) (auto simp: exampleRegistry_facts(4))
  with ts(1) show ?thesis
    by (simp add: exampleRegistry_def exampleTask_def lostEvent_def availableEvent_def)
qed

lemma registry_evictExpired_frame:
  assumes "registry_evictExpired ks now clk r e = (r', e', out)"
  shows "lostHandlers r' = lostHandlers r" and "dom (tasks r') = dom (tasks r)" and "registry_ok r \<Longrightarrow> registry_ok r'"
proof -
  have fst: "r' = fst (registry_evictExpired ks now clk r e)" using assms by simp
  show "lostHandlers r' = lostHandlers r"
    using assms by (auto simp: registry_evictExpired_def Let_def split: hresult.splits)
  show "dom (tasks r') = dom (tasks r)" unfolding fst registry_evictExpired_tasks by simp
  show "registry_ok r \<Longrightarrow> registry_ok r'" unfolding fst by (rule registry_ok_evictExpired)
qed

definition tick_order :: "'e Registry \<Rightarrow> watch_event \<Rightarrow> bool" where
  "tick_order r ev \<longleftrightarrow> (case ev of WDone \<Rightarrow> True | WTick ks now clk \<Rightarrow> enumerates ks (tasks r))"

lemma not_evictable_freeing:
  "\<not> evictable now (freeing (evictable now) clk k t)"
  by (simp add: freeing_def evictable_def)

lemma evictExpired_exact_aux:
  assumes "registry_ok r" and "enumerates ks (tasks r)" and "never_panics (lostHandlers r)"
  shows "\<exists>r' e'. registry_evictExpired ks now clk r e = (r', e', Returns ()) \<and>
    (\<forall>k t. tasks r' k = Some t \<longrightarrow> \<not> evictable now t)"
  by (auto simp: registry_evictExpired_eq [OF assms] Let_def not_evictable_freeing)

lemma leaseWatcher_append:
  assumes "registry_ok r" and "never_panics (lostHandlers r)" and "\<And>ev. ev \<in> set evs \<Longrightarrow> tick_order r ev"
    and "WDone \<notin> set evs"
  shows "\<exists>r' e'. (\<forall>evs'. registry_leaseWatcher (evs @ evs') r e = registry_leaseWatcher evs' r' e') \<and>
    registry_ok r' \<and> lostHandlers r' = lostHandlers r \<and> dom (tasks r') = dom (tasks r)"
  using assms
proof (induction evs arbitrary: r e)
  case (Cons ev evs)
  then obtain ks now clk where ev: "ev = WTick ks now clk" by (cases ev) auto
  have "enumerates ks (tasks r)" using Cons.prems(3) [of ev] by (simp add: ev tick_order_def)
  then have "\<exists>r1 e1. registry_evictExpired ks now clk r e = (r1, e1, Returns ())"
    by (simp add: registry_evictExpired_eq Cons.prems(1,2) Let_def)
  then obtain r1 e1 where 1: "registry_evictExpired ks now clk r e = (r1, e1, Returns ())" by blast
  note frame = registry_evictExpired_frame [OF 1]
  have "tick_order r1 ev'" if "ev' \<in> set evs" for ev'
    using Cons.prems(3) [of ev'] that frame(2) by (auto simp: tick_order_def enumerates_def split: watch_event.splits)
  then show ?case
    using Cons.IH [of r1 e1] Cons.prems frame by (simp add: ev 1)
qed auto

text \<open>The lease watcher: as long as no ownership-lost callback panics it keeps running through any
  number of ticks; after a tick at time \<open>now\<close> no lease that ended before \<open>now\<close> is held any more; and
  it returns as soon as the registry's \<open>done\<close> channel is received from, whatever would follow.\<close>

theorem leaseWatcher_frees:
  assumes "registry_ok r" and "never_panics (lostHandlers r)" and "\<And>ev. ev \<in> set evs \<Longrightarrow> tick_order r ev"
    and "WDone \<notin> set evs" and "enumerates ks (tasks r)"
  shows "\<exists>r' e'. registry_leaseWatcher (evs @ [WTick ks now clk]) r e = (r', e', Running) \<and>
      registry_leaseWatcher (evs @ WTick ks now clk # WDone # rest) r e = (r', e', Stopped) \<and>
      (\<forall>k t. \<not> (tasks r' k = Some t \<and> task_Status t = StatusOwned \<and> task_LeaseUntil t < now))"
proof -
  obtain r1 e1 where 1: "\<And>evs'. registry_leaseWatcher (evs @ evs') r e = registry_leaseWatcher evs' r1 e1"
      "registry_ok r1" "lostHandlers r1 = lostHandlers r" "dom (tasks r1) = dom (tasks r)"
    using leaseWatcher_append [OF assms(1-4)] by blast
  have enum: "enumerates ks (tasks r1)" and quiet: "never_panics (lostHandlers r1)"
    using assms(2,5) 1(3,4) by (simp_all add: enumerates_def)
  from evictExpired_exact_aux [OF 1(2) enum quiet] obtain r2 e2
    where 2: "registry_evictExpired ks now clk r1 e1 = (r2, e2, Returns ())"
      "\<And>k t. tasks r2 k = Some t \<Longrightarrow> \<not> evictable now t"
    by blast
  have "registry_ok r2" using registry_evictExpired_frame(3) [OF 2(1)] 1(2) by blast
  then have "\<not> (tasks r2 k = Some t \<and> task_Status t = StatusOwned \<and> task_LeaseUntil t < now)" for k t
    using 2(2) [of k t] registry_okD [of r2 k t]
    by (auto simp: evictable_def leaseExpired_def task_ok_def)
  with 2(1) show ?thesis by (simp add: 1(1))
qed

theorem leaseWatcher_frees_witness:
  "\<exists>r' e'. registry_leaseWatcher [WTick [''t''] 9 (\<lambda>_. 9), WTick [''t''] 16 (\<lambda>_. 16)]
      (exampleRegistry (exampleTask StatusOwned ''s'' 15 5)) [] = (r', e', Running)"
proof -
  have "tick_order (exampleRegistry (exampleTask StatusOwned ''s'' 15 5)) (WTick [''t''] 9 (\<lambda>_. 9))"
    by (simp add: tick_order_def exampleRegistry_facts(2))
  then show ?thesis
    using leaseWatcher_frees [OF exampleRegistry_facts(1,3), of "[WTick [''t''] 9 (\<lambda>_. 9)]" "[''t'']" 16 "\<lambda>_. 16" "[]" "[]"]
    by (auto simp: exampleRegistry_facts(2) simp del: registry_leaseWatcher.simps)
qed

end
