(* ===== verification/World.thy ===== *)
theory World imports Prelude begin

text \<open>
  The versioned object store, \<open>internal/world/world.go\<close>: its records, \<open>Get\<close>, \<open>List\<close>, \<open>Apply\<close>,
  \<open>Delete\<close>, \<open>Snapshot\<close> and the change callbacks.  The mutex makes every method one atomic step,
  followed by the callbacks, which run outside it.  The store never mutates an object that it has
  stored: it replaces the map's entry, so objects are values here.

  The lemmas give each branch of each operation, the invariant that an object is filed under its
  own ID, and a refinement: the store is the replay of a log of accepted requests per object, its
  version the length of that log.  The locale \<open>object_store\<close> is what the merge coordinator relies on.
\<close>

section \<open>Data\<close>

record Object =
  obj_ID :: string
  obj_Data :: "char slice"
  obj_Version :: uint64
  obj_Tags :: "string slice"
  obj_Meta :: "char slice"
  obj_UpdatedAt :: gotime

record UpdateRequest =
  req_ObjectID :: string
  req_Data :: "char slice"
  req_ExpectedVersion :: uint64
  req_Tags :: "string slice"
  req_Meta :: "char slice"

datatype ChangeKind = ChangeCreated | ChangeUpdated | ChangeDeleted

record ChangeEvent =
  chg_Kind :: ChangeKind
  chg_Object :: Object
  chg_PrevVersion :: uint64

datatype world_error = ErrObjectNotFound | ErrVersionConflict

record 'e World =
  objects :: "string \<rightharpoonup> Object"
  handlers :: "(ChangeEvent, 'e) handler list"

section \<open>Operations\<close>

definition world_New :: "'e World" where
  "world_New = \<lparr>objects = Map.empty, handlers = []\<rparr>"

definition world_OnChange :: "'e World \<Rightarrow> (ChangeEvent, 'e) handler \<Rightarrow> 'e World" where
  "world_OnChange w h = w\<lparr>handlers := handlers w @ [h]\<rparr>"

definition copySlice :: "'a slice \<Rightarrow> 'a slice" where
  \<comment> \<open>\<open>copyTags\<close> and \<open>copyBytes\<close>: \<open>nil\<close> stays \<open>nil\<close>, anything else is copied element by element\<close>
  "copySlice s = (case s of None \<Rightarrow> None | Some xs \<Rightarrow> Some (map (\<lambda>x. x) xs))"

definition cloneObject :: "Object \<Rightarrow> Object" where
  "cloneObject ob =
     \<lparr>obj_ID = obj_ID ob, obj_Data = copySlice (obj_Data ob), obj_Version = obj_Version ob,
      obj_Tags = copySlice (obj_Tags ob), obj_Meta = copySlice (obj_Meta ob),
      obj_UpdatedAt = obj_UpdatedAt ob\<rparr>"

definition world_Get :: "'e World \<Rightarrow> string \<Rightarrow> world_error + Object" where
  "world_Get w oid =
     (case objects w oid of
        None \<Rightarrow> Inl ErrObjectNotFound
      | Some ob \<Rightarrow> Inr (cloneObject ob))"

definition world_List :: "string list \<Rightarrow> 'e World \<Rightarrow> string slice \<Rightarrow> Object list" where
  \<comment> \<open>the first argument is the order in which Go ranges over \<open>w.objects\<close>\<close>
  "world_List ks w filterTags =
     range_values
       (\<lambda>_ ob. if tagFilter filterTags (obj_Tags ob) then Some (cloneObject ob) else None)
       (objects w) ks"

definition world_Snapshot :: "string list \<Rightarrow> 'e World \<Rightarrow> Object list" where
  "world_Snapshot ks w = range_values (\<lambda>_ ob. Some (cloneObject ob)) (objects w) ks"

definition orExisting :: "'a slice \<Rightarrow> 'a slice option \<Rightarrow> 'a slice" where
  \<comment> \<open>\<open>x := copy(req.X); if x == nil && exists { x = copy(existing.X) }\<close>\<close>
  "orExisting new existing =
     (let x = copySlice new in
      case existing of
        Some old \<Rightarrow> (if x = None then copySlice old else x)
      | None \<Rightarrow> x)"

definition world_Apply ::
    "gotime \<Rightarrow> 'e World \<Rightarrow> UpdateRequest \<Rightarrow> 'e \<Rightarrow> 'e World \<times> 'e \<times> (world_error + Object)" where
  "world_Apply now w req e =
     (let existing = objects w (req_ObjectID req) in
      if req_ExpectedVersion req > 0 \<and> existing = None then (w, e, Inl ErrObjectNotFound)
      else if req_ExpectedVersion req > 0 \<and>
              obj_Version (the existing) \<noteq> req_ExpectedVersion req
        then (w, e, Inl ErrVersionConflict)
      else
        let prevVersion = (case existing of None \<Rightarrow> 0 | Some ob \<Rightarrow> obj_Version ob);
            nextVersion = (case existing of None \<Rightarrow> 1 | Some ob \<Rightarrow> obj_Version ob + 1);
            kind = (case existing of None \<Rightarrow> ChangeCreated | Some _ \<Rightarrow> ChangeUpdated);
            updated = \<lparr>obj_ID = req_ObjectID req,
                       obj_Data = orExisting (req_Data req) (map_option obj_Data existing),
                       obj_Version = nextVersion,
                       obj_Tags = orExisting (req_Tags req) (map_option obj_Tags existing),
                       obj_Meta = orExisting (req_Meta req) (map_option obj_Meta existing),
                       obj_UpdatedAt = now\<rparr>;
            w' = w\<lparr>objects := (objects w)(req_ObjectID req \<mapsto> updated)\<rparr>;
            evt = \<lparr>chg_Kind = kind, chg_Object = updated, chg_PrevVersion = prevVersion\<rparr>
        in (w', fire_recover (handlers w) evt e, Inr updated))"

definition world_Delete :: "'e World \<Rightarrow> string \<Rightarrow> 'e \<Rightarrow> 'e World \<times> 'e \<times> bool" where
  "world_Delete w oid e =
     (case objects w oid of
        None \<Rightarrow> (w, e, False)
      | Some existing \<Rightarrow>
          (w\<lparr>objects := (objects w)(oid := None)\<rparr>,
           fire_recover (handlers w)
             \<lparr>chg_Kind = ChangeDeleted, chg_Object = cloneObject existing,
              chg_PrevVersion = obj_Version existing\<rparr> e,
           True))"

section \<open>Branches\<close>

lemma copySlice_id [simp]: "copySlice s = s"
  by (simp add: copySlice_def split: option.splits)

lemma cloneObject_id [simp]: "cloneObject ob = ob"
  by (simp add: cloneObject_def)

lemma orExisting_simps [simp]:
  "orExisting new None = new"
  "orExisting (Some xs) ex = Some xs"
  "orExisting None (Some old) = old"
  by (simp_all add: orExisting_def Let_def split: option.splits)

definition admissible :: "'e World \<Rightarrow> UpdateRequest \<Rightarrow> bool" where
  \<comment> \<open>the request passes the optimistic version check\<close>
  "admissible w req \<longleftrightarrow>
     (req_ExpectedVersion req = 0 \<or>
      (\<exists>ob. objects w (req_ObjectID req) = Some ob \<and> obj_Version ob = req_ExpectedVersion req))"

lemma world_Get_simps [simp]:
  "objects w oid = None \<Longrightarrow> world_Get w oid = Inl ErrObjectNotFound"
  "objects w oid = Some ob \<Longrightarrow> world_Get w oid = Inr ob"
  by (simp_all add: world_Get_def)

lemma world_Apply_rejects:
  assumes "\<not> admissible w req"
  shows "world_Apply now w req e =
     (w, e, Inl (if objects w (req_ObjectID req) = None then ErrObjectNotFound else ErrVersionConflict))"
  using assms
  by (auto simp: admissible_def world_Apply_def Let_def word_gt_0 split: option.splits)

definition appliedObject :: "gotime \<Rightarrow> Object option \<Rightarrow> UpdateRequest \<Rightarrow> Object" where
  "appliedObject now old req =
     \<lparr>obj_ID = req_ObjectID req,
      obj_Data = orExisting (req_Data req) (map_option obj_Data old),
      obj_Version = (case old of None \<Rightarrow> 1 | Some ob \<Rightarrow> obj_Version ob + 1),
      obj_Tags = orExisting (req_Tags req) (map_option obj_Tags old),
      obj_Meta = orExisting (req_Meta req) (map_option obj_Meta old),
      obj_UpdatedAt = now\<rparr>"

definition appliedEvent :: "Object option \<Rightarrow> Object \<Rightarrow> ChangeEvent" where
  "appliedEvent old updated =
     \<lparr>chg_Kind = (if old = None then ChangeCreated else ChangeUpdated),
      chg_Object = updated,
      chg_PrevVersion = (case old of None \<Rightarrow> 0 | Some ob \<Rightarrow> obj_Version ob)\<rparr>"

lemma appliedObject_sel [simp]:
  "obj_ID (appliedObject now old req) = req_ObjectID req"
  "obj_UpdatedAt (appliedObject now old req) = now"
  "obj_Version (appliedObject now None req) = 1"
  "obj_Version (appliedObject now (Some ob) req) = obj_Version ob + 1"
  by (simp_all add: appliedObject_def)

lemma world_Apply_accepts:
  assumes "admissible w req"
  shows "world_Apply now w req e =
     (let old = objects w (req_ObjectID req); updated = appliedObject now old req in
      (w\<lparr>objects := (objects w)(req_ObjectID req \<mapsto> updated)\<rparr>,
       fire_recover (handlers w) (appliedEvent old updated) e, Inr updated))"
  using assms
  by (cases "objects w (req_ObjectID req)")
     (auto simp: admissible_def world_Apply_def appliedObject_def appliedEvent_def Let_def word_gt_0)

lemmas world_Apply_branches = world_Apply_rejects world_Apply_accepts

lemma world_Apply_Inl_iff:
  "(\<exists>x. world_Apply now w req e = (w', e', Inl x)) \<longleftrightarrow> \<not> admissible w req \<and> w' = w \<and> e' = e"
  by (cases "admissible w req") (auto simp: world_Apply_branches Let_def)

lemma world_Apply_handlers [simp]: "handlers (fst (world_Apply now w req e)) = handlers w"
  by (cases "admissible w req") (simp_all add: world_Apply_branches Let_def)

lemma world_Delete_handlers [simp]: "handlers (fst (world_Delete w oid e)) = handlers w"
  by (simp add: world_Delete_def split: option.splits)

lemma world_Delete_objects [simp]:
  "objects (fst (world_Delete w oid e)) = (objects w)(oid := None)"
  by (auto simp: world_Delete_def split: option.splits)

lemma world_Apply_objects:
  "objects (fst (world_Apply now w req e)) =
     (if admissible w req
      then (objects w)(req_ObjectID req \<mapsto> appliedObject now (objects w (req_ObjectID req)) req)
      else objects w)"
  by (simp add: world_Apply_branches Let_def)

section \<open>Well-formedness\<close>

definition world_ok :: "'e World \<Rightarrow> bool" where
  "world_ok w \<longleftrightarrow> finite (dom (objects w)) \<and> (\<forall>k ob. objects w k = Some ob \<longrightarrow> obj_ID ob = k)"

lemma world_okI [intro]:
  assumes "finite (dom (objects w))" and "\<And>k ob. objects w k = Some ob \<Longrightarrow> obj_ID ob = k"
  shows "world_ok w"
  using assms by (simp add: world_ok_def)

lemma world_ok_ID: "world_ok w \<Longrightarrow> objects w k = Some ob \<Longrightarrow> obj_ID ob = k"
  by (simp add: world_ok_def)

lemma world_ok_inj:
  "world_ok w \<Longrightarrow> objects w k = Some ob \<Longrightarrow> objects w k' = Some ob \<Longrightarrow> k = k'"
  by (auto simp: world_ok_def)

lemma world_ok_New [simp]: "world_ok world_New"
  by (simp add: world_ok_def world_New_def)

lemma world_ok_OnChange [simp]: "world_ok (world_OnChange w h) \<longleftrightarrow> world_ok w"
  by (simp add: world_ok_def world_OnChange_def)

lemma world_ok_Apply: "world_ok w \<Longrightarrow> world_ok (fst (world_Apply now w req e))"
  by (auto simp: world_ok_def world_Apply_objects)

lemma world_ok_Delete: "world_ok w \<Longrightarrow> world_ok (fst (world_Delete w oid e))"
  by (auto simp: world_ok_def)

section \<open>Sequences of operations and the log they implement\<close>

text \<open>
  A sequence of mutating calls, in the order in which they take the mutex.  \<open>world_run\<close> runs them;
  the clock readings are in the operations.
\<close>

datatype world_op = OpApply gotime UpdateRequest | OpDelete string

fun world_step :: "world_op \<Rightarrow> 'e World \<times> 'e \<Rightarrow> 'e World \<times> 'e" where
  "world_step (OpApply now req) (w, e) = (let (w', e', _) = world_Apply now w req e in (w', e'))"
| "world_step (OpDelete oid) (w, e) = (let (w', e', _) = world_Delete w oid e in (w', e'))"

definition world_run :: "world_op list \<Rightarrow> 'e World \<times> 'e \<Rightarrow> 'e World \<times> 'e" where
  "world_run ops s = fold world_step ops s"

lemma world_run_simps [simp]:
  "world_run [] s = s"
  "world_run (x # xs) s = world_run xs (world_step x s)"
  by (simp_all add: world_run_def)

lemma world_step_fst [simp]:
  "fst (world_step (OpApply now req) (w, e)) = fst (world_Apply now w req e)"
  "fst (world_step (OpDelete oid) (w, e)) = fst (world_Delete w oid e)"
  by (simp_all add: Let_def split: prod.splits)

lemma world_ok_step: "world_ok (fst s) \<Longrightarrow> world_ok (fst (world_step x s))"
  by (cases s; cases x) (simp_all only: world_step_fst fst_conv world_ok_Apply world_ok_Delete)

lemma world_ok_run: "world_ok (fst s) \<Longrightarrow> world_ok (fst (world_run ops s))"
  by (induction ops arbitrary: s) (simp_all add: world_ok_step)

text \<open>
  The specification: per object, the list of the requests accepted since it was last deleted, with
  the time of the last one.  It has no versions and no merging of fields.
\<close>

type_synonym obj_log = "string \<Rightarrow> (gotime \<times> UpdateRequest) list"

definition log_admits :: "obj_log \<Rightarrow> UpdateRequest \<Rightarrow> bool" where
  "log_admits L req \<longleftrightarrow>
     (req_ExpectedVersion req = 0 \<or>
      (L (req_ObjectID req) \<noteq> [] \<and>
       word_of_nat (length (L (req_ObjectID req))) = req_ExpectedVersion req))"

fun log_step :: "world_op \<Rightarrow> obj_log \<Rightarrow> obj_log" where
  "log_step (OpApply now req) L =
     (if log_admits L req then L(req_ObjectID req := L (req_ObjectID req) @ [(now, req)]) else L)"
| "log_step (OpDelete oid) L = L(oid := [])"

definition log_run :: "world_op list \<Rightarrow> obj_log \<Rightarrow> obj_log" where
  "log_run ops L = fold log_step ops L"

lemma log_run_simps [simp]:
  "log_run [] L = L"
  "log_run (x # xs) L = log_run xs (log_step x L)"
  by (simp_all add: log_run_def)

definition last_set :: "'a slice list \<Rightarrow> 'a slice" where
  \<comment> \<open>the last value of the list that is not \<open>nil\<close>\<close>
  "last_set xs = fold (\<lambda>x acc. if x = None then acc else x) xs None"

lemma last_set_simps [simp]:
  "last_set [] = None"
  "last_set (xs @ [None]) = last_set xs"
  "last_set (xs @ [Some y]) = Some y"
  by (simp_all add: last_set_def)

definition log_object :: "string \<Rightarrow> (gotime \<times> UpdateRequest) list \<Rightarrow> Object option" where
  "log_object k l =
     (if l = [] then None
      else Some \<lparr>obj_ID = k,
                 obj_Data = last_set (map (req_Data \<circ> snd) l),
                 obj_Version = word_of_nat (length l),
                 obj_Tags = last_set (map (req_Tags \<circ> snd) l),
                 obj_Meta = last_set (map (req_Meta \<circ> snd) l),
                 obj_UpdatedAt = fst (last l)\<rparr>)"

definition log_abs :: "obj_log \<Rightarrow> string \<rightharpoonup> Object" where
  "log_abs L = (\<lambda>k. log_object k (L k))"

lemma log_abs_apply: "log_abs L k = log_object k (L k)"
  by (simp add: log_abs_def)

lemma log_object_Nil [simp]: "log_object k [] = None"
  by (simp add: log_object_def)

lemma last_set_snoc: "last_set (xs @ [y]) = orExisting y (if xs = [] then None else Some (last_set xs))"
  by (cases y) (auto simp: last_set_def)

lemma log_object_snoc:
  assumes "req_ObjectID req = k"
  shows "log_object k (l @ [(now, req)]) = Some (appliedObject now (log_object k l) req)"
  using assms by (auto simp: log_object_def appliedObject_def last_set_snoc add.commute)

lemma log_admits_iff:
  "objects w = log_abs L \<Longrightarrow> admissible w req \<longleftrightarrow> log_admits L req"
  by (auto simp: admissible_def log_admits_def log_abs_apply log_object_def)

lemma log_step_refines:
  assumes "objects (fst s) = log_abs L"
  shows "objects (fst (world_step x s)) = log_abs (log_step x L)"
proof (cases x)
  case (OpApply now req)
  have abs: "log_abs L (req_ObjectID req) = log_object (req_ObjectID req) (L (req_ObjectID req))"
    by (simp add: log_abs_apply)
  have "(log_abs L)(req_ObjectID req \<mapsto> appliedObject now (log_abs L (req_ObjectID req)) req)
        = log_abs (L(req_ObjectID req := L (req_ObjectID req) @ [(now, req)]))"
    by (rule ext) (simp add: log_abs_apply log_object_snoc)
  with OpApply assms log_admits_iff [OF assms] show ?thesis
    by (cases s) (simp add: world_Apply_objects del: world_step.simps)
next
  case (OpDelete oid)
  with assms show ?thesis
    by (cases s) (auto simp: log_abs_def fun_eq_iff simp del: world_step.simps)
qed

lemma log_run_refines:
  "objects (fst s) = log_abs L \<Longrightarrow> objects (fst (world_run ops s)) = log_abs (log_run ops L)"
  by (induction ops arbitrary: s L) (simp_all add: log_step_refines)

text \<open>Without deletions, a log only grows, by at most one entry per operation.\<close>

primrec deletes :: "string \<Rightarrow> world_op \<Rightarrow> bool" where
  "deletes k (OpApply now req) = False"
| "deletes k (OpDelete oid) = (oid = k)"

lemma log_run_grows:
  assumes "\<And>x. x \<in> set ops \<Longrightarrow> \<not> deletes k x"
  shows "\<exists>new. log_run ops L k = L k @ new \<and> length new \<le> length ops"
  using assms
proof (induction ops arbitrary: L)
  case (Cons x ops)
  have "\<exists>n1. log_step x L k = L k @ n1 \<and> length n1 \<le> 1"
    using Cons.prems [of x] by (cases x) auto
  moreover have "\<exists>n2. log_run ops (log_step x L) k = log_step x L k @ n2 \<and> length n2 \<le> length ops"
    using Cons by simp
  ultimately show ?case by fastforce
qed simp

section \<open>The contract of the store\<close>

text \<open>
  What a client that only looks objects up and puts requests relies on.  The facts below are about
  a loop of puts, which is how the merge coordinator drives the store.
\<close>

definition nextVersion :: "Object option \<Rightarrow> uint64" where
  "nextVersion old = (case old of None \<Rightarrow> 1 | Some ob \<Rightarrow> obj_Version ob + 1)"

definition currentVersion :: "Object option \<Rightarrow> uint64" where
  "currentVersion old = (case old of None \<Rightarrow> 0 | Some ob \<Rightarrow> obj_Version ob)"

lemma nextVersion_currentVersion [simp]: "nextVersion old = currentVersion old + 1"
  by (simp add: nextVersion_def currentVersion_def split: option.splits)

lemma currentVersion_Some [simp]: "currentVersion (Some ob) = obj_Version ob"
  by (simp add: currentVersion_def)

definition putOK :: "string \<Rightarrow> UpdateRequest \<times> (world_error + Object) \<Rightarrow> bool" where
  "putOK k = (\<lambda>(q, r). req_ObjectID q = k \<and> \<not> isl r)"

locale object_store =
  fixes lookup :: "'s \<Rightarrow> string \<Rightarrow> Object option"
    and put :: "UpdateRequest \<Rightarrow> 's \<Rightarrow> 's \<times> (world_error + Object)"
  assumes put_lookup: "snd (put q s) = Inr ob \<Longrightarrow> lookup (fst (put q s)) = (lookup s)(req_ObjectID q \<mapsto> ob)"
    and put_version: "snd (put q s) = Inr ob \<Longrightarrow> obj_Version ob = nextVersion (lookup s (req_ObjectID q))"
    and put_ID: "snd (put q s) = Inr ob \<Longrightarrow> obj_ID ob = req_ObjectID q"
    and put_error: "snd (put q s) = Inl x \<Longrightarrow> lookup (fst (put q s)) = lookup s"
begin

lemma put_other: "k \<noteq> req_ObjectID q \<Longrightarrow> lookup (fst (put q s)) k = lookup s k"
  by (cases "snd (put q s)") (simp_all add: put_lookup put_error)

lemma puts_frame:
  assumes "k \<notin> req_ObjectID ` set qs"
  shows "lookup (fst (thread put qs s)) k = lookup s k"
  using assms
  by (induction qs arbitrary: s) (simp_all add: thread_Cons put_other del: thread.simps(2))

lemma put_currentVersion:
  "currentVersion (lookup (fst (put q s)) k) =
     currentVersion (lookup s k) + (if putOK k (q, snd (put q s)) then 1 else 0)"
proof (cases "snd (put q s)")
  case (Inl x)
  then show ?thesis by (simp add: putOK_def put_error)
next
  case (Inr ob)
  then show ?thesis by (simp add: putOK_def put_lookup put_version)
qed

lemma puts_version:
  "currentVersion (lookup (fst (thread put qs s)) k) =
     currentVersion (lookup s k) +
     word_of_nat (length (filter (putOK k) (zip qs (snd (thread put qs s)))))"
proof (induction qs arbitrary: s)
  case (Cons q qs)
  show ?case
    using Cons [of "fst (put q s)"]
    by (simp add: thread_Cons put_currentVersion del: thread.simps(2))
qed simp

lemma puts_result:
  assumes "i < length qs" and "snd (thread put qs s) ! i = Inr ob"
  shows "obj_ID ob = req_ObjectID (qs ! i)"
  using assms by (simp add: thread_nth put_ID)

lemma puts_last:
  assumes "snd (thread put (qs @ [q]) s) ! length qs = Inr ob"
  shows "lookup (fst (thread put (qs @ [q]) s)) (req_ObjectID q) = Some ob"
  using assms
  by (simp add: thread_nth thread_append_fst nth_append thread_Cons put_lookup del: thread.simps(2))

end

text \<open>
  The world provides the contract, with the environment of its callbacks and the position in the
  stream of clock readings as part of the state.
\<close>

definition world_put ::
    "(nat \<Rightarrow> gotime) \<Rightarrow> UpdateRequest \<Rightarrow> 'e World \<times> 'e \<times> nat \<Rightarrow> ('e World \<times> 'e \<times> nat) \<times> (world_error + Object)" where
  "world_put clk q = (\<lambda>(w, e, i). let (w', e', r) = world_Apply (clk i) w q e in ((w', e', Suc i), r))"

definition world_lookup :: "'e World \<times> 'e \<times> nat \<Rightarrow> string \<Rightarrow> Object option" where
  "world_lookup = (\<lambda>(w, e, i). objects w)"

lemma world_lookup_simp [simp]: "world_lookup (w, e, i) = objects w"
  by (simp add: world_lookup_def)

lemma world_put_unfold:
  "world_put clk q (w, e, i) =
     ((fst (world_Apply (clk i) w q e), fst (snd (world_Apply (clk i) w q e)), Suc i),
      snd (snd (world_Apply (clk i) w q e)))"
  by (simp add: world_put_def Let_def split: prod.splits)

interpretation worldstore: object_store world_lookup "world_put clk" for clk :: "nat \<Rightarrow> gotime"
proof unfold_locales
  fix q :: UpdateRequest and s :: "'e World \<times> 'e \<times> nat" and ob and x
  obtain w e i where s: "s = (w, e, i)" by (cases s) auto
  show "snd (world_put clk q s) = Inr ob \<Longrightarrow>
      world_lookup (fst (world_put clk q s)) = (world_lookup s)(req_ObjectID q \<mapsto> ob)"
    "snd (world_put clk q s) = Inr ob \<Longrightarrow> obj_ID ob = req_ObjectID q"
    "snd (world_put clk q s) = Inl x \<Longrightarrow> world_lookup (fst (world_put clk q s)) = world_lookup s"
    by (cases "admissible w q";
        force simp: s world_put_unfold world_Apply_branches Let_def)+
  show "snd (world_put clk q s) = Inr ob \<Longrightarrow>
      obj_Version ob = nextVersion (world_lookup s (req_ObjectID q))"
    by (cases "admissible w q"; cases "objects w (req_ObjectID q)";
        force simp: s world_put_unfold world_Apply_branches Let_def currentVersion_def)
qed

section \<open>Properties of the store\<close>

lemma log_abs_empty: "log_abs (\<lambda>_. []) = Map.empty"
  by (simp add: log_abs_def)

text \<open>C2. Refinement: for every sequence of updates and deletions, from the empty store and with any
  registered callbacks, the stored objects are those of the log specification.  An object exists
  exactly if its log is not empty, its version is the length of the log (modulo 2^64), each of data,
  tags and metadata is the last value that was not \<open>nil\<close>, and its time is that of the last accepted
  request.\<close>

theorem world_refines_log:
  "objects (fst (world_run ops (world_New\<lparr>handlers := hs\<rparr>, e))) = log_abs (log_run ops (\<lambda>_. []))"
  by (rule log_run_refines) (simp add: world_New_def log_abs_empty)

lemma world_step_version:
  assumes "objects (fst s) k = Some ob" and "\<not> deletes k x"
  shows "\<exists>ob' n. objects (fst (world_step x s)) k = Some ob' \<and>
           obj_Version ob' = obj_Version ob + word_of_nat n \<and> n \<le> 1"
proof (cases x)
  case (OpApply now req)
  show ?thesis
  proof (cases "admissible (fst s) req \<and> req_ObjectID req = k")
    case True
    with OpApply assms show ?thesis
      by (cases s) (auto simp: world_Apply_objects simp del: world_step.simps intro: exI [of _ "1::nat"])
  next
    case False
    with OpApply assms show ?thesis
      by (cases s) (auto simp: world_Apply_objects simp del: world_step.simps intro: exI [of _ "0::nat"])
  qed
next
  case (OpDelete oid)
  with assms show ?thesis
    by (cases s) (auto simp del: world_step.simps intro: exI [of _ "0::nat"])
qed

lemma world_run_version:
  assumes "objects (fst s) k = Some ob" and "\<And>x. x \<in> set ops \<Longrightarrow> \<not> deletes k x"
  shows "\<exists>ob' n. objects (fst (world_run ops s)) k = Some ob' \<and>
           obj_Version ob' = obj_Version ob + word_of_nat n \<and> n \<le> length ops"
  using assms
proof (induction ops arbitrary: s ob)
  case Nil
  then show ?case by (auto intro: exI [of _ "0::nat"])
next
  case (Cons x ops)
  obtain ob1 n1 where 1: "objects (fst (world_step x s)) k = Some ob1"
      "obj_Version ob1 = obj_Version ob + word_of_nat n1" "n1 \<le> 1"
    using world_step_version [OF Cons.prems(1), of x] Cons.prems(2) [of x] by auto
  obtain ob2 n2 where 2: "objects (fst (world_run ops (world_step x s))) k = Some ob2"
      "obj_Version ob2 = obj_Version ob1 + word_of_nat n2" "n2 \<le> length ops"
    using Cons.IH [OF 1(1)] Cons.prems(2) by auto
  from 1 2 have "obj_Version ob2 = obj_Version ob + word_of_nat (n1 + n2)" "n1 + n2 \<le> length (x # ops)"
    by (simp_all add: add.assoc)
  with 2(1) show ?case by (metis world_run_simps(2))
qed

lemma word_shift_neq:
  fixes v :: uint64
  assumes "0 < n" and "n < 2 ^ 64"
  shows "v + word_of_nat n \<noteq> v"
  using assms by (auto simp: word_of_nat_eq_0_iff dest: dvd_imp_le)

text \<open>C33. Optimistic concurrency: once an update that names a version has been accepted, another
  update of the same object that names the same version is refused with a version conflict and
  changes nothing, whatever updates happen in between, unless the object is deleted in between or
  2^64 - 1 updates pass (the version wraps around).\<close>

theorem world_cas_excludes:
  assumes won: "world_Apply t w q1 e = (w1, e1, Inr ob1)"
    and v: "req_ExpectedVersion q1 > 0" "req_ExpectedVersion q2 = req_ExpectedVersion q1"
    and same: "req_ObjectID q2 = req_ObjectID q1"
    and between: "\<And>x. x \<in> set ops \<Longrightarrow> \<not> deletes (req_ObjectID q1) x" "length ops < 2 ^ 64 - 1"
  shows "world_Apply t' (fst (world_run ops (w1, e1))) q2 e' =
           (fst (world_run ops (w1, e1)), e', Inl ErrVersionConflict)"
proof -
  let ?k = "req_ObjectID q1"
  have adm: "admissible w q1"
    using won by (cases "admissible w q1") (simp_all add: world_Apply_rejects)
  then obtain ob where ob: "objects w ?k = Some ob" "obj_Version ob = req_ExpectedVersion q1"
    using v(1) by (auto simp: admissible_def)
  have "objects w1 = (objects w)(?k \<mapsto> appliedObject t (Some ob) q1)"
    using world_Apply_objects [of t w q1 e] won adm ob by simp
  then have "objects (fst (w1, e1)) ?k = Some (appliedObject t (Some ob) q1)" by simp
  then obtain ob' n
    where ob': "objects (fst (world_run ops (w1, e1))) ?k = Some ob'"
      "obj_Version ob' = obj_Version ob + 1 + word_of_nat n" "n \<le> length ops"
    using world_run_version [of "(w1, e1)" ?k _ ops] between(1) by fastforce
  have "obj_Version ob + word_of_nat (Suc n) \<noteq> obj_Version ob"
    using between(2) ob'(3) by (intro word_shift_neq) simp_all
  then have "obj_Version ob' \<noteq> req_ExpectedVersion q2"
    using ob' ob v by (simp add: add.assoc)
  then have "\<not> admissible (fst (world_run ops (w1, e1))) q2"
    using v same ob'(1) by (auto simp: admissible_def)
  with ob'(1) same show ?thesis by (simp add: world_Apply_rejects)
qed

definition exampleRequest :: "uint64 \<Rightarrow> string \<Rightarrow> UpdateRequest" where
  "exampleRequest v d = \<lparr>req_ObjectID = ''door'', req_Data = Some d, req_ExpectedVersion = v,
     req_Tags = Some [''house''], req_Meta = None\<rparr>"

definition exampleObject :: "uint64 \<Rightarrow> string \<Rightarrow> Object" where
  "exampleObject v d = \<lparr>obj_ID = ''door'', obj_Data = Some d, obj_Version = v,
     obj_Tags = Some [''house''], obj_Meta = None, obj_UpdatedAt = 5\<rparr>"

definition exampleWorld :: "unit World" where
  "exampleWorld = \<lparr>objects = [''door'' \<mapsto> exampleObject 1 ''open''], handlers = []\<rparr>"

lemma exampleWorld_Apply:
  "world_Apply 5 exampleWorld (exampleRequest 1 ''shut'') () =
     (exampleWorld\<lparr>objects := [''door'' \<mapsto> exampleObject 2 ''shut'']\<rparr>, (), Inr (exampleObject 2 ''shut''))"
  by (simp add: world_Apply_def exampleWorld_def exampleRequest_def exampleObject_def Let_def)

theorem world_cas_excludes_witness:
  "snd (snd (world_Apply 9 (fst (world_run [OpApply 7 (exampleRequest 0 ''ajar'')]
     (exampleWorld\<lparr>objects := [''door'' \<mapsto> exampleObject 2 ''shut'']\<rparr>, ())))
     (exampleRequest 1 ''open'') ())) = Inl ErrVersionConflict"
  using world_cas_excludes [OF exampleWorld_Apply,
      of "exampleRequest 1 ''open''" "[OpApply 7 (exampleRequest 0 ''ajar'')]" 9 "()"]
  by (simp add: exampleRequest_def)

text \<open>The version check does not survive a deletion: after an object is deleted and created
  again, an update computed against version 1 of the deleted object is accepted, because the new
  object starts at version 1 as well.\<close>

theorem world_delete_aba:
  "let w1 = fst (world_Delete w (req_ObjectID q) e1);
       w2 = fst (world_Apply t1 w1 (q\<lparr>req_ExpectedVersion := 0\<rparr>) e2)
   in snd (snd (world_Apply t2 w2 (q\<lparr>req_ExpectedVersion := 1\<rparr>) e3)) =
        Inr (appliedObject t2 (objects w2 (req_ObjectID q)) q) \<and>
      currentVersion (objects w2 (req_ObjectID q)) = 1"
proof -
  let ?w1 = "fst (world_Delete w (req_ObjectID q) e1)"
  let ?w2 = "fst (world_Apply t1 ?w1 (q\<lparr>req_ExpectedVersion := 0\<rparr>) e2)"
  have w2: "objects ?w2 (req_ObjectID q) = Some (appliedObject t1 None (q\<lparr>req_ExpectedVersion := 0\<rparr>))"
    by (simp add: world_Apply_objects admissible_def)
  then have "admissible ?w2 (q\<lparr>req_ExpectedVersion := 1\<rparr>)"
    by (simp add: admissible_def)
  then show ?thesis
    using w2 by (simp add: Let_def world_Apply_accepts appliedObject_def)
qed

text \<open>\<open>List\<close> returns, each exactly once, the stored objects that carry one of the filter tags, and
  all of them when the filter is empty; \<open>Snapshot\<close> returns all of them.  The order in which Go ranges
  over the map is free.\<close>

theorem world_List_exact:
  assumes "world_ok w" and "enumerates ks (objects w)"
  shows "distinct (world_List ks w f) \<and>
         set (world_List ks w f) =
           {ob \<in> ran (objects w). elems f = [] \<or> set (elems (obj_Tags ob)) \<inter> set (elems f) \<noteq> {}} \<and>
         distinct (world_Snapshot ks w) \<and>
         set (world_Snapshot ks w) = ran (objects w)"
proof (intro conjI)
  show "distinct (world_List ks w f)" "distinct (world_Snapshot ks w)"
    using enumeratesD(1) [OF assms(2)] world_ok_inj [OF assms(1)]
    by (auto simp: world_List_def world_Snapshot_def split: if_splits intro!: distinct_range_values)
  have "set (world_List ks w f) = {ob. \<exists>k. objects w k = Some ob \<and> tagFilter f (obj_Tags ob)}"
    unfolding world_List_def set_range_values_enum [OF assms(2)] by (auto split: if_splits)
  then show "set (world_List ks w f) =
      {ob \<in> ran (objects w). elems f = [] \<or> set (elems (obj_Tags ob)) \<inter> set (elems f) \<noteq> {}}"
    by (simp add: tagFilter_iff ran_def conj_commute)
  show "set (world_Snapshot ks w) = ran (objects w)"
    by (auto simp: world_Snapshot_def set_range_values_enum [OF assms(2)] ran_def)
qed

theorem world_List_exact_witness:
  "distinct (world_List [''door''] exampleWorld (Some [''house''])) \<and>
   set (world_List [''door''] exampleWorld (Some [''house''])) = {exampleObject 1 ''open''}"
proof -
  have "world_ok exampleWorld" "enumerates [''door''] (objects exampleWorld)"
    by (auto simp: exampleWorld_def exampleObject_def enumerates_def world_ok_def)
  note exact = world_List_exact [OF this, of "Some [''house'']"]
  have "ran (objects exampleWorld) = {exampleObject 1 ''open''}"
    by (simp add: exampleWorld_def)
  moreover have "obj_Tags (exampleObject 1 ''open'') = Some [''house'']"
    by (simp add: exampleObject_def)
  ultimately have "{ob \<in> ran (objects exampleWorld). set (elems (obj_Tags ob)) \<inter> {''house''} \<noteq> {}} =
      {exampleObject 1 ''open''}"
    by (simp add: Collect_conv_if)
  with exact show ?thesis by simp
qed






lemma world_step_handlers [simp]: "handlers (fst (world_step x s)) = handlers (fst s)"
  by (cases s; cases x) (simp_all del: world_step.simps)




end
