(* ===== verification/Merge.thy ===== *)
theory Merge imports World begin

text \<open>
  The merge coordinator, \<open>internal/merge/merge.go\<close>.  The merge function is supplied by the
  application; it is a parameter of the coordinator.  The coordinator shares the world with the
  rest of the program, so \<open>coordinator_Submit\<close> takes the world (with the environment of its
  callbacks) and returns it.  The lemmas show that a rejected submission changes nothing, that the
  updates of an accepted one are applied in order, each on its own, and what that does to the
  versions; they follow from the contract \<open>object_store\<close> of the world.
\<close>

section \<open>Data\<close>

record Submission =
  sub_TaskID :: string
  sub_OwnerID :: string
  sub_Data :: "char slice"
  sub_Meta :: "char slice"

record Decision =
  dec_Accept :: bool
  dec_Reason :: string
  dec_Updates :: "UpdateRequest list"

type_synonym MergeFunc = "Submission \<Rightarrow> Decision"

datatype merge_error = ApplyFailed string world_error
  \<comment> \<open>\<open>fmt.Errorf("apply failed for %q: %w", req.ObjectID, err)\<close>\<close>

record PerUpdateResult =
  pur_ObjectID :: string
  pur_Object :: Object
  pur_Error :: "merge_error option"

record Result =
  res_Accepted :: bool
  res_Reason :: string
  res_Applied :: "PerUpdateResult list"

record Coordinator =
  mergeFunc :: MergeFunc

section \<open>Operations\<close>

definition defaultPassThrough :: MergeFunc where
  "defaultPassThrough sub = \<lparr>dec_Accept = True, dec_Reason = '''', dec_Updates = []\<rparr>"

definition coordinator_New :: "MergeFunc option \<Rightarrow> Coordinator" where
  "coordinator_New fn =
     \<lparr>mergeFunc = (case fn of None \<Rightarrow> defaultPassThrough | Some f \<Rightarrow> f)\<rparr>"

definition zeroObject :: Object where
  "zeroObject = \<lparr>obj_ID = '''', obj_Data = None, obj_Version = 0, obj_Tags = None,
                 obj_Meta = None, obj_UpdatedAt = 0\<rparr>"

definition perUpdate :: "UpdateRequest \<Rightarrow> world_error + Object \<Rightarrow> PerUpdateResult" where
  "perUpdate req r =
     (case r of
        Inl err \<Rightarrow> \<lparr>pur_ObjectID = req_ObjectID req, pur_Object = zeroObject,
                   pur_Error = Some (ApplyFailed (req_ObjectID req) err)\<rparr>
      | Inr ob \<Rightarrow> \<lparr>pur_ObjectID = req_ObjectID req, pur_Object = ob, pur_Error = None\<rparr>)"

definition submit_apply ::
    "(nat \<Rightarrow> gotime) \<Rightarrow> UpdateRequest \<Rightarrow> 'e World \<times> 'e \<times> nat \<Rightarrow> ('e World \<times> 'e \<times> nat) \<times> PerUpdateResult" where
  \<comment> \<open>the body of the loop over \<open>decision.Updates\<close>\<close>
  "submit_apply clk req s = (let (s', r) = world_put clk req s in (s', perUpdate req r))"

definition coordinator_Submit ::
    "(nat \<Rightarrow> gotime) \<Rightarrow> Coordinator \<Rightarrow> 'e World \<Rightarrow> 'e \<Rightarrow> Submission \<Rightarrow> 'e World \<times> 'e \<times> Result" where
  "coordinator_Submit clk c w e sub =
     (let decision = mergeFunc c sub in
      if \<not> dec_Accept decision then
        let reason = dec_Reason decision;
            reason' = (if reason = '''' then ''rejected by merge function'' else reason)
        in (w, e, \<lparr>res_Accepted = False, res_Reason = reason', res_Applied = []\<rparr>)
      else
        let ((w', e', _), applied) = thread (submit_apply clk) (dec_Updates decision) (w, e, 0)
        in (w', e', \<lparr>res_Accepted = True, res_Reason = '''', res_Applied = applied\<rparr>))"

section \<open>Lemmas\<close>

lemma perUpdate_simps [simp]:
  "pur_ObjectID (perUpdate req r) = req_ObjectID req"
  "pur_Error (perUpdate req (Inl err)) = Some (ApplyFailed (req_ObjectID req) err)"
  "pur_Error (perUpdate req (Inr ob)) = None"
  "pur_Object (perUpdate req (Inr ob)) = ob"
  by (simp_all add: perUpdate_def split: sum.splits)

lemma submit_apply_fst [simp]: "fst (submit_apply clk req s) = fst (world_put clk req s)"
  by (simp add: submit_apply_def Let_def split: prod.splits)

lemma submit_apply_snd [simp]: "snd (submit_apply clk req s) = perUpdate req (snd (world_put clk req s))"
  by (simp add: submit_apply_def Let_def split: prod.splits)

lemma submit_loop_state: "fst (thread (submit_apply clk) qs s) = fst (thread (world_put clk) qs s)"
  by (simp add: thread_fst_fold)

lemma submit_loop_results:
  "snd (thread (submit_apply clk) qs s) = map2 perUpdate qs (snd (thread (world_put clk) qs s))"
  by (induction qs arbitrary: s) (simp_all add: thread_Cons del: thread.simps(2))

lemma coordinator_Submit_rejected:
  assumes "\<not> dec_Accept (mergeFunc c sub)"
  shows "coordinator_Submit clk c w e sub =
    (w, e, \<lparr>res_Accepted = False,
            res_Reason = (if dec_Reason (mergeFunc c sub) = '''' then ''rejected by merge function''
                          else dec_Reason (mergeFunc c sub)),
            res_Applied = []\<rparr>)"
  using assms by (simp add: coordinator_Submit_def Let_def)

lemma coordinator_Submit_accepted:
  assumes "dec_Accept (mergeFunc c sub)"
  shows "coordinator_Submit clk c w e sub =
    (let r = thread (world_put clk) (dec_Updates (mergeFunc c sub)) (w, e, 0) in
     (fst (fst r), fst (snd (fst r)),
      \<lparr>res_Accepted = True, res_Reason = '''',
       res_Applied = map2 perUpdate (dec_Updates (mergeFunc c sub)) (snd r)\<rparr>))"
  using assms submit_loop_state [of clk "dec_Updates (mergeFunc c sub)" "(w, e, 0)"]
    submit_loop_results [of clk "dec_Updates (mergeFunc c sub)" "(w, e, 0)"]
  by (simp add: coordinator_Submit_def Let_def split_def)

lemma coordinator_Submit_Accepted [simp]:
  "res_Accepted (snd (snd (coordinator_Submit clk c w e sub))) = dec_Accept (mergeFunc c sub)"
  by (cases "dec_Accept (mergeFunc c sub)")
     (simp_all add: coordinator_Submit_accepted coordinator_Submit_rejected Let_def)

lemma coordinator_Submit_world:
  "objects (fst (coordinator_Submit clk c w e sub)) =
     (if dec_Accept (mergeFunc c sub)
      then world_lookup (fst (thread (world_put clk) (dec_Updates (mergeFunc c sub)) (w, e, 0)))
      else objects w)"
  by (simp add: coordinator_Submit_accepted coordinator_Submit_rejected Let_def world_lookup_def split_def)

lemma world_ok_put: "world_ok (fst s) \<Longrightarrow> world_ok (fst (fst (world_put clk q s)))"
  by (cases s) (simp add: world_put_unfold world_ok_Apply)

lemma world_ok_Submit: "world_ok w \<Longrightarrow> world_ok (fst (coordinator_Submit clk c w e sub))"
  using thread_invariant [of "dec_Updates (mergeFunc c sub)" "\<lambda>s. world_ok (fst s)" "world_put clk" "(w, e, 0)"]
  by (cases "dec_Accept (mergeFunc c sub)")
     (simp_all add: coordinator_Submit_accepted coordinator_Submit_rejected Let_def world_ok_put)

section \<open>Properties of submissions\<close>

text \<open>A submission raises the version of every object by exactly the number of its updates that
  the result reports as applied without an error (modulo 2^64), and by nothing when it is rejected.\<close>

theorem submit_versions:
  "currentVersion (objects (fst (coordinator_Submit clk c w e sub)) k) =
     currentVersion (objects w k) +
     word_of_nat (length (filter (\<lambda>r. pur_ObjectID r = k \<and> pur_Error r = None)
                            (res_Applied (snd (snd (coordinator_Submit clk c w e sub))))))"
proof (cases "dec_Accept (mergeFunc c sub)")
  case True
  let ?qs = "dec_Updates (mergeFunc c sub)"
  let ?t = "thread (world_put clk) ?qs (w, e, 0)"
  have "length (filter (\<lambda>r. pur_ObjectID r = k \<and> pur_Error r = None) (map2 perUpdate qs rs)) =
        length (filter (putOK k) (zip qs rs))" for qs and rs :: "(world_error + Object) list"
  proof (induction qs rs rule: list_induct2')
    case (4 q qs r rs)
    then show ?case by (cases r) (simp_all add: putOK_def)
  qed simp_all
  with True show ?thesis
    using worldstore.puts_version [of clk ?qs "(w, e, 0)" k]
    by (simp add: coordinator_Submit_world) (simp add: coordinator_Submit_accepted Let_def)
qed (simp add: coordinator_Submit_rejected)

text \<open>The updates of an accepted submission are independent of each other's failures: the result
  has one entry per update, in order, and the entry of an update is an error exactly if that update
  is not admissible in the world left by the updates before it; the loop goes on after an error.\<close>

theorem submit_each_update:
  assumes "dec_Accept (mergeFunc c sub)" and "i < length (dec_Updates (mergeFunc c sub))"
  shows "let qs = dec_Updates (mergeFunc c sub);
             before = fst (coordinator_Submit clk (c\<lparr>mergeFunc := (\<lambda>s. (mergeFunc c s)\<lparr>dec_Updates := take i qs\<rparr>)\<rparr>) w e sub);
             r = res_Applied (snd (snd (coordinator_Submit clk c w e sub)))
         in length r = length qs \<and>
            pur_ObjectID (r ! i) = req_ObjectID (qs ! i) \<and>
            (pur_Error (r ! i) = None \<longleftrightarrow> admissible before (qs ! i))"
proof -
  let ?qs = "dec_Updates (mergeFunc c sub)"
  let ?s = "fst (thread (world_put clk) (take i ?qs) (w, e, 0))"
  obtain w1 e1 j where s: "?s = (w1, e1, j)" by (cases ?s) auto
  have "snd (thread (world_put clk) ?qs (w, e, 0)) ! i = snd (world_put clk (?qs ! i) (w1, e1, j))"
    using assms(2) by (simp add: thread_nth s)
  also have "\<dots> = snd (snd (world_Apply (clk j) w1 (?qs ! i) e1))"
    by (simp add: world_put_unfold)
  finally have "pur_Error (map2 perUpdate ?qs (snd (thread (world_put clk) ?qs (w, e, 0))) ! i) = None
      \<longleftrightarrow> admissible w1 (?qs ! i)"
    using assms(2) by (cases "admissible w1 (?qs ! i)") (simp_all add: world_Apply_branches Let_def)
  then show ?thesis
    using assms by (simp add: coordinator_Submit_accepted Let_def s)
qed

definition exampleMerge :: Coordinator where
  "exampleMerge = coordinator_New (Some (\<lambda>sub.
     \<lparr>dec_Accept = True, dec_Reason = '''',
      dec_Updates = [exampleRequest 7 ''stale'', exampleRequest 0 (elems (sub_Data sub))]\<rparr>))"

definition exampleSubmission :: Submission where
  "exampleSubmission =
     \<lparr>sub_TaskID = ''t'', sub_OwnerID = ''s'', sub_Data = Some ''shut'', sub_Meta = None\<rparr>"

theorem submit_each_update_witness:
  "pur_Error (res_Applied (snd (snd (coordinator_Submit (\<lambda>_. 5) exampleMerge exampleWorld () exampleSubmission))) ! 1) = None"
  using submit_each_update [of exampleMerge exampleSubmission 1 "\<lambda>_. 5" exampleWorld "()"]
  by (simp add: exampleMerge_def coordinator_New_def exampleSubmission_def exampleRequest_def exampleWorld_def
      exampleObject_def coordinator_Submit_def submit_apply_def world_put_def world_Apply_def perUpdate_def
      admissible_def Let_def)

text \<open>A submission that the merge function does not accept changes neither the world nor anything
  its callbacks see, applies no update, and carries a reason that is never empty.  With no merge
  function configured every submission is accepted and the world stays as it is.\<close>

theorem submit_without_effect:
  "(if dec_Accept (f sub) then True
    else fst (coordinator_Submit clk (coordinator_New (Some f)) w e sub) = w \<and>
         fst (snd (coordinator_Submit clk (coordinator_New (Some f)) w e sub)) = e \<and>
         res_Applied (snd (snd (coordinator_Submit clk (coordinator_New (Some f)) w e sub))) = [] \<and>
         res_Reason (snd (snd (coordinator_Submit clk (coordinator_New (Some f)) w e sub))) \<noteq> '''')
   \<and> coordinator_Submit clk (coordinator_New None) w e sub =
       (w, e, \<lparr>res_Accepted = True, res_Reason = '''', res_Applied = []\<rparr>)"
  by (simp add: coordinator_New_def coordinator_Submit_def defaultPassThrough_def Let_def)

end
