(* ===== verification/Strconv.thy ===== *)
theory Strconv imports Prelude begin

text \<open>
  The conversions between numbers and text that the program uses: \<open>strconv.FormatUint\<close>,
  \<open>FormatInt\<close> and \<open>Itoa\<close> in base 10 and the \<open>%d\<close> of \<open>fmt\<close>, the parsers \<open>strconv.ParseUint\<close> and
  \<open>ParseInt\<close> that \<open>encoding/json\<close> applies to a number literal, \<open>Duration.String\<close> and
  \<open>Duration.Round\<close>, and \<open>strings.Join\<close>.
\<close>

section \<open>Decimal numbers\<close>

definition digitChar :: "nat \<Rightarrow> char" where
  "digitChar d = char_of (48 + d)"

definition isDigit :: "char \<Rightarrow> bool" where
  "isDigit c \<longleftrightarrow> 48 \<le> (of_char c :: nat) \<and> of_char c \<le> (57 :: nat)"

definition digitVal :: "char \<Rightarrow> nat" where
  "digitVal c = of_char c - 48"

fun showNat :: "nat \<Rightarrow> string" where
  "showNat n = (if n < 10 then [digitChar n] else showNat (n div 10) @ [digitChar (n mod 10)])"

declare showNat.simps [simp del]

definition showInt :: "int \<Rightarrow> string" where
  "showInt i = (if i < 0 then CHR ''-'' # showNat (nat (- i)) else showNat (nat i))"

definition readNat :: "string \<Rightarrow> nat" where
  "readNat s = foldl (\<lambda>n c. 10 * n + digitVal c) 0 s"

definition parseUint :: "string \<Rightarrow> uint64 option" where
  "parseUint s =
     (if s = [] \<or> \<not> list_all isDigit s then None
      else if readNat s \<ge> 2 ^ 64 then None
      else Some (word_of_nat (readNat s)))"

definition parseInt :: "string \<Rightarrow> int option" where
  "parseInt s =
     (let neg = (s \<noteq> [] \<and> hd s = CHR ''-'');
          ds = (if s \<noteq> [] \<and> (hd s = CHR ''-'' \<or> hd s = CHR ''+'') then tl s else s)
      in if ds = [] \<or> \<not> list_all isDigit ds then None
         else if neg then (if readNat ds \<le> 2 ^ 63 then Some (- int (readNat ds)) else None)
         else (if readNat ds < 2 ^ 63 then Some (int (readNat ds)) else None))"

lemma isDigit_digitChar [simp]: "d < 10 \<Longrightarrow> isDigit (digitChar d)"
  by (simp add: isDigit_def digitChar_def)

lemma digitVal_digitChar [simp]: "d < 10 \<Longrightarrow> digitVal (digitChar d) = d"
  by (simp add: digitVal_def digitChar_def)

lemma digitChar_numeral [simp]:
  "digitChar 0 = CHR ''0''" "digitChar (Suc 0) = CHR ''1''" "digitChar 2 = CHR ''2''"
  "digitChar 3 = CHR ''3''" "digitChar 4 = CHR ''4''" "digitChar 5 = CHR ''5''"
  "digitChar 6 = CHR ''6''" "digitChar 7 = CHR ''7''" "digitChar 8 = CHR ''8''" "digitChar 9 = CHR ''9''"
  by (simp_all add: digitChar_def char_of_eq_iff)

lemma digitChar_inject: "d < 10 \<Longrightarrow> d' < 10 \<Longrightarrow> digitChar d = digitChar d' \<longleftrightarrow> d = d'"
  by (metis digitVal_digitChar)

lemma showNat_digits: "list_all isDigit (showNat n)"
proof (induction n rule: showNat.induct)
  case (1 n)
  show ?case by (subst showNat.simps) (simp add: 1)
qed

lemma showNat_not_Nil [simp]: "showNat n \<noteq> []"
  by (subst showNat.simps) simp

lemma readNat_snoc [simp]: "readNat (s @ [c]) = 10 * readNat s + digitVal c"
  by (simp add: readNat_def)

lemma readNat_single [simp]: "readNat [c] = digitVal c"
  by (simp add: readNat_def)

lemma readNat_showNat [simp]: "readNat (showNat n) = n"
proof (induction n rule: showNat.induct)
  case (1 n)
  show ?case by (subst showNat.simps) (simp add: 1)
qed

lemma showNat_inject [simp]: "showNat m = showNat n \<longleftrightarrow> m = n"
  by (metis readNat_showNat)

lemma parseUint_showNat: "n < 2 ^ 64 \<Longrightarrow> parseUint (showNat n) = Some (word_of_nat n)"
  by (simp add: parseUint_def showNat_digits)

lemma parseUint_unat [simp]: "parseUint (showNat (unat v)) = Some v"
  using unsigned_less [of v, where 'a = nat] by (simp add: parseUint_showNat)

lemma showNat_hd_digit: "isDigit (hd (showNat n))"
  using showNat_digits [of n] by (cases "showNat n") simp_all

lemma showNat_head_not_zero: "n > 0 \<Longrightarrow> hd (showNat n) \<noteq> CHR ''0''"
proof (induction n rule: showNat.induct)
  case (1 n)
  have z: "digitVal (CHR ''0'') = 0" by (simp add: digitVal_def)
  show ?case
  proof (cases "n < 10")
    case True
    then have "showNat n = [digitChar n]" by (subst showNat.simps) simp
    with True have "digitVal (hd (showNat n)) = n" by simp
    with z 1(2) show ?thesis by (cases "hd (showNat n) = CHR ''0''") simp_all
  next
    case False
    then have "n div 10 > 0" by simp
    with 1(1) False have "hd (showNat (n div 10)) \<noteq> CHR ''0''" by simp
    moreover have "showNat n = showNat (n div 10) @ [digitChar (n mod 10)]"
      using False by (subst showNat.simps) simp
    ultimately show ?thesis by (simp add: hd_append)
  qed
qed

lemma parseInt_showInt: "- (2 ^ 63) \<le> i \<Longrightarrow> i < 2 ^ 63 \<Longrightarrow> parseInt (showInt i) = Some i"
proof (cases "i < 0")
  case True
  moreover assume "- (2 ^ 63) \<le> i"
  ultimately have "nat (- i) \<le> 2 ^ 63" by simp
  with True show ?thesis by (simp add: parseInt_def showInt_def showNat_digits Let_def)
next
  case False
  moreover assume "i < 2 ^ 63"
  ultimately have "nat i < 2 ^ 63" by simp
  moreover have "hd (showNat (nat i)) \<noteq> CHR ''-''" "hd (showNat (nat i)) \<noteq> CHR ''+''"
    using showNat_hd_digit [of "nat i"] by (auto simp: isDigit_def)
  ultimately show ?thesis using False by (simp add: parseInt_def showInt_def showNat_digits Let_def)
qed

section \<open>Strings\<close>

definition join :: "string \<Rightarrow> string list \<Rightarrow> string" where
  \<comment> \<open>\<open>strings.Join\<close>\<close>
  "join sep ss = (case ss of [] \<Rightarrow> [] | s # ss' \<Rightarrow> s @ concat (map (\<lambda>x. sep @ x) ss'))"

lemma join_simps [simp]:
  "join sep [] = []"
  "join sep (s # ss) = s @ concat (map (\<lambda>x. sep @ x) ss)"
  by (simp_all add: join_def)

section \<open>Durations\<close>

definition fmtFrac :: "nat \<Rightarrow> nat \<Rightarrow> string" where
  \<comment> \<open>the fraction of \<open>u / 10 ^ prec\<close> without trailing zeros, with its dot unless it is zero\<close>
  "fmtFrac u prec =
     (let ds = rev (dropWhile (\<lambda>c. c = CHR ''0'')
                 (map (\<lambda>i. digitChar (u div 10 ^ i mod 10)) [0..<prec]))
      in if ds = [] then [] else CHR ''.'' # ds)"

definition durationString :: "duration \<Rightarrow> string" where
  "durationString d =
     (let u = nat \<bar>d\<bar>;
          body =
            (if u = 0 then ''0s''
             else if u < 1000 then showNat u @ ''ns''
             else if u < 1000000 then showNat (u div 10 ^ 3) @ fmtFrac u 3 @ [char_of (194 :: nat), char_of (181 :: nat), CHR ''s'']
             else if u < 1000000000 then showNat (u div 10 ^ 6) @ fmtFrac u 6 @ ''ms''
             else (let secs = u div 10 ^ 9; mins = secs div 60; hours = mins div 60;
                       tail = showNat (secs mod 60) @ fmtFrac u 9 @ ''s''
                   in if mins = 0 then tail
                      else if hours = 0 then showNat (mins mod 60) @ ''m'' @ tail
                      else showNat hours @ ''h'' @ showNat (mins mod 60) @ ''m'' @ tail))
      in if d < 0 then CHR ''-'' # body else body)"

definition roundSecond :: "duration \<Rightarrow> duration" where
  \<comment> \<open>\<open>Duration.Round(time.Second)\<close>: to the nearest second, halves away from zero\<close>
  "roundSecond d =
     (let r = \<bar>d\<bar> mod Second;
          m = (if r + r < Second then \<bar>d\<bar> - r else \<bar>d\<bar> + Second - r)
      in if d < 0 then - m else m)"

definition Milliseconds :: "duration \<Rightarrow> int" where
  \<comment> \<open>Go's integer division truncates towards zero\<close>
  "Milliseconds d = (if d < 0 then - ((- d) div Millisecond) else d div Millisecond)"

lemma durationString_examples:
  "durationString (30 * Second) = ''30s''"
  "durationString (90 * Second + 500 * Millisecond) = ''1m30.5s''"
  "durationString (1500000) = ''1.5ms''"
  "durationString (3600 * Second) = ''1h0m0s''"
  by (simp_all add: durationString_def Second_def Millisecond_def Let_def showNat.simps fmtFrac_def upt_rec)

end
