(* ===== verification/Metrics.thy ===== *)
theory Metrics imports Prelude Strconv "HOL-Library.Multiset" begin

text \<open>
  \<open>internal/metrics/metrics.go\<close>: the recorder of counters and the log lines it prints.

  A \<open>*Recorder\<close> may be \<open>nil\<close>, so every method takes a \<open>Recorder option\<close> and returns it updated with
  the lines it logs.  Counters are 64-bit and wrap around.  The clock readings of a method are
  arguments.  A \<open>map[string]any\<close> of log fields is a list of its entries in the order in which Go
  happens to range over it; the last theorem shows that no line depends on that order.
\<close>

section \<open>Data\<close>

record TaskStats =
  ts_Claims :: uint64
  ts_Completions :: uint64
  ts_Rejections :: uint64
  ts_Evictions :: uint64
  ts_Releases :: uint64
  ts_totalComputeMs :: uint64
  ts_inFlight :: "string \<rightharpoonup> gotime"

record SessionStats =
  ss_Claims :: uint64
  ss_Completions :: uint64
  ss_Rejections :: uint64
  ss_Evictions :: uint64
  ss_CurrentOwned :: uint64

record Recorder =
  rec_enabled :: bool
  rec_startedAt :: gotime
  totalClaims :: uint64
  totalCompletions :: uint64
  totalRejections :: uint64
  totalEvictions :: uint64
  totalReleases :: uint64
  totalBroadcasts :: uint64
  rec_tasks :: "string \<rightharpoonup> TaskStats"
  rec_sessions :: "string \<rightharpoonup> SessionStats"

definition zeroTaskStats :: TaskStats where
  "zeroTaskStats = \<lparr>ts_Claims = 0, ts_Completions = 0, ts_Rejections = 0, ts_Evictions = 0, ts_Releases = 0,
     ts_totalComputeMs = 0, ts_inFlight = Map.empty\<rparr>"

definition zeroSessionStats :: SessionStats where
  "zeroSessionStats = \<lparr>ss_Claims = 0, ss_Completions = 0, ss_Rejections = 0, ss_Evictions = 0, ss_CurrentOwned = 0\<rparr>"

definition recorder_New :: "gotime \<Rightarrow> bool \<Rightarrow> Recorder" where
  "recorder_New now enabled = \<lparr>rec_enabled = enabled, rec_startedAt = now, totalClaims = 0, totalCompletions = 0,
     totalRejections = 0, totalEvictions = 0, totalReleases = 0, totalBroadcasts = 0,
     rec_tasks = Map.empty, rec_sessions = Map.empty\<rparr>"

definition recorder_Enabled :: "Recorder option \<Rightarrow> bool" where
  "recorder_Enabled r = (case r of None \<Rightarrow> False | Some r' \<Rightarrow> rec_enabled r')"

section \<open>Log lines\<close>

datatype any =
    AnyString string
  | AnyUint64 uint64
  | AnyInt int
  | AnyInt64 int
  | AnyStrings "string slice"
  | AnyOther string  \<comment> \<open>any other dynamic type, with the text \<open>json.Marshal\<close> gives for it\<close>

definition formatValue :: "any \<Rightarrow> string" where
  "formatValue v = (case v of
       AnyString s \<Rightarrow> s
     | AnyUint64 n \<Rightarrow> showNat (unat n)
     | AnyInt i \<Rightarrow> showInt i
     | AnyInt64 i \<Rightarrow> showInt i
     | AnyStrings ss \<Rightarrow> join '','' (elems ss)
     | AnyOther t \<Rightarrow> t)"

definition preferredOrder :: "string list" where
  "preferredOrder =
     [''task'', ''owner'', ''session'', ''object'', ''reason'',
      ''compute_ms'', ''lease'', ''prev_ver'', ''new_ver'',
      ''subscribers'', ''objects'', ''tasks_released'', ''tags'']"

definition orderedKeys :: "(string \<times> any) list \<Rightarrow> string list" where
  "orderedKeys m =
     filter (\<lambda>k. map_of m k \<noteq> None) preferredOrder @
     filter (\<lambda>k. k \<notin> set (filter (\<lambda>k. map_of m k \<noteq> None) preferredOrder)) (map fst m)"

definition logEvent :: "string \<Rightarrow> (string \<times> any) list \<Rightarrow> string" where
  "logEvent kind fs =
     join '' '' ((''['' @ kind @ '']'') #
       map (\<lambda>k. k @ ''='' @ formatValue (the (map_of fs k))) (orderedKeys fs))"

section \<open>Recording\<close>

definition getTask :: "Recorder \<Rightarrow> string \<Rightarrow> TaskStats" where
  "getTask r taskID = (case rec_tasks r taskID of None \<Rightarrow> zeroTaskStats | Some ts \<Rightarrow> ts)"

definition getSession :: "Recorder \<Rightarrow> string \<Rightarrow> SessionStats" where
  "getSession r sessionID = (case rec_sessions r sessionID of None \<Rightarrow> zeroSessionStats | Some ss \<Rightarrow> ss)"

definition onTask :: "string \<Rightarrow> (TaskStats \<Rightarrow> TaskStats) \<Rightarrow> Recorder \<Rightarrow> Recorder" where
  \<comment> \<open>\<open>getOrCreateTask\<close> and the changes made through the pointer it returns\<close>
  "onTask taskID f r = r\<lparr>rec_tasks := (rec_tasks r)(taskID \<mapsto> f (getTask r taskID))\<rparr>"

definition onSession :: "string \<Rightarrow> (SessionStats \<Rightarrow> SessionStats) \<Rightarrow> Recorder \<Rightarrow> Recorder" where
  \<comment> \<open>\<open>getOrCreateSession\<close> and the changes made through the pointer it returns\<close>
  "onSession sessionID f r = r\<lparr>rec_sessions := (rec_sessions r)(sessionID \<mapsto> f (getSession r sessionID))\<rparr>"

definition whenEnabled :: "(Recorder \<Rightarrow> Recorder \<times> string) \<Rightarrow> Recorder option \<Rightarrow> Recorder option \<times> string list" where
  "whenEnabled f r = (case r of
       None \<Rightarrow> (None, [])
     | Some r' \<Rightarrow> if rec_enabled r' then (case f r' of (r'', line) \<Rightarrow> (Some r'', [line])) else (Some r', []))"

definition TaskRegistered :: "string \<Rightarrow> string slice \<Rightarrow> Recorder option \<Rightarrow> Recorder option \<times> string list" where
  "TaskRegistered taskID tags = whenEnabled (\<lambda>r.
     (onTask taskID (\<lambda>ts. ts) r,
      logEvent ''task_registered'' [(''task'', AnyString taskID), (''tags'', AnyStrings tags)]))"

definition TaskClaimed :: "gotime \<Rightarrow> string \<Rightarrow> string \<Rightarrow> duration \<Rightarrow> Recorder option \<Rightarrow> Recorder option \<times> string list" where
  "TaskClaimed now taskID ownerID leaseDuration = whenEnabled (\<lambda>r.
     (let r1 = r\<lparr>totalClaims := totalClaims r + 1\<rparr>;
          r2 = onTask taskID (\<lambda>ts. ts\<lparr>ts_Claims := ts_Claims ts + 1, ts_inFlight := (ts_inFlight ts)(ownerID \<mapsto> now)\<rparr>) r1;
          r3 = onSession ownerID (\<lambda>ss. ss\<lparr>ss_Claims := ss_Claims ss + 1, ss_CurrentOwned := ss_CurrentOwned ss + 1\<rparr>) r2
      in (r3, logEvent ''task_claimed'' [(''task'', AnyString taskID), (''owner'', AnyString ownerID),
                (''lease'', AnyString (durationString leaseDuration))])))"

definition TaskCompleted :: "gotime \<Rightarrow> string \<Rightarrow> string \<Rightarrow> Recorder option \<Rightarrow> Recorder option \<times> string list" where
  "TaskCompleted now taskID ownerID = whenEnabled (\<lambda>r.
     (let r1 = r\<lparr>totalCompletions := totalCompletions r + 1\<rparr>;
          started = ts_inFlight (getTask r1 taskID) ownerID;
          r2 = onTask taskID (\<lambda>ts. ts\<lparr>ts_Completions := ts_Completions ts + 1,
                 ts_inFlight := (ts_inFlight ts)(ownerID := None)\<rparr>) r1;
          fs = [(''task'', AnyString taskID), (''owner'', AnyString ownerID)];
          (r3, fs') = (case started of
               None \<Rightarrow> (r2, fs)
             | Some startedAt \<Rightarrow>
                 (let ms = Milliseconds (now - startedAt)
                  in (onTask taskID (\<lambda>ts. ts\<lparr>ts_totalComputeMs := ts_totalComputeMs ts + word_of_int ms\<rparr>) r2,
                      fs @ [(''compute_ms'', AnyInt64 ms)])));
          r4 = onSession ownerID (\<lambda>ss. ss\<lparr>ss_Completions := ss_Completions ss + 1\<rparr>) r3
      in (r4, logEvent ''task_completed'' fs')))"

definition TaskRejected :: "string \<Rightarrow> string \<Rightarrow> string \<Rightarrow> Recorder option \<Rightarrow> Recorder option \<times> string list" where
  "TaskRejected taskID ownerID reason = whenEnabled (\<lambda>r.
     (let r1 = r\<lparr>totalRejections := totalRejections r + 1\<rparr>;
          r2 = onTask taskID (\<lambda>ts. ts\<lparr>ts_Rejections := ts_Rejections ts + 1,
                 ts_inFlight := (ts_inFlight ts)(ownerID := None)\<rparr>) r1;
          r3 = onSession ownerID (\<lambda>ss. ss\<lparr>ss_Rejections := ss_Rejections ss + 1\<rparr>) r2
      in (r3, logEvent ''task_rejected'' [(''task'', AnyString taskID), (''owner'', AnyString ownerID),
                (''reason'', AnyString reason)])))"

definition disown :: "SessionStats \<Rightarrow> SessionStats" where
  "disown ss = (if ss_CurrentOwned ss > 0 then ss\<lparr>ss_CurrentOwned := ss_CurrentOwned ss - 1\<rparr> else ss)"

definition TaskReleased :: "string \<Rightarrow> string \<Rightarrow> Recorder option \<Rightarrow> Recorder option \<times> string list" where
  "TaskReleased taskID ownerID = whenEnabled (\<lambda>r.
     (let r1 = r\<lparr>totalReleases := totalReleases r + 1\<rparr>;
          r2 = onTask taskID (\<lambda>ts. ts\<lparr>ts_Releases := ts_Releases ts + 1,
                 ts_inFlight := (ts_inFlight ts)(ownerID := None)\<rparr>) r1;
          r3 = onSession ownerID disown r2
      in (r3, logEvent ''task_released'' [(''task'', AnyString taskID), (''owner'', AnyString ownerID)])))"

definition TaskEvicted :: "string \<Rightarrow> string \<Rightarrow> string \<Rightarrow> Recorder option \<Rightarrow> Recorder option \<times> string list" where
  "TaskEvicted taskID ownerID reason = whenEnabled (\<lambda>r.
     (let r1 = r\<lparr>totalEvictions := totalEvictions r + 1\<rparr>;
          r2 = onTask taskID (\<lambda>ts. ts\<lparr>ts_Evictions := ts_Evictions ts + 1,
                 ts_inFlight := (ts_inFlight ts)(ownerID := None)\<rparr>) r1;
          r3 = onSession ownerID (\<lambda>ss. disown (ss\<lparr>ss_Evictions := ss_Evictions ss + 1\<rparr>)) r2
      in (r3, logEvent ''task_evicted'' [(''task'', AnyString taskID), (''owner'', AnyString ownerID),
                (''reason'', AnyString reason)])))"

definition WorldUpdated :: "string \<Rightarrow> uint64 \<Rightarrow> uint64 \<Rightarrow> Recorder option \<Rightarrow> Recorder option \<times> string list" where
  "WorldUpdated objectID prevVersion newVersion = whenEnabled (\<lambda>r.
     (r, logEvent ''world_updated'' [(''object'', AnyString objectID), (''prev_ver'', AnyUint64 prevVersion),
           (''new_ver'', AnyUint64 newVersion)]))"

definition metrics_Broadcast :: "int \<Rightarrow> int \<Rightarrow> Recorder option \<Rightarrow> Recorder option \<times> string list" where
  "metrics_Broadcast subscriberCount objectCount = whenEnabled (\<lambda>r.
     (r\<lparr>totalBroadcasts := totalBroadcasts r + 1\<rparr>,
      logEvent ''broadcast'' [(''subscribers'', AnyInt subscriberCount), (''objects'', AnyInt objectCount)]))"

definition SessionConnected :: "string \<Rightarrow> Recorder option \<Rightarrow> Recorder option \<times> string list" where
  "SessionConnected sessionID = whenEnabled (\<lambda>r.
     (onSession sessionID (\<lambda>ss. ss) r, logEvent ''session_connected'' [(''session'', AnyString sessionID)]))"

definition SessionDisconnected :: "string \<Rightarrow> int \<Rightarrow> Recorder option \<Rightarrow> Recorder option \<times> string list" where
  "SessionDisconnected sessionID tasksReleased = whenEnabled (\<lambda>r.
     (r\<lparr>rec_sessions := (rec_sessions r)(sessionID := None)\<rparr>,
      logEvent ''session_disconnected'' [(''session'', AnyString sessionID), (''tasks_released'', AnyInt tasksReleased)]))"

section \<open>Snapshots\<close>

record Totals =
  tot_Claims :: uint64
  tot_Completions :: uint64
  tot_Rejections :: uint64
  tot_Evictions :: uint64
  tot_Releases :: uint64
  tot_Broadcasts :: uint64

record TaskSnap =
  tsn_Claims :: uint64
  tsn_Completions :: uint64
  tsn_Rejections :: uint64
  tsn_Evictions :: uint64
  tsn_Releases :: uint64
  tsn_AvgComputeMs :: uint64

record SessionSnap =
  ssn_Claims :: uint64
  ssn_Completions :: uint64
  ssn_Rejections :: uint64
  ssn_Evictions :: uint64
  ssn_CurrentOwned :: uint64

record Snapshot =
  snap_Uptime :: string
  snap_Enabled :: bool
  snap_Totals :: Totals
  snap_PerTask :: "(string \<rightharpoonup> TaskSnap) option"  \<comment> \<open>\<open>None\<close> is the \<open>nil\<close> map\<close>
  snap_PerSession :: "(string \<rightharpoonup> SessionSnap) option"

definition taskSnap :: "TaskStats \<Rightarrow> TaskSnap" where
  "taskSnap ts = \<lparr>tsn_Claims = ts_Claims ts, tsn_Completions = ts_Completions ts, tsn_Rejections = ts_Rejections ts,
     tsn_Evictions = ts_Evictions ts, tsn_Releases = ts_Releases ts,
     tsn_AvgComputeMs = (if ts_Completions ts > 0 then ts_totalComputeMs ts div ts_Completions ts else 0)\<rparr>"

definition sessionSnap :: "SessionStats \<Rightarrow> SessionSnap" where
  "sessionSnap ss = \<lparr>ssn_Claims = ss_Claims ss, ssn_Completions = ss_Completions ss, ssn_Rejections = ss_Rejections ss,
     ssn_Evictions = ss_Evictions ss, ssn_CurrentOwned = ss_CurrentOwned ss\<rparr>"

definition recorder_Snapshot :: "gotime \<Rightarrow> Recorder option \<Rightarrow> Snapshot" where
  "recorder_Snapshot now r = (case r of
       None \<Rightarrow> \<lparr>snap_Uptime = '''', snap_Enabled = False,
          snap_Totals = \<lparr>tot_Claims = 0, tot_Completions = 0, tot_Rejections = 0, tot_Evictions = 0, tot_Releases = 0,
             tot_Broadcasts = 0\<rparr>, snap_PerTask = None, snap_PerSession = None\<rparr>
     | Some r' \<Rightarrow> \<lparr>snap_Uptime = durationString (roundSecond (now - rec_startedAt r')), snap_Enabled = rec_enabled r',
          snap_Totals = \<lparr>tot_Claims = totalClaims r', tot_Completions = totalCompletions r',
             tot_Rejections = totalRejections r', tot_Evictions = totalEvictions r',
             tot_Releases = totalReleases r', tot_Broadcasts = totalBroadcasts r'\<rparr>,
          snap_PerTask = Some (\<lambda>k. map_option taskSnap (rec_tasks r' k)),
          snap_PerSession = Some (\<lambda>k. map_option sessionSnap (rec_sessions r' k))\<rparr>)"

section \<open>Facts about the log\<close>

lemma distinct_preferredOrder [simp]: "distinct preferredOrder"
  by (simp add: preferredOrder_def)

lemma set_orderedKeys [simp]: "set (orderedKeys m) = fst ` set m"
  by (auto simp: orderedKeys_def map_of_eq_None_iff image_iff)

lemma distinct_orderedKeys: "distinct (map fst m) \<Longrightarrow> distinct (orderedKeys m)"
  by (auto simp: orderedKeys_def)

lemma orderedKeys_split:
  "orderedKeys m = filter (\<lambda>k. k \<in> fst ` set m) preferredOrder @
     filter (\<lambda>k. k \<notin> set preferredOrder) (map fst m)"
  by (auto simp: orderedKeys_def map_of_eq_None_iff intro!: filter_cong)

lemma orderedKeys_preferred:
  assumes "fst ` set m \<subseteq> set preferredOrder"
  shows "orderedKeys m = filter (\<lambda>k. k \<in> fst ` set m) preferredOrder"
proof -
  have "filter (\<lambda>k. k \<notin> set preferredOrder) (map fst m) = []"
    using assms by (auto simp: filter_empty_conv)
  then show ?thesis by (simp add: orderedKeys_split)
qed

text \<open>Log lines: for fields with distinct names the line prints each field exactly once, the
  preferred names first and in the preferred order, the others after them; when all names are preferred
  ones, as in every event the program logs, the line does not depend on the order in which Go ranges
  over the map of fields.\<close>

theorem logEvent_any_order:
  assumes "distinct (map fst m)"
  shows "distinct (orderedKeys m) \<and> set (orderedKeys m) = fst ` set m \<and>
     filter (\<lambda>k. k \<in> set preferredOrder) (orderedKeys m) = filter (\<lambda>k. k \<in> fst ` set m) preferredOrder \<and>
     (\<exists>rest. orderedKeys m = filter (\<lambda>k. k \<in> fst ` set m) preferredOrder @ rest \<and> set rest \<inter> set preferredOrder = {}) \<and>
     (fst ` set m \<subseteq> set preferredOrder \<longrightarrow> (\<forall>m'. mset m' = mset m \<longrightarrow> logEvent kind m' = logEvent kind m))"
proof (intro conjI impI allI)
  show "distinct (orderedKeys m)" using assms by (rule distinct_orderedKeys)
  show "set (orderedKeys m) = fst ` set m" by simp
  show "filter (\<lambda>k. k \<in> set preferredOrder) (orderedKeys m) = filter (\<lambda>k. k \<in> fst ` set m) preferredOrder"
    by (auto simp: orderedKeys_split filter_empty_conv intro!: filter_cong)
  show "\<exists>rest. orderedKeys m = filter (\<lambda>k. k \<in> fst ` set m) preferredOrder @ rest \<and> set rest \<inter> set preferredOrder = {}"
    by (rule exI [of _ "filter (\<lambda>k. k \<notin> set preferredOrder) (map fst m)"]) (auto simp: orderedKeys_split)
next
  fix m' assume pref: "fst ` set m \<subseteq> set preferredOrder" and m': "mset m' = mset m"
  have "set m' = set m" using m' by (rule mset_eq_setD)
  moreover have "mset (map fst m') = mset (map fst m)" using m' by simp
  then have "distinct (map fst m')" using assms by (metis mset_eq_imp_distinct_iff)
  with assms calculation have "map_of m' = map_of m" by (simp add: map_of_inject_set)
  ultimately show "logEvent kind m' = logEvent kind m"
    using pref by (simp add: logEvent_def orderedKeys_preferred)
qed

theorem logEvent_any_order_witness:
  "logEvent ''task_released'' [(''owner'', AnyString ''s''), (''task'', AnyString ''t'')] = ''[task_released] task=t owner=s''"
proof -
  let ?m = "[(''task'', AnyString ''t''), (''owner'', AnyString ''s'')]"
  let ?m' = "[(''owner'', AnyString ''s''), (''task'', AnyString ''t'')]"
  have "distinct (map fst ?m)" by simp
  note order = logEvent_any_order [OF this, THEN conjunct2, THEN conjunct2, THEN conjunct2, THEN conjunct2]
  have "fst ` set ?m \<subseteq> set preferredOrder" by (simp add: preferredOrder_def)
  moreover have "mset ?m' = mset ?m" by simp
  ultimately have "logEvent ''task_released'' ?m' = logEvent ''task_released'' ?m"
    using order [of "''task_released''"] by blast
  also have "\<dots> = ''[task_released] task=t owner=s''"
    by (simp add: logEvent_def orderedKeys_def preferredOrder_def formatValue_def)
  finally show ?thesis .
qed

section \<open>Facts about the counters\<close>

datatype metric_op =
    MRegistered string "string slice"
  | is_claim: MClaimed gotime string string duration
  | is_completion: MCompleted gotime string string
  | is_rejection: MRejected string string string
  | is_release: MReleased string string
  | is_eviction: MEvicted string string string
  | MWorldUpdated string uint64 uint64
  | is_broadcast: MBroadcast int int
  | MConnected string
  | MDisconnected string int

fun metric_step :: "metric_op \<Rightarrow> Recorder option \<Rightarrow> Recorder option" where
  "metric_step (MRegistered t tags) r = fst (TaskRegistered t tags r)"
| "metric_step (MClaimed now t s d) r = fst (TaskClaimed now t s d r)"
| "metric_step (MCompleted now t s) r = fst (TaskCompleted now t s r)"
| "metric_step (MRejected t s why) r = fst (TaskRejected t s why r)"
| "metric_step (MReleased t s) r = fst (TaskReleased t s r)"
| "metric_step (MEvicted t s why) r = fst (TaskEvicted t s why r)"
| "metric_step (MWorldUpdated i p n) r = fst (WorldUpdated i p n r)"
| "metric_step (MBroadcast n k) r = fst (metrics_Broadcast n k r)"
| "metric_step (MConnected s) r = fst (SessionConnected s r)"
| "metric_step (MDisconnected s n) r = fst (SessionDisconnected s n r)"

definition metric_run :: "metric_op list \<Rightarrow> Recorder option \<Rightarrow> Recorder option" where
  "metric_run ops r = fold metric_step ops r"

lemma whenEnabled_on [simp]: "rec_enabled r \<Longrightarrow> fst (whenEnabled f (Some r)) = Some (fst (f r))"
  by (simp add: whenEnabled_def split: prod.split)

lemma whenEnabled_off:
  "\<not> recorder_Enabled r \<Longrightarrow> whenEnabled f r = (r, [])"
  by (auto simp: whenEnabled_def recorder_Enabled_def split: option.splits)

lemmas metric_defs = TaskRegistered_def TaskClaimed_def TaskCompleted_def TaskRejected_def TaskReleased_def
  TaskEvicted_def WorldUpdated_def metrics_Broadcast_def SessionConnected_def SessionDisconnected_def

lemma metric_run_off: "\<not> recorder_Enabled r \<Longrightarrow> metric_run ops r = r"
proof (induction ops)
  case (Cons x ops)
  then have "metric_step x r = r" by (cases x) (simp_all add: metric_defs whenEnabled_off)
  with Cons show ?case by (simp add: metric_run_def)
qed (simp add: metric_run_def)

definition statSum :: "(TaskStats \<Rightarrow> uint64) \<Rightarrow> Recorder \<Rightarrow> uint64" where
  "statSum f r = (\<Sum>k \<in> dom (rec_tasks r). f (the (rec_tasks r k)))"

lemma onTask_sel [simp]:
  "rec_enabled (onTask t f r) = rec_enabled r"
  "totalClaims (onTask t f r) = totalClaims r" "totalCompletions (onTask t f r) = totalCompletions r"
  "totalRejections (onTask t f r) = totalRejections r" "totalEvictions (onTask t f r) = totalEvictions r"
  "totalReleases (onTask t f r) = totalReleases r" "totalBroadcasts (onTask t f r) = totalBroadcasts r"
  "rec_sessions (onTask t f r) = rec_sessions r"
  "rec_tasks (onTask t f r) = (rec_tasks r)(t \<mapsto> f (getTask r t))"
  by (simp_all add: onTask_def)

lemma onSession_sel [simp]:
  "rec_enabled (onSession s g r) = rec_enabled r"
  "totalClaims (onSession s g r) = totalClaims r" "totalCompletions (onSession s g r) = totalCompletions r"
  "totalRejections (onSession s g r) = totalRejections r" "totalEvictions (onSession s g r) = totalEvictions r"
  "totalReleases (onSession s g r) = totalReleases r" "totalBroadcasts (onSession s g r) = totalBroadcasts r"
  "rec_tasks (onSession s g r) = rec_tasks r"
  "rec_sessions (onSession s g r) = (rec_sessions r)(s \<mapsto> g (getSession r s))"
  by (simp_all add: onSession_def)

lemma getTask_onTask [simp]: "getTask (onTask t f r) t = f (getTask r t)"
  by (simp add: getTask_def onTask_def)

lemma onTask_onTask [simp]: "onTask t g (onTask t f r) = onTask t (\<lambda>ts. g (f ts)) r"
  by (simp add: onTask_def getTask_def)

lemma statSum_cong: "rec_tasks r' = rec_tasks r \<Longrightarrow> statSum f r' = statSum f r"
  by (simp add: statSum_def)

lemma statSum_onTask:
  assumes "finite (dom (rec_tasks r))" and "f zeroTaskStats = 0"
  shows "statSum f (onTask t g r) = statSum f r + (f (g (getTask r t)) - f (getTask r t))"
proof -
  let ?m = "rec_tasks r"
  have rest: "(\<Sum>k \<in> dom ?m - {t}. f (the ((?m(t \<mapsto> v)) k))) = (\<Sum>k \<in> dom ?m - {t}. f (the (?m k)))" for v
    by (rule sum.cong) auto
  have "statSum f r = f (getTask r t) + (\<Sum>k \<in> dom ?m - {t}. f (the (?m k)))"
  proof (cases "t \<in> dom ?m")
    case True
    then show ?thesis using assms(1) by (auto simp: statSum_def getTask_def sum.remove)
  next
    case False
    then show ?thesis using assms(2) by (auto simp: statSum_def getTask_def split: option.splits)
  qed
  moreover have "statSum f (onTask t g r) = f (g (getTask r t)) + (\<Sum>k \<in> dom ?m - {t}. f (the (?m k)))"
    using assms(1) by (simp add: statSum_def sum.insert_remove rest del: fun_upd_apply) simp
  ultimately show ?thesis by simp
qed

definition counters_ok :: "Recorder \<Rightarrow> bool" where
  "counters_ok r \<longleftrightarrow> finite (dom (rec_tasks r)) \<and>
     totalClaims r = statSum ts_Claims r \<and> totalCompletions r = statSum ts_Completions r \<and>
     totalRejections r = statSum ts_Rejections r \<and> totalEvictions r = statSum ts_Evictions r \<and>
     totalReleases r = statSum ts_Releases r"

lemma statSum_zero [simp]: "statSum f (recorder_New now en) = 0"
  by (simp add: statSum_def recorder_New_def)

lemma zeroTaskStats_sel [simp]:
  "ts_Claims zeroTaskStats = 0" "ts_Completions zeroTaskStats = 0" "ts_Rejections zeroTaskStats = 0"
  "ts_Evictions zeroTaskStats = 0" "ts_Releases zeroTaskStats = 0" "ts_inFlight zeroTaskStats = Map.empty"
  by (simp_all add: zeroTaskStats_def)

lemma counters_ok_New: "counters_ok (recorder_New now en)"
  by (simp add: counters_ok_def) (simp add: recorder_New_def)

text \<open>What one recorded event does to the statistics of tasks: the task it is about and the change.\<close>

fun task_change :: "metric_op \<Rightarrow> (string \<times> (TaskStats \<Rightarrow> TaskStats)) option" where
  "task_change (MRegistered t tags) = Some (t, \<lambda>ts. ts)"
| "task_change (MClaimed now t s d) = Some (t, \<lambda>ts. ts\<lparr>ts_Claims := ts_Claims ts + 1, ts_inFlight := (ts_inFlight ts)(s \<mapsto> now)\<rparr>)"
| "task_change (MCompleted now t s) = Some (t, \<lambda>ts. ts\<lparr>ts_Completions := ts_Completions ts + 1,
     ts_totalComputeMs := ts_totalComputeMs ts + (case ts_inFlight ts s of None \<Rightarrow> 0 | Some t0 \<Rightarrow> word_of_int (Milliseconds (now - t0))),
     ts_inFlight := (ts_inFlight ts)(s := None)\<rparr>)"
| "task_change (MRejected t s why) = Some (t, \<lambda>ts. ts\<lparr>ts_Rejections := ts_Rejections ts + 1, ts_inFlight := (ts_inFlight ts)(s := None)\<rparr>)"
| "task_change (MReleased t s) = Some (t, \<lambda>ts. ts\<lparr>ts_Releases := ts_Releases ts + 1, ts_inFlight := (ts_inFlight ts)(s := None)\<rparr>)"
| "task_change (MEvicted t s why) = Some (t, \<lambda>ts. ts\<lparr>ts_Evictions := ts_Evictions ts + 1, ts_inFlight := (ts_inFlight ts)(s := None)\<rparr>)"
| "task_change _ = None"

lemma onTask_cong: "f (getTask r t) = g (getTask r t) \<Longrightarrow> onTask t f r = onTask t g r"
  by (simp add: onTask_def)

lemma getTask_cong: "rec_tasks r' = rec_tasks r \<Longrightarrow> getTask r' = getTask r"
  by (simp add: getTask_def fun_eq_iff)

lemma getTask_totals [simp]:
  "getTask (r\<lparr>totalClaims := v\<rparr>) = getTask r" "getTask (r\<lparr>totalCompletions := v\<rparr>) = getTask r"
  "getTask (r\<lparr>totalRejections := v\<rparr>) = getTask r" "getTask (r\<lparr>totalReleases := v\<rparr>) = getTask r"
  "getTask (r\<lparr>totalEvictions := v\<rparr>) = getTask r"
  by (simp_all add: getTask_def fun_eq_iff)

lemma getSession_totals [simp]:
  "getSession (r\<lparr>totalClaims := v\<rparr>) = getSession r" "getSession (r\<lparr>totalCompletions := v\<rparr>) = getSession r"
  "getSession (r\<lparr>totalRejections := v\<rparr>) = getSession r" "getSession (r\<lparr>totalReleases := v\<rparr>) = getSession r"
  "getSession (r\<lparr>totalEvictions := v\<rparr>) = getSession r" "getSession (onTask t f r) = getSession r"
  by (simp_all add: getSession_def fun_eq_iff)

lemma TaskCompleted_eq:
  assumes "rec_enabled r"
  shows "fst (TaskCompleted now t s (Some r)) =
     Some (onSession s (\<lambda>ss. ss\<lparr>ss_Completions := ss_Completions ss + 1\<rparr>)
       (onTask t (\<lambda>ts. ts\<lparr>ts_Completions := ts_Completions ts + 1,
          ts_totalComputeMs := ts_totalComputeMs ts +
            (case ts_inFlight ts s of None \<Rightarrow> 0 | Some t0 \<Rightarrow> word_of_int (Milliseconds (now - t0))),
          ts_inFlight := (ts_inFlight ts)(s := None)\<rparr>)
       (r\<lparr>totalCompletions := totalCompletions r + 1\<rparr>)))"
  using assms
  by (cases "ts_inFlight (getTask r t) s")
    (auto simp: TaskCompleted_def Let_def intro!: arg_cong [where f = "onSession s _"] onTask_cong)

text \<open>What it does to the statistics of sessions.\<close>

fun session_change :: "metric_op \<Rightarrow> (string \<times> (SessionStats \<Rightarrow> SessionStats option)) option" where
  "session_change (MClaimed now t s d) = Some (s, \<lambda>ss. Some (ss\<lparr>ss_Claims := ss_Claims ss + 1, ss_CurrentOwned := ss_CurrentOwned ss + 1\<rparr>))"
| "session_change (MCompleted now t s) = Some (s, \<lambda>ss. Some (ss\<lparr>ss_Completions := ss_Completions ss + 1\<rparr>))"
| "session_change (MRejected t s why) = Some (s, \<lambda>ss. Some (ss\<lparr>ss_Rejections := ss_Rejections ss + 1\<rparr>))"
| "session_change (MReleased t s) = Some (s, \<lambda>ss. Some (disown ss))"
| "session_change (MEvicted t s why) = Some (s, \<lambda>ss. Some (disown (ss\<lparr>ss_Evictions := ss_Evictions ss + 1\<rparr>)))"
| "session_change (MConnected s) = Some (s, Some)"
| "session_change (MDisconnected s n) = Some (s, \<lambda>_. None)"
| "session_change _ = None"

lemma metric_step_Some:
  assumes "rec_enabled r"
  obtains r' where "metric_step x (Some r) = Some r'" and "rec_enabled r'"
    and "rec_sessions r' = (case session_change x of None \<Rightarrow> rec_sessions r
           | Some (s, g) \<Rightarrow> (rec_sessions r)(s := g (getSession r s)))"
    and "rec_tasks r' = (case task_change x of None \<Rightarrow> rec_tasks r | Some (t, g) \<Rightarrow> (rec_tasks r)(t \<mapsto> g (getTask r t)))"
    and "totalClaims r' = totalClaims r + (if is_claim x then 1 else 0)"
    and "totalCompletions r' = totalCompletions r + (if is_completion x then 1 else 0)"
    and "totalRejections r' = totalRejections r + (if is_rejection x then 1 else 0)"
    and "totalReleases r' = totalReleases r + (if is_release x then 1 else 0)"
    and "totalEvictions r' = totalEvictions r + (if is_eviction x then 1 else 0)"
    and "totalBroadcasts r' = totalBroadcasts r + (if is_broadcast x then 1 else 0)"
proof (rule that [of "the (metric_step x (Some r))"])
  show "metric_step x (Some r) = Some (the (metric_step x (Some r)))"
    using assms by (cases x) (simp_all add: metric_defs Let_def)
qed (use assms in \<open>cases x; simp add: TaskCompleted_eq; simp add: metric_defs Let_def TaskCompleted_eq\<close>)+

lemma statSum_step:
  assumes "finite (dom (rec_tasks r))" and "f zeroTaskStats = 0"
    and "rec_tasks r' = (case c of None \<Rightarrow> rec_tasks r | Some (t, g) \<Rightarrow> (rec_tasks r)(t \<mapsto> g (getTask r t)))"
  shows "statSum f r' = statSum f r + (case c of None \<Rightarrow> 0 | Some (t, g) \<Rightarrow> f (g (getTask r t)) - f (getTask r t))"
proof (cases c)
  case None
  with assms(3) have "statSum f r' = statSum f r" by (intro statSum_cong) simp
  with None show ?thesis by simp
next
  case (Some tg)
  obtain t g where tg: "tg = (t, g)" by (cases tg)
  with Some assms(3) have "statSum f r' = statSum f (onTask t g r)" by (intro statSum_cong) simp
  also have "\<dots> = statSum f r + (f (g (getTask r t)) - f (getTask r t))"
    using assms(1,2) by (rule statSum_onTask)
  finally show ?thesis by (simp only: Some tg option.case prod.case)
qed

lemma counters_ok_step:
  assumes "rec_enabled r" and "counters_ok r" and step: "metric_step x (Some r) = Some r'"
  shows "counters_ok r'"
proof -
  obtain r2 where "metric_step x (Some r) = Some r2"
    and t: "rec_tasks r2 = (case task_change x of None \<Rightarrow> rec_tasks r | Some (t, g) \<Rightarrow> (rec_tasks r)(t \<mapsto> g (getTask r t)))"
    and tot: "totalClaims r2 = totalClaims r + (if is_claim x then 1 else 0)"
      "totalCompletions r2 = totalCompletions r + (if is_completion x then 1 else 0)"
      "totalRejections r2 = totalRejections r + (if is_rejection x then 1 else 0)"
      "totalReleases r2 = totalReleases r + (if is_release x then 1 else 0)"
      "totalEvictions r2 = totalEvictions r + (if is_eviction x then 1 else 0)"
    by (rule metric_step_Some [OF assms(1)])
  with step have r': "r' = r2" by simp
  have fin: "finite (dom (rec_tasks r))" using assms(2) by (simp add: counters_ok_def)
  have "finite (dom (rec_tasks r2))" using fin by (simp add: t split: option.splits prod.splits)
  moreover note sums = statSum_step [OF fin _ t]
  ultimately show ?thesis
    using assms(2) unfolding r' counters_ok_def
    by (cases x) (simp_all add: tot sums)
qed

lemma metric_run_counts:
  assumes "rec_enabled r" and "counters_ok r"
  shows "\<exists>r'. metric_run ops (Some r) = Some r' \<and> rec_enabled r' \<and> counters_ok r' \<and>
     totalClaims r' = totalClaims r + word_of_nat (length (filter is_claim ops)) \<and>
     totalCompletions r' = totalCompletions r + word_of_nat (length (filter is_completion ops)) \<and>
     totalRejections r' = totalRejections r + word_of_nat (length (filter is_rejection ops)) \<and>
     totalReleases r' = totalReleases r + word_of_nat (length (filter is_release ops)) \<and>
     totalEvictions r' = totalEvictions r + word_of_nat (length (filter is_eviction ops)) \<and>
     totalBroadcasts r' = totalBroadcasts r + word_of_nat (length (filter is_broadcast ops))"
  using assms
proof (induction ops arbitrary: r)
  case (Cons x ops)
  obtain r1 where 1: "metric_step x (Some r) = Some r1" "rec_enabled r1"
    and tot: "totalClaims r1 = totalClaims r + (if is_claim x then 1 else 0)"
      "totalCompletions r1 = totalCompletions r + (if is_completion x then 1 else 0)"
      "totalRejections r1 = totalRejections r + (if is_rejection x then 1 else 0)"
      "totalReleases r1 = totalReleases r + (if is_release x then 1 else 0)"
      "totalEvictions r1 = totalEvictions r + (if is_eviction x then 1 else 0)"
      "totalBroadcasts r1 = totalBroadcasts r + (if is_broadcast x then 1 else 0)"
    by (rule metric_step_Some [OF Cons.prems(1), of x])
  have "counters_ok r1" using counters_ok_step [OF Cons.prems 1(1)] .
  from Cons.IH [OF 1(2) this] show ?case
    by (simp add: metric_run_def 1(1) tot) (simp add: add.assoc split: if_splits)
qed (simp add: metric_run_def)

lemma metric_run_snoc: "metric_run (ops @ [x]) r = metric_step x (metric_run ops r)"
  by (simp add: metric_run_def)

lemma metric_run_enabled:
  "\<exists>r. metric_run ops (Some (recorder_New t0 True)) = Some r \<and> rec_enabled r"
  using metric_run_counts [OF _ counters_ok_New, of t0 True ops] by (auto simp: recorder_New_def)

text \<open>Metrics add up: after any sequence of events the totals of a snapshot are the numbers of the
  events of each kind and the sums of the entries of its tasks (modulo 2^64); a recorder that is
  disabled or \<open>nil\<close> records nothing.\<close>

theorem snapshot_totals:
  "let sn = recorder_Snapshot now (metric_run ops (Some (recorder_New t0 True)));
       tot = snap_Totals sn; m = the (snap_PerTask sn); total = (\<lambda>f. \<Sum>k \<in> dom m. f (the (m k)))
   in tot_Claims tot = word_of_nat (length (filter is_claim ops)) \<and> tot_Claims tot = total tsn_Claims \<and>
      tot_Completions tot = word_of_nat (length (filter is_completion ops)) \<and> tot_Completions tot = total tsn_Completions \<and>
      tot_Rejections tot = word_of_nat (length (filter is_rejection ops)) \<and> tot_Rejections tot = total tsn_Rejections \<and>
      tot_Releases tot = word_of_nat (length (filter is_release ops)) \<and> tot_Releases tot = total tsn_Releases \<and>
      tot_Evictions tot = word_of_nat (length (filter is_eviction ops)) \<and> tot_Evictions tot = total tsn_Evictions \<and>
      tot_Broadcasts tot = word_of_nat (length (filter is_broadcast ops)) \<and>
      metric_run ops (Some (recorder_New t0 False)) = Some (recorder_New t0 False) \<and> metric_run ops None = None"
proof -
  have "rec_enabled (recorder_New t0 True)" by (simp add: recorder_New_def)
  from metric_run_counts [OF this counters_ok_New, of ops] obtain r where
    r: "metric_run ops (Some (recorder_New t0 True)) = Some r" "counters_ok r"
      "totalClaims r = word_of_nat (length (filter is_claim ops))"
      "totalCompletions r = word_of_nat (length (filter is_completion ops))"
      "totalRejections r = word_of_nat (length (filter is_rejection ops))"
      "totalReleases r = word_of_nat (length (filter is_release ops))"
      "totalEvictions r = word_of_nat (length (filter is_eviction ops))"
      "totalBroadcasts r = word_of_nat (length (filter is_broadcast ops))"
    by (auto simp: recorder_New_def)
  have sums: "(\<Sum>k \<in> dom (\<lambda>k. map_option taskSnap (rec_tasks r k)). f (the (map_option taskSnap (rec_tasks r k)))) =
      statSum (\<lambda>ts. f (taskSnap ts)) r" for f
    unfolding statSum_def by (rule sum.cong) auto
  have off: "metric_run ops (Some (recorder_New t0 False)) = Some (recorder_New t0 False)" "metric_run ops None = None"
    by (rule metric_run_off, simp add: recorder_Enabled_def recorder_New_def)+
  show ?thesis
    using r(2) by (simp add: Let_def recorder_Snapshot_def r(1) sums off counters_ok_def taskSnap_def)
      (simp add: r(3-) flip: r(3-))
qed

text \<open>The claims in flight: when a pair of a task and an owner was last claimed, if nothing has ended that
  claim since.\<close>

fun claim_time :: "string \<Rightarrow> string \<Rightarrow> metric_op \<Rightarrow> gotime option \<Rightarrow> gotime option" where
  "claim_time t s (MClaimed now t' s' d) c = (if t' = t \<and> s' = s then Some now else c)"
| "claim_time t s (MCompleted now t' s') c = (if t' = t \<and> s' = s then None else c)"
| "claim_time t s (MRejected t' s' why) c = (if t' = t \<and> s' = s then None else c)"
| "claim_time t s (MReleased t' s') c = (if t' = t \<and> s' = s then None else c)"
| "claim_time t s (MEvicted t' s' why) c = (if t' = t \<and> s' = s then None else c)"
| "claim_time t s _ c = c"

lemma metric_step_inFlight:
  assumes "rec_enabled r" and "metric_step x (Some r) = Some r'"
  shows "ts_inFlight (getTask r' t) s = claim_time t s x (ts_inFlight (getTask r t) s)"
proof -
  obtain r2 where "metric_step x (Some r) = Some r2"
    and t: "rec_tasks r2 = (case task_change x of None \<Rightarrow> rec_tasks r | Some (t, g) \<Rightarrow> (rec_tasks r)(t \<mapsto> g (getTask r t)))"
    by (rule metric_step_Some [OF assms(1)])
  with assms(2) have "getTask r' t = (case task_change x of None \<Rightarrow> getTask r t
      | Some (t', g) \<Rightarrow> if t' = t then g (getTask r t) else getTask r t)"
    by (auto simp: getTask_def split: option.splits)
  then show ?thesis by (cases x) auto
qed

lemma getTask_New [simp]: "getTask (recorder_New t0 en) t = zeroTaskStats"
  by (simp add: getTask_def recorder_New_def)

lemma getSession_New [simp]: "getSession (recorder_New t0 en) s = zeroSessionStats"
  by (simp add: getSession_def recorder_New_def)

lemma metric_run_inFlight:
  assumes "metric_run ops (Some (recorder_New t0 True)) = Some r"
  shows "ts_inFlight (getTask r t) s = fold (claim_time t s) ops None"
  using assms
proof (induction ops arbitrary: r rule: rev_induct)
  case (snoc x ops)
  obtain r1 where r1: "metric_run ops (Some (recorder_New t0 True)) = Some r1" "rec_enabled r1"
    using metric_run_enabled by blast
  with snoc have "metric_step x (Some r1) = Some r" by (simp add: metric_run_snoc)
  with metric_step_inFlight [OF r1(2)] snoc.IH [OF r1(1)] show ?case by simp
qed (simp add: metric_run_def zeroTaskStats_def)

text \<open>Computation times: when a task is completed, the time since its owner's last claim is added to
  the task's total, in milliseconds, exactly if no completion, rejection, release or eviction of the
  pair has come in between; otherwise nothing is added.\<close>

theorem completion_adds_compute_time:
  assumes "metric_run ops (Some (recorder_New t0 True)) = Some r"
    and "metric_run (ops @ [MCompleted now t s]) (Some (recorder_New t0 True)) = Some r'"
  shows "ts_totalComputeMs (getTask r' t) = ts_totalComputeMs (getTask r t) +
     (case fold (claim_time t s) ops None of None \<Rightarrow> 0 | Some t1 \<Rightarrow> word_of_int (Milliseconds (now - t1)))"
proof -
  have "rec_enabled r" using metric_run_enabled [of ops t0] assms(1) by auto
  moreover have "metric_step (MCompleted now t s) (Some r) = Some r'"
    using assms by (simp add: metric_run_snoc)
  ultimately have "getTask r' t = (snd (the (task_change (MCompleted now t s)))) (getTask r t)"
    by (simp add: TaskCompleted_eq) (auto simp: getTask_def)
  then show ?thesis
    by (simp add: metric_run_inFlight [OF assms(1), symmetric])
qed

theorem completion_adds_compute_time_witness:
  "\<exists>r'. metric_run [MClaimed 0 ''t'' ''s'' 30, MCompleted 5000000 ''t'' ''s''] (Some (recorder_New 0 True)) = Some r' \<and>
     ts_totalComputeMs (getTask r' ''t'') = 5"
proof -
  obtain r where r: "metric_run [MClaimed 0 ''t'' ''s'' 30] (Some (recorder_New 0 True)) = Some r"
    using metric_run_enabled by blast
  obtain r' where r': "metric_run ([MClaimed 0 ''t'' ''s'' 30] @ [MCompleted 5000000 ''t'' ''s'']) (Some (recorder_New 0 True)) = Some r'"
    using metric_run_enabled by blast
  have "ts_totalComputeMs (getTask r ''t'') = 0"
    using r by (auto simp: metric_run_def TaskClaimed_def whenEnabled_def recorder_New_def Let_def zeroTaskStats_def
        onTask_def onSession_def getTask_def split: if_splits)
  with completion_adds_compute_time [OF r r'] r' show ?thesis
    by (auto simp: Milliseconds_def Millisecond_def)
qed

fun owned_gauge :: "string \<Rightarrow> metric_op \<Rightarrow> nat \<Rightarrow> nat" where
  "owned_gauge s (MClaimed now t s' d) n = (if s' = s then n + 1 else n)"
| "owned_gauge s (MReleased t s') n = (if s' = s then n - 1 else n)"
| "owned_gauge s (MEvicted t s' why) n = (if s' = s then n - 1 else n)"
| "owned_gauge s (MDisconnected s' k) n = (if s' = s then 0 else n)"
| "owned_gauge s _ n = n"

lemma owned_gauge_le: "owned_gauge s x n \<le> n + 1"
  by (cases x) auto

lemma fold_owned_gauge_le: "fold (owned_gauge s) ops n \<le> n + length ops"
proof (induction ops arbitrary: n)
  case (Cons x ops)
  from Cons [of "owned_gauge s x n"] owned_gauge_le [of s x n] show ?case by simp
qed simp

lemma unat_disown: "unat (ss_CurrentOwned (disown ss)) = unat (ss_CurrentOwned ss) - 1"
  by (simp add: disown_def unat_minus_one word_gt_0)

lemma unat_claim: "unat v < 2 ^ 64 - 1 \<Longrightarrow> unat (v + 1 :: uint64) = unat v + 1"
  by (simp add: unat_word_ariths)

lemma metric_step_owned:
  assumes "rec_enabled r" and "metric_step x (Some r) = Some r'"
    and "unat (ss_CurrentOwned (getSession r s)) < 2 ^ 64 - 1"
  shows "unat (ss_CurrentOwned (getSession r' s)) = owned_gauge s x (unat (ss_CurrentOwned (getSession r s)))"
proof -
  obtain r2 where "metric_step x (Some r) = Some r2"
    and t: "rec_sessions r2 = (case session_change x of None \<Rightarrow> rec_sessions r
           | Some (s, g) \<Rightarrow> (rec_sessions r)(s := g (getSession r s)))"
    by (rule metric_step_Some [OF assms(1)])
  with assms(2) have "getSession r' s = (case session_change x of None \<Rightarrow> getSession r s
      | Some (s', g) \<Rightarrow> if s' = s then (case g (getSession r s) of None \<Rightarrow> zeroSessionStats | Some ss \<Rightarrow> ss) else getSession r s)"
    by (auto simp: getSession_def split: option.splits)
  then show ?thesis using assms(3) by (cases x) (auto simp: unat_disown unat_claim zeroSessionStats_def)
qed

text \<open>The gauge of owned tasks of a session never wraps below zero: it counts up with each claim
  and down, not below zero, with each release and eviction, and starts again when the session
  disconnects; completions and rejections leave it as it is.\<close>

theorem current_owned_gauge:
  assumes "length ops < 2 ^ 64" and "metric_run ops (Some (recorder_New t0 True)) = Some r"
  shows "unat (ss_CurrentOwned (getSession r s)) = fold (owned_gauge s) ops 0"
  using assms
proof (induction ops arbitrary: r rule: rev_induct)
  case (snoc x ops)
  obtain r1 where r1: "metric_run ops (Some (recorder_New t0 True)) = Some r1" "rec_enabled r1"
    using metric_run_enabled by blast
  with snoc have "metric_step x (Some r1) = Some r" by (simp add: metric_run_snoc)
  moreover have IH: "unat (ss_CurrentOwned (getSession r1 s)) = fold (owned_gauge s) ops 0"
    using snoc r1(1) by simp
  moreover have "fold (owned_gauge s) ops 0 < 2 ^ 64 - 1"
    using fold_owned_gauge_le [of s ops 0] snoc.prems(1) by simp
  ultimately show ?case using metric_step_owned [OF r1(2), of x r s] by simp
qed (auto simp: metric_run_def zeroSessionStats_def)

theorem current_owned_gauge_witness:
  "\<exists>r. metric_run [MClaimed 0 ''t'' ''s'' 30, MReleased ''t'' ''s'', MEvicted ''t'' ''s'' ''lease_expired''] (Some (recorder_New 0 True)) = Some r \<and>
     unat (ss_CurrentOwned (getSession r ''s'')) = 0"
proof -
  let ?ops = "[MClaimed 0 ''t'' ''s'' 30, MReleased ''t'' ''s'', MEvicted ''t'' ''s'' ''lease_expired'']"
  obtain r where r: "metric_run ?ops (Some (recorder_New 0 True)) = Some r" using metric_run_enabled by blast
  with current_owned_gauge [OF _ r, of "''s''"] show ?thesis by simp
qed

end
