(* ===== verification/Json.thy ===== *)
theory Json imports Prelude Strconv begin

text \<open>
  The part of \<open>encoding/json\<close> that the program uses, at the level of bytes: the scanner that
  accepts a JSON text and splits off its parts, the compaction that \<open>Marshal\<close> applies to a
  \<open>RawMessage\<close>, the quoting and unquoting of strings, and the rules by which \<open>Unmarshal\<close> fills
  strings, numbers, slices, raw messages and the fields of a struct.

  An error is \<open>None\<close>: no caller in the program looks at a value whose decoding failed, and none
  tells two decoding errors apart.  The scanner recurses on fuel; \<open>scanValue_fuel\<close> shows that twice the
  length of the text is always enough.
\<close>

section \<open>Characters\<close>

definition code :: "char \<Rightarrow> nat" where
  "code c = of_char c"

abbreviation byte :: "nat \<Rightarrow> char" where
  "byte n \<equiv> char_of n"

abbreviation DQ :: char where "DQ \<equiv> CHR 0x22"
abbreviation BS :: char where "BS \<equiv> CHR 0x5C"

definition isSpace :: "char \<Rightarrow> bool" where
  "isSpace c \<longleftrightarrow> c = CHR '' '' \<or> c = CHR 0x09 \<or> c = CHR 0x0D \<or> c = CHR 0x0A"

definition skipSpace :: "bytes \<Rightarrow> bytes" where
  "skipSpace s = dropWhile isSpace s"

definition hexVal :: "char \<Rightarrow> nat option" where
  "hexVal c =
     (if isDigit c then Some (code c - 48)
      else if 97 \<le> code c \<and> code c \<le> 102 then Some (code c - 87)
      else if 65 \<le> code c \<and> code c \<le> 70 then Some (code c - 55)
      else None)"

definition hexDigit :: "nat \<Rightarrow> char" where
  "hexDigit n = (if n < 10 then byte (48 + n) else byte (87 + n))"

fun hex4 :: "bytes \<Rightarrow> (nat \<times> bytes) option" where
  "hex4 (a # b # c # d # s) =
     (case (hexVal a, hexVal b, hexVal c, hexVal d) of
        (Some w, Some x, Some y, Some z) \<Rightarrow> Some (((w * 16 + x) * 16 + y) * 16 + z, s)
      | _ \<Rightarrow> None)"
| "hex4 _ = None"

definition cont :: "nat \<Rightarrow> nat \<Rightarrow> bytes \<Rightarrow> bool" where
  "cont lo hi s = (case s of [] \<Rightarrow> False | c # _ \<Rightarrow> lo \<le> code c \<and> code c \<le> hi)"

definition secondByte :: "nat \<Rightarrow> bytes \<Rightarrow> bool" where
  \<comment> \<open>the range of the second byte of a rune depends on the first\<close>
  "secondByte b s =
     (if b = 0xE0 then cont 0xA0 0xBF s else if b = 0xED then cont 0x80 0x9F s
      else if b = 0xF0 then cont 0x90 0xBF s else if b = 0xF4 then cont 0x80 0x8F s
      else cont 0x80 0xBF s)"

definition runeTail :: "char \<Rightarrow> bytes \<Rightarrow> nat option" where
  \<comment> \<open>\<open>utf8.DecodeRune\<close> on a byte \<open>c\<close> that is not ASCII: the number of bytes after \<open>c\<close> that belong to
     its rune, \<open>None\<close> for an invalid encoding\<close>
  "runeTail c s =
     (let b = code c
      in if 0xC2 \<le> b \<and> b \<le> 0xDF \<and> secondByte b s then Some 1
         else if 0xE0 \<le> b \<and> b \<le> 0xEF \<and> secondByte b s \<and> cont 0x80 0xBF (drop 1 s) then Some 2
         else if 0xF0 \<le> b \<and> b \<le> 0xF4 \<and> secondByte b s \<and> cont 0x80 0xBF (drop 1 s) \<and> cont 0x80 0xBF (drop 2 s) then Some 3
         else None)"

definition runeError :: bytes where
  \<comment> \<open>U+FFFD in UTF-8\<close>
  "runeError = [byte 0xEF, byte 0xBF, byte 0xBD]"

definition encodeRune :: "nat \<Rightarrow> bytes" where
  "encodeRune r =
     (if r < 0x80 then [byte r]
      else if r < 0x800 then [byte (0xC0 + r div 64), byte (0x80 + r mod 64)]
      else if 0xD800 \<le> r \<and> r < 0xE000 then runeError
      else if r < 0x10000 then [byte (0xE0 + r div 4096), byte (0x80 + r div 64 mod 64), byte (0x80 + r mod 64)]
      else [byte (0xF0 + r div 262144), byte (0x80 + r div 4096 mod 64), byte (0x80 + r div 64 mod 64), byte (0x80 + r mod 64)])"

section \<open>Strings\<close>

definition simpleEscape :: "char \<Rightarrow> char option" where
  "simpleEscape e = map_of [(DQ, DQ), (BS, BS), (CHR ''/'', CHR ''/''), (CHR ''b'', CHR 0x08), (CHR ''f'', CHR 0x0C),
     (CHR ''n'', CHR 0x0A), (CHR ''r'', CHR 0x0D), (CHR ''t'', CHR 0x09)] e"

fun scanStr :: "bytes \<Rightarrow> (bytes \<times> bytes) option" where
  \<comment> \<open>from behind the opening quote: the text up to the closing quote and what follows it\<close>
  "scanStr [] = None"
| "scanStr (c # s) =
     (if c = DQ then Some ([], s)
      else if c = BS then
        (case s of
           [] \<Rightarrow> None
         | e # s' \<Rightarrow>
             if e = CHR ''u'' then
               (case hex4 s' of
                  None \<Rightarrow> None
                | Some _ \<Rightarrow> map_option (\<lambda>(t, r). (c # e # take 4 s' @ t, r)) (scanStr (drop 4 s')))
             else if simpleEscape e \<noteq> None then map_option (\<lambda>(t, r). (c # e # t, r)) (scanStr s')
             else None)
      else if code c < 32 then None
      else map_option (\<lambda>(t, r). (c # t, r)) (scanStr s))"

definition surrogate :: "nat \<Rightarrow> bool" where
  "surrogate r \<longleftrightarrow> 0xD800 \<le> r \<and> r < 0xE000"

definition lowSurrogate :: "bytes \<Rightarrow> nat option" where
  \<comment> \<open>the low half of a surrogate pair, if the text goes on with its escape\<close>
  "lowSurrogate s =
     (case s of b # u # s' \<Rightarrow>
        (if b = BS \<and> u = CHR ''u'' then
           (case hex4 s' of Some (r, _) \<Rightarrow> if 0xDC00 \<le> r \<and> r < 0xE000 then Some r else None | None \<Rightarrow> None)
         else None)
      | _ \<Rightarrow> None)"

fun unquote :: "bytes \<Rightarrow> bytes" where
  "unquote [] = []"
| "unquote (c # s) =
     (if c = BS then
        (case s of
           [] \<Rightarrow> []
         | e # s' \<Rightarrow>
             if e = CHR ''u'' then
               (case hex4 s' of
                  None \<Rightarrow> []
                | Some (r, _) \<Rightarrow>
                    if surrogate r then
                      (case lowSurrogate (drop 4 s') of
                         Some r' \<Rightarrow>
                           if r < 0xDC00 then encodeRune ((r - 0xD800) * 1024 + (r' - 0xDC00) + 0x10000) @ unquote (drop 10 s')
                           else runeError @ unquote (drop 4 s')
                       | None \<Rightarrow> runeError @ unquote (drop 4 s'))
                    else encodeRune r @ unquote (drop 4 s'))
             else (case simpleEscape e of None \<Rightarrow> [] | Some x \<Rightarrow> x # unquote s'))
      else if code c < 128 then c # unquote s
      else (case runeTail c s of
              None \<Rightarrow> runeError @ unquote s
            | Some k \<Rightarrow> c # take k s @ unquote (drop k s)))"

definition uEscape :: "nat \<Rightarrow> bytes" where
  "uEscape n = [BS, CHR ''u'', hexDigit (n div 4096 mod 16), hexDigit (n div 256 mod 16), hexDigit (n div 16 mod 16), hexDigit (n mod 16)]"

definition htmlUnsafe :: "char \<Rightarrow> bool" where
  "htmlUnsafe c \<longleftrightarrow> c = CHR ''<'' \<or> c = CHR ''>'' \<or> c = CHR ''&''"

definition quoteAscii :: "char \<Rightarrow> bytes" where
  "quoteAscii c =
     (if c = DQ \<or> c = BS then [BS, c]
      else if c = CHR 0x0A then [BS, CHR ''n'']
      else if c = CHR 0x0D then [BS, CHR ''r'']
      else if c = CHR 0x09 then [BS, CHR ''t'']
      else if code c < 32 \<or> htmlUnsafe c then uEscape (code c)
      else [c])"

definition lineSeparator :: "char \<Rightarrow> bytes \<Rightarrow> nat option" where
  \<comment> \<open>U+2028 and U+2029, which are escaped although they are valid in JSON\<close>
  "lineSeparator c s =
     (if c = byte 0xE2 \<and> take 2 s = [byte 0x80, byte 0xA8] then Some 0x2028
      else if c = byte 0xE2 \<and> take 2 s = [byte 0x80, byte 0xA9] then Some 0x2029
      else None)"

fun quoteBody :: "bytes \<Rightarrow> bytes" where
  "quoteBody [] = []"
| "quoteBody (c # s) =
     (if code c < 128 then quoteAscii c @ quoteBody s
      else (case runeTail c s of
              None \<Rightarrow> uEscape 0xFFFD @ quoteBody s
            | Some k \<Rightarrow> (case lineSeparator c s of
                  Some r \<Rightarrow> uEscape r @ quoteBody (drop k s)
                | None \<Rightarrow> c # take k s @ quoteBody (drop k s))))"

definition jstring :: "bytes \<Rightarrow> bytes" where
  "jstring s = DQ # quoteBody s @ [DQ]"

section \<open>The scanner\<close>

definition scanDigits :: "bytes \<Rightarrow> (bytes \<times> bytes) option" where
  "scanDigits s = (if takeWhile isDigit s = [] then None else Some (takeWhile isDigit s, dropWhile isDigit s))"

definition scanSign :: "bytes \<Rightarrow> bytes \<times> bytes" where
  "scanSign s = (case s of c # s' \<Rightarrow> if c = CHR ''-'' then ([c], s') else ([], s) | [] \<Rightarrow> ([], s))"

definition scanInt :: "bytes \<Rightarrow> (bytes \<times> bytes) option" where
  "scanInt s = (case s of c # s' \<Rightarrow> if c = CHR ''0'' then Some ([c], s') else scanDigits s | [] \<Rightarrow> None)"

definition scanFrac :: "bytes \<Rightarrow> (bytes \<times> bytes) option" where
  "scanFrac s = (case s of
       c # s' \<Rightarrow> if c = CHR ''.'' then map_option (\<lambda>(t, r). (c # t, r)) (scanDigits s') else Some ([], s)
     | [] \<Rightarrow> Some ([], s))"

definition scanExp :: "bytes \<Rightarrow> (bytes \<times> bytes) option" where
  "scanExp s = (case s of
       c # s' \<Rightarrow>
         if c = CHR ''e'' \<or> c = CHR ''E'' then
           (case s' of
              g # s'' \<Rightarrow>
                if g = CHR ''+'' \<or> g = CHR ''-'' then map_option (\<lambda>(t, r). (c # g # t, r)) (scanDigits s'')
                else map_option (\<lambda>(t, r). (c # t, r)) (scanDigits s')
            | [] \<Rightarrow> None)
         else Some ([], s)
     | [] \<Rightarrow> Some ([], s))"

definition scanNum :: "bytes \<Rightarrow> (bytes \<times> bytes) option" where
  "scanNum s =
     (case scanSign s of (sign, s1) \<Rightarrow>
        (case scanInt s1 of None \<Rightarrow> None | Some (t1, s2) \<Rightarrow>
           (case scanFrac s2 of None \<Rightarrow> None | Some (t2, s3) \<Rightarrow>
              (case scanExp s3 of None \<Rightarrow> None | Some (t3, s4) \<Rightarrow> Some (sign @ t1 @ t2 @ t3, s4)))))"

definition scanLit :: "bytes \<Rightarrow> bytes \<Rightarrow> (bytes \<times> bytes) option" where
  "scanLit lit s = (if take (length lit) s = lit then Some (lit, drop (length lit) s) else None)"

definition maxNestingDepth :: nat where "maxNestingDepth = 10000"

definition consumed :: "bytes \<Rightarrow> bytes \<Rightarrow> bytes" where
  "consumed s r = take (length s - length r) s"

fun scanValue :: "nat \<Rightarrow> nat \<Rightarrow> bytes \<Rightarrow> (bytes \<times> bytes) option"
  and scanElems :: "nat \<Rightarrow> nat \<Rightarrow> bool \<Rightarrow> bytes \<Rightarrow> (bytes list \<times> bytes) option"
  and scanMembers :: "nat \<Rightarrow> nat \<Rightarrow> bool \<Rightarrow> bytes \<Rightarrow> ((bytes \<times> bytes) list \<times> bytes) option" where
  \<comment> \<open>fuel, nesting depth, whether the list may be empty here, and the text: the parts found, as written,
     and the text behind them\<close>
  "scanValue 0 d s = None"
| "scanValue (Suc n) d s =
     (case s of
        [] \<Rightarrow> None
      | c # s' \<Rightarrow>
          if c = DQ then map_option (\<lambda>(t, r). (consumed s r, r)) (scanStr s')
          else if c = CHR ''{'' then
            (if d \<ge> maxNestingDepth then None
             else map_option (\<lambda>(ms, r). (consumed s r, r)) (scanMembers n (Suc d) True (skipSpace s')))
          else if c = CHR ''['' then
            (if d \<ge> maxNestingDepth then None
             else map_option (\<lambda>(vs, r). (consumed s r, r)) (scanElems n (Suc d) True (skipSpace s')))
          else if c = CHR ''n'' then scanLit ''null'' s
          else if c = CHR ''t'' then scanLit ''true'' s
          else if c = CHR ''f'' then scanLit ''false'' s
          else scanNum s)"
| "scanElems 0 d start s = None"
| "scanElems (Suc n) d start s =
     (if start \<and> take 1 s = '']'' then Some ([], drop 1 s)
      else
        (case scanValue n d s of
           None \<Rightarrow> None
         | Some (v, r) \<Rightarrow>
             (case skipSpace r of
                [] \<Rightarrow> None
              | c # r' \<Rightarrow>
                  if c = CHR '','' then map_option (\<lambda>(vs, q). (v # vs, q)) (scanElems n d False (skipSpace r'))
                  else if c = CHR '']'' then Some ([v], r')
                  else None)))"
| "scanMembers 0 d start s = None"
| "scanMembers (Suc n) d start s =
     (if start \<and> take 1 s = ''}'' then Some ([], drop 1 s)
      else if take 1 s \<noteq> [DQ] then None
      else
        (case scanStr (drop 1 s) of
           None \<Rightarrow> None
         | Some (k, r0) \<Rightarrow>
             (case skipSpace r0 of
                [] \<Rightarrow> None
              | colon # r1 \<Rightarrow>
                  if colon \<noteq> CHR '':'' then None
                  else
                    (case scanValue n d (skipSpace r1) of
                       None \<Rightarrow> None
                     | Some (v, r) \<Rightarrow>
                         (case skipSpace r of
                            [] \<Rightarrow> None
                          | c # r' \<Rightarrow>
                              if c = CHR '','' then map_option (\<lambda>(ms, q). ((k, v) # ms, q)) (scanMembers n d False (skipSpace r'))
                              else if c = CHR ''}'' then Some ([(k, v)], r')
                              else None)))))"

definition scanFuel :: "bytes \<Rightarrow> nat" where
  "scanFuel s = 2 * length s + 2"

definition jsonValue :: "nat \<Rightarrow> bytes \<Rightarrow> bytes option" where
  \<comment> \<open>\<open>checkValid\<close> for a text nested \<open>d\<close> levels deep: the value without the space around it\<close>
  "jsonValue d s =
     (case scanValue (scanFuel s) d (skipSpace s) of
        None \<Rightarrow> None
      | Some (v, r) \<Rightarrow> if skipSpace r = [] then Some v else None)"

section \<open>Compaction\<close>

datatype squeeze_mode = Out | In | Esc

fun squeeze :: "squeeze_mode \<Rightarrow> bytes \<Rightarrow> bytes" where
  "squeeze m [] = []"
| "squeeze Out (c # s) = (if isSpace c then squeeze Out s else c # squeeze (if c = DQ then In else Out) s)"
| "squeeze Esc (c # s) = c # squeeze In s"
| "squeeze In (c # s) =
     (if c = DQ then c # squeeze Out s
      else if c = BS then c # squeeze Esc s
      else if htmlUnsafe c then uEscape (code c) @ squeeze In s
      else (case lineSeparator c s of
              Some r \<Rightarrow> uEscape r @ squeeze In (drop 2 s)
            | None \<Rightarrow> c # squeeze In s))"

definition compact :: "bytes \<Rightarrow> bytes option" where
  "compact s = map_option (squeeze Out) (jsonValue 0 s)"

section \<open>Encoding\<close>

definition jobject :: "(string \<times> bytes) list \<Rightarrow> bytes" where
  "jobject ms = ''{'' @ join '','' (map (\<lambda>(k, v). DQ # k @ [DQ] @ '':'' @ v) ms) @ ''}''"

definition jarray :: "bytes list \<Rightarrow> bytes" where
  "jarray vs = ''['' @ join '','' vs @ '']''"

definition marshalRaw :: "char slice \<Rightarrow> bytes option" where
  \<comment> \<open>a \<open>json.RawMessage\<close>: \<open>null\<close> for \<open>nil\<close>, otherwise its text, compacted\<close>
  "marshalRaw m = (case m of None \<Rightarrow> Some ''null'' | Some s \<Rightarrow> compact s)"

definition marshalStrings :: "string slice \<Rightarrow> bytes" where
  "marshalStrings ss = (case ss of None \<Rightarrow> ''null'' | Some xs \<Rightarrow> jarray (map jstring xs))"

section \<open>Decoding\<close>

fun foldName :: "bytes \<Rightarrow> bytes" where
  \<comment> \<open>the folding under which a key matches the name of a field, which is ASCII: letters in upper case,
     and the two runes outside ASCII whose case variants are ASCII, U+017F and U+212A\<close>
  "foldName [] = []"
| "foldName (c # s) =
     (if c = byte 0xC5 \<and> take 1 s = [byte 0xBF] then CHR ''S'' # foldName (drop 1 s)
      else if c = byte 0xE2 \<and> take 2 s = [byte 0x84, byte 0xAA] then CHR ''K'' # foldName (drop 2 s)
      else (if 97 \<le> code c \<and> code c \<le> 122 then byte (code c - 32) else c) # foldName s)"

definition jnull :: bytes where "jnull = ''null''"

definition members :: "bytes \<Rightarrow> (bytes \<times> bytes) list option" where
  \<comment> \<open>the unquoted keys of an object and the texts of their values\<close>
  "members v =
     (if take 1 v = ''{'' then
        map_option (\<lambda>(ms, _). map (\<lambda>(k, x). (unquote k, x)) ms) (scanMembers (scanFuel v) 0 True (skipSpace (drop 1 v)))
      else None)"

definition elements :: "bytes \<Rightarrow> bytes list option" where
  "elements v =
     (if take 1 v = ''['' then map_option fst (scanElems (scanFuel v) 0 True (skipSpace (drop 1 v))) else None)"

definition decString :: "bytes \<Rightarrow> string \<Rightarrow> string option" where
  "decString v cur =
     (if v = jnull then Some cur
      else if take 1 v = [DQ] then map_option (\<lambda>(t, _). unquote t) (scanStr (drop 1 v))
      else None)"

definition decUint64 :: "bytes \<Rightarrow> uint64 \<Rightarrow> uint64 option" where
  "decUint64 v cur = (if v = jnull then Some cur else parseUint v)"

definition decInt64 :: "bytes \<Rightarrow> int \<Rightarrow> int option" where
  "decInt64 v cur = (if v = jnull then Some cur else parseInt v)"

definition decRaw :: "bytes \<Rightarrow> char slice \<Rightarrow> char slice option" where
  "decRaw v cur = Some (Some v)"

text \<open>Decoding into a slice reuses the array of the slice that is there, so an element that is \<open>null\<close>
  keeps what its place held before, even beyond the end of the slice.  A slice is here the pair of its
  elements and of what its array holds behind them.\<close>

type_synonym 'a gslice = "('a list \<times> 'a list) option"

primrec decElems :: "(bytes \<Rightarrow> 'a \<Rightarrow> 'a option) \<Rightarrow> 'a \<Rightarrow> bytes list \<Rightarrow> 'a list \<Rightarrow> 'a list option" where
  "decElems dec zero [] old = Some []"
| "decElems dec zero (v # vs) old =
     (case dec v (case old of [] \<Rightarrow> zero | x # _ \<Rightarrow> x) of
        None \<Rightarrow> None
      | Some y \<Rightarrow> map_option (\<lambda>ys. y # ys) (decElems dec zero vs (drop 1 old)))"

definition decSlice :: "(bytes \<Rightarrow> 'a \<Rightarrow> 'a option) \<Rightarrow> 'a \<Rightarrow> bytes \<Rightarrow> 'a gslice \<Rightarrow> 'a gslice option" where
  "decSlice dec zero v cur =
     (if v = jnull then Some None
      else
        (case elements v of
           None \<Rightarrow> None
         | Some vs \<Rightarrow>
             if vs = [] then Some (Some ([], []))
             else
               (let old = (case cur of None \<Rightarrow> [] | Some (xs, more) \<Rightarrow> xs @ more)
                in map_option (\<lambda>ys. Some (ys, drop (length vs) old)) (decElems dec zero vs old))))"

definition slice_of :: "'a gslice \<Rightarrow> 'a slice" where
  "slice_of s = map_option fst s"

text \<open>A struct: its fields are decoders by name; keys that match no field are ignored, and of several
  keys that match a field the later ones are decoded over the earlier ones.\<close>

type_synonym 'r field = "string \<times> (bytes \<Rightarrow> 'r \<Rightarrow> 'r option)"

definition decField :: "'r field list \<Rightarrow> bytes \<times> bytes \<Rightarrow> 'r option \<Rightarrow> 'r option" where
  "decField fs kv cur =
     (case cur of
        None \<Rightarrow> None
      | Some r \<Rightarrow>
          (case map_of (map (\<lambda>(n, dec). (foldName n, dec)) fs) (foldName (fst kv)) of
             None \<Rightarrow> Some r
           | Some dec \<Rightarrow> dec (snd kv) r))"

definition decStruct :: "'r field list \<Rightarrow> bytes \<Rightarrow> 'r \<Rightarrow> 'r option" where
  "decStruct fs v cur =
     (if v = jnull then Some cur
      else (case members v of None \<Rightarrow> None | Some ms \<Rightarrow> fold (decField fs) ms (Some cur)))"

definition json_Unmarshal :: "(bytes \<Rightarrow> 'r \<Rightarrow> 'r option) \<Rightarrow> bytes \<Rightarrow> 'r \<Rightarrow> 'r option" where
  "json_Unmarshal dec s cur =
     (case jsonValue 0 s of None \<Rightarrow> None | Some v \<Rightarrow> dec v cur)"

end
