(* ===== verification/JsonFacts.thy ===== *)
theory JsonFacts imports Json begin

text \<open>
  Facts about the JSON functions: what the scanner has read is a prefix of its text, its fuel is
  enough, quoting and unquoting are inverse on UTF-8, and a text is compact when the scanner reads it
  back as it is.  Texts composed by \<open>jobject\<close> and \<open>jarray\<close> of compact texts are compact, and so is
  whatever \<open>compact\<close> returns; this carries the round trips of the protocol.
\<close>

section \<open>Strings\<close>

lemma code_numeral [simp]: "n < 256 \<Longrightarrow> code (byte n) = n"
  by (simp add: code_def)

lemma code_inject: "code c = code c' \<longleftrightarrow> c = c'"
  by (simp add: code_def)

lemma map_option_pair_Some [simp]:
  "map_option (\<lambda>(a, b). (f a b, b)) x = Some (u, v) \<longleftrightarrow> (\<exists>a. x = Some (a, v) \<and> u = f a v)"
  by (cases x) auto

lemma hex4_Some: "hex4 s = Some (n, r) \<Longrightarrow> \<exists>a b c d. s = a # b # c # d # r"
  by (induction s rule: hex4.induct) (auto split: option.splits)

lemma hex4_append: "hex4 s = Some (n, r) \<Longrightarrow> hex4 (s @ x) = Some (n, r @ x)"
  by (induction s rule: hex4.induct) (auto split: option.splits)

lemma hex4_take: "hex4 s = Some (n, r) \<Longrightarrow> hex4 (take 4 s) = Some (n, [])"
  by (induction s rule: hex4.induct) (auto split: option.splits)

lemma simpleEscape_not_u [simp]: "simpleEscape (CHR ''u'') = None"
  by (simp add: simpleEscape_def)

text \<open>The texts that may stand between the quotes of a string.\<close>

inductive strTok :: "bytes \<Rightarrow> bool" where
  Nil: "strTok []"
| plain: "strTok (c # t)" if "c \<noteq> DQ" and "c \<noteq> BS" and "code c \<ge> 32" and "strTok t"
| u: "strTok (BS # CHR ''u'' # h @ t)" if "hex4 h = Some (n, [])" and "strTok t"
| esc: "strTok (BS # e # t)" if "simpleEscape e = Some x" and "strTok t"

inductive_cases strTok_ConsE: "strTok (c # t)"

lemma strTok_plain_iff:
  assumes "c \<noteq> BS"
  shows "strTok (c # t) \<longleftrightarrow> c \<noteq> DQ \<and> code c \<ge> 32 \<and> strTok t"
  using assms by (auto intro: strTok.plain elim: strTok_ConsE)

lemma strTok_scan: "strTok t \<Longrightarrow> scanStr (t @ DQ # r) = Some (t, r)"
proof (induction rule: strTok.induct)
  case (u h n t)
  have "hex4 (h @ t @ DQ # r) = Some (n, t @ DQ # r)" using hex4_append [OF u(1)] by simp
  moreover have "length h = 4" using hex4_Some [OF u(1)] by auto
  ultimately show ?case using u by simp
next
  case (esc e x t)
  then have "e \<noteq> CHR ''u''" by auto
  with esc show ?case by simp
qed auto

lemma scanStr_tok: "scanStr s = Some (t, r) \<Longrightarrow> s = t @ DQ # r \<and> strTok t"
proof (induction s arbitrary: t r rule: scanStr.induct)
  case (2 c s)
  consider "c = DQ" | "c = BS" | "c \<noteq> DQ" "c \<noteq> BS" by blast
  then show ?case
  proof cases
    case 1
    then show ?thesis using 2(4) by (auto intro: strTok.Nil)
  next
    case bs: 2
    with 2(4) obtain e s' where s: "s = e # s'" by (auto split: list.splits)
    show ?thesis
    proof (cases "e = CHR ''u''")
      case True
      with bs s 2(4) obtain n q t' where h: "hex4 s' = Some (n, q)" "scanStr (drop 4 s') = Some (t', r)"
        "t = BS # CHR ''u'' # take 4 s' @ t'"
        by (auto split: option.splits)
      have IH: "drop 4 s' = t' @ DQ # r \<and> strTok t'"
        using 2(1) [OF _ bs s True h(1)] h(2) bs by simp
      then have "s' = take 4 s' @ t' @ DQ # r" by (metis append_take_drop_id)
      then show ?thesis
        using h(3) IH True bs s strTok.u [OF hex4_take [OF h(1)]] by (metis append.assoc append_Cons)
    next
      case False
      with bs s 2(4) obtain x t' where h: "simpleEscape e = Some x" "scanStr s' = Some (t', r)" "t = BS # e # t'"
        by (auto split: if_splits)
      have "s' = t' @ DQ # r \<and> strTok t'"
        using 2(2) [OF _ bs s False] h bs by simp
      then show ?thesis using h bs s by (auto intro: strTok.esc)
    qed
  next
    case 3
    with 2(4) obtain t' where h: "scanStr s = Some (t', r)" "t = c # t'" "code c \<ge> 32"
      by (auto split: if_splits)
    have "s = t' @ DQ # r \<and> strTok t'" using 2(3) h 3 by simp
    then show ?thesis using h 3 by (auto intro: strTok.plain)
  qed
qed simp

section \<open>Quoting\<close>

lemma hexDigit_facts:
  assumes "n < 16"
  shows "hexVal (hexDigit n) = Some n" "32 \<le> code (hexDigit n)" "code (hexDigit n) < 128"
    "hexDigit n \<noteq> DQ" "hexDigit n \<noteq> BS" "\<not> htmlUnsafe (hexDigit n)"
proof -
  have c: "code (hexDigit n) = (if n < 10 then 48 + n else 87 + n)" using assms by (simp add: hexDigit_def)
  show "hexVal (hexDigit n) = Some n" using assms c by (simp add: hexVal_def isDigit_def code_def [symmetric])
  show "32 \<le> code (hexDigit n)" "code (hexDigit n) < 128" using assms by (simp_all add: c)
  have "code DQ = 34" "code BS = 92" "code (CHR ''<'') = 60" "code (CHR ''>'') = 62" "code (CHR ''&'') = 38"
    by (simp_all add: code_def)
  then show "hexDigit n \<noteq> DQ" "hexDigit n \<noteq> BS" "\<not> htmlUnsafe (hexDigit n)"
    using c assms by (auto simp: htmlUnsafe_def split: if_splits)
qed

lemma lineSeparator_ascii [simp]: "code c < 128 \<Longrightarrow> lineSeparator c s = None"
  by (auto simp: lineSeparator_def)

lemma lineSeparator_cont [simp]: "code c < 192 \<Longrightarrow> lineSeparator c s = None"
  by (auto simp: lineSeparator_def)

lemma special_codes [simp]: "code DQ = 34" "code BS = 92" "code (CHR ''u'') = 117" "code (CHR ''n'') = 110"
  "code (CHR ''r'') = 114" "code (CHR ''t'') = 116"
  by (simp_all add: code_def)

lemma squeeze_In_plain:
  assumes "c \<noteq> DQ" "c \<noteq> BS" "\<not> htmlUnsafe c" "code c < 192"
  shows "squeeze In (c # s) = c # squeeze In s"
  using assms by simp

lemma squeeze_In_high:
  assumes "\<And>c. c \<in> set p \<Longrightarrow> 128 \<le> code c \<and> code c < 192"
  shows "squeeze In (p @ s) = p @ squeeze In s"
  using assms
proof (induction p)
  case (Cons c p)
  then have "128 \<le> code c" "code c < 192" by simp_all
  then have "c \<noteq> DQ" "c \<noteq> BS" "\<not> htmlUnsafe c" by (auto simp: htmlUnsafe_def code_def)
  with Cons \<open>code c < 192\<close> show ?case by simp
qed simp

lemma strTok_high:
  assumes "\<And>c. c \<in> set p \<Longrightarrow> 128 \<le> code c" and "strTok t"
  shows "strTok (p @ t)"
  using assms
proof (induction p)
  case (Cons c p)
  then have "128 \<le> code c" by simp
  then have "c \<noteq> DQ" "c \<noteq> BS" "32 \<le> code c" by auto
  with Cons show ?case by (auto intro!: strTok.plain)
qed simp

lemma secondByte_Cons: "secondByte b (a # s) = secondByte b [a]"
  by (simp add: secondByte_def cont_def)

lemma cont_Some: "cont 0x80 0xBF s \<Longrightarrow> \<exists>a s'. s = a # s' \<and> 128 \<le> code a \<and> code a < 192"
  by (auto simp: cont_def split: list.splits)

lemma secondByte_Some: "secondByte b s \<Longrightarrow> \<exists>a s'. s = a # s' \<and> 128 \<le> code a \<and> code a < 192"
  by (auto simp: secondByte_def cont_def split: list.splits if_splits)

lemma runeTail_cases:
  assumes "runeTail c s = Some k"
  obtains a s' where "s = a # s'" "k = 1" "secondByte (code c) [a]" "194 \<le> code c" "code c \<le> 223"
  | a b s' where "s = a # b # s'" "k = 2" "secondByte (code c) [a]" "cont 0x80 0xBF [b]" "224 \<le> code c" "code c \<le> 239"
  | a b d s' where "s = a # b # d # s'" "k = 3" "secondByte (code c) [a]" "cont 0x80 0xBF [b]" "cont 0x80 0xBF [d]"
      "240 \<le> code c" "code c \<le> 244"
proof -
  consider "k = 1" "194 \<le> code c" "code c \<le> 223" "secondByte (code c) s"
    | "k = 2" "224 \<le> code c" "code c \<le> 239" "secondByte (code c) s" "cont 0x80 0xBF (drop 1 s)"
    | "k = 3" "240 \<le> code c" "code c \<le> 244" "secondByte (code c) s" "cont 0x80 0xBF (drop 1 s)" "cont 0x80 0xBF (drop 2 s)"
    using assms unfolding runeTail_def Let_def by (auto split: if_split_asm)
  then show thesis
  proof cases
    case 1
    obtain a s' where "s = a # s'" using secondByte_Some [OF 1(4)] by blast
    with that(1) 1 show ?thesis by (simp add: secondByte_Cons [of _ a s'])
  next
    case 2
    obtain a s' where s: "s = a # s'" using secondByte_Some [OF 2(4)] by blast
    moreover obtain b s2 where "s' = b # s2" using cont_Some [OF 2(5)] s by auto
    ultimately show ?thesis using that(2) 2 by (simp add: secondByte_Cons [of _ a "_ # _"] cont_def)
  next
    case 3
    obtain a s' where s: "s = a # s'" using secondByte_Some [OF 3(4)] by blast
    moreover obtain b s2 where s': "s' = b # s2" using cont_Some [OF 3(5)] s by auto
    moreover obtain d s3 where "s2 = d # s3" using cont_Some [OF 3(6)] s s' by auto
    ultimately show ?thesis using that(3) 3 by (simp add: secondByte_Cons [of _ a "_ # _"] cont_def)
  qed
qed

lemma runeTail_facts:
  assumes "runeTail c s = Some k"
  shows "192 < code c" "k \<le> length s" "\<And>x. x \<in> set (take k s) \<Longrightarrow> 128 \<le> code x \<and> code x < 192"
    "runeTail c (take k s @ x) = Some k" "c = byte 0xE2 \<Longrightarrow> k = 2"
proof -
  show "192 < code c" using assms by (cases rule: runeTail_cases) simp_all
  show "k \<le> length s" using assms by (cases rule: runeTail_cases) simp_all
  show "128 \<le> code x \<and> code x < 192" if "x \<in> set (take k s)" for x
    using assms
  proof (cases rule: runeTail_cases)
    case (1 a s')
    with that secondByte_Some [OF 1(3)] show ?thesis by auto
  next
    case (2 a b s')
    with that secondByte_Some [OF 2(3)] cont_Some [OF 2(4)] show ?thesis by auto
  next
    case (3 a b d s')
    with that secondByte_Some [OF 3(3)] cont_Some [OF 3(4)] cont_Some [OF 3(5)] show ?thesis by auto
  qed
  show "runeTail c (take k s @ x) = Some k"
    using assms
  proof (cases rule: runeTail_cases)
    case (1 a s')
    then show ?thesis by (simp add: runeTail_def secondByte_Cons [of _ a x])
  next
    case (2 a b s')
    then show ?thesis by (simp add: runeTail_def secondByte_Cons [of _ a "b # x"] cont_def numeral_2_eq_2)
  next
    case (3 a b d s')
    then show ?thesis by (simp add: runeTail_def secondByte_Cons [of _ a "b # d # x"] cont_def numeral_2_eq_2 numeral_3_eq_3)
  qed
  show "k = 2" if "c = byte 0xE2"
    using assms that by (cases rule: runeTail_cases) simp_all
qed

lemma uEscape_parts:
  "n < 65536 \<Longrightarrow> \<exists>h. uEscape n = BS # CHR ''u'' # h \<and> hex4 h = Some (n, []) \<and>
     (\<forall>c \<in> set h. 32 \<le> code c \<and> code c < 128 \<and> c \<noteq> DQ \<and> c \<noteq> BS \<and> \<not> htmlUnsafe c)"
proof -
  assume "n < 65536"
  then have "n div 4096 < 16" by simp
  then have a: "n div 4096 mod 16 = n div 4096" by simp
  have "n div 16 div 16 = n div 256" "n div 256 div 16 = n div 4096" by (simp_all add: div_mult2_eq [symmetric])
  then have e: "n div 16 * 16 + n mod 16 = n" "n div 256 * 16 + n div 16 mod 16 = n div 16"
      "n div 4096 * 16 + n div 256 mod 16 = n div 256"
    using div_mult_mod_eq [of "n div 16" 16] div_mult_mod_eq [of "n div 256" 16] by simp_all
  let ?h = "[hexDigit (n div 4096 mod 16), hexDigit (n div 256 mod 16), hexDigit (n div 16 mod 16), hexDigit (n mod 16)]"
  have "hex4 ?h = Some (((n div 4096 * 16 + n div 256 mod 16) * 16 + n div 16 mod 16) * 16 + n mod 16, [])"
    using \<open>n div 4096 < 16\<close> by (simp add: hexDigit_facts)
  then have "hex4 ?h = Some (n, [])" by (simp only: e)
  moreover have "\<forall>c \<in> set ?h. 32 \<le> code c \<and> code c < 128 \<and> c \<noteq> DQ \<and> c \<noteq> BS \<and> \<not> htmlUnsafe c"
    by (simp add: hexDigit_facts)
  ultimately show ?thesis unfolding uEscape_def by blast
qed

lemma squeeze_In_ascii:
  assumes "\<And>c. c \<in> set h \<Longrightarrow> code c < 128 \<and> c \<noteq> DQ \<and> c \<noteq> BS \<and> \<not> htmlUnsafe c"
  shows "squeeze In (h @ s) = h @ squeeze In s"
  using assms by (induction h) auto

lemma squeeze_uEscape:
  assumes "n < 65536"
  shows "squeeze In (uEscape n @ s) = uEscape n @ squeeze In s"
proof -
  obtain h where h: "uEscape n = BS # CHR ''u'' # h"
      "\<forall>c \<in> set h. 32 \<le> code c \<and> code c < 128 \<and> c \<noteq> DQ \<and> c \<noteq> BS \<and> \<not> htmlUnsafe c"
    using uEscape_parts [OF assms] by blast
  then have "squeeze In (h @ s) = h @ squeeze In s" by (intro squeeze_In_ascii) blast
  then show ?thesis by (simp add: h(1))
qed

lemma strTok_uEscape:
  assumes "n < 65536" and "strTok t"
  shows "strTok (uEscape n @ t)"
proof -
  obtain h where h: "uEscape n = BS # CHR ''u'' # h" "hex4 h = Some (n, [])"
    using uEscape_parts [OF assms(1)] by blast
  from strTok.u [OF h(2) assms(2)] show ?thesis by (simp add: h(1))
qed

lemma uEscape_printable:
  assumes "n < 65536" and "c \<in> set (uEscape n)"
  shows "32 \<le> code c"
proof -
  obtain h where h: "uEscape n = BS # CHR ''u'' # h"
      "\<forall>c \<in> set h. 32 \<le> code c \<and> code c < 128 \<and> c \<noteq> DQ \<and> c \<noteq> BS \<and> \<not> htmlUnsafe c"
    using uEscape_parts [OF assms(1)] by blast
  have "c = BS \<or> c = CHR ''u'' \<or> c \<in> set h" using assms(2) by (simp add: h(1))
  with h(2) show ?thesis by (elim disjE) simp_all
qed

lemma quoteAscii_facts:
  assumes "code c < 128"
  shows "squeeze In (quoteAscii c @ s) = quoteAscii c @ squeeze In s"
    and "strTok t \<Longrightarrow> strTok (quoteAscii c @ t)"
    and "x \<in> set (quoteAscii c) \<Longrightarrow> 32 \<le> code x"
    and "unquote (quoteAscii c @ t) = c # unquote t"
proof -
  consider x where "quoteAscii c = [BS, x]" "simpleEscape x = Some c" "x \<noteq> CHR ''u''" "32 \<le> code x"
    | "quoteAscii c = uEscape (code c)" "c \<noteq> DQ" "c \<noteq> BS"
    | "quoteAscii c = [c]" "c \<noteq> DQ" "c \<noteq> BS" "32 \<le> code c" "\<not> htmlUnsafe c"
  proof (cases "quoteAscii c = [c] \<or> quoteAscii c = uEscape (code c)")
    case True
    then show ?thesis using that(2,3) by (auto simp: quoteAscii_def uEscape_def not_less split: if_splits)
  next
    case False
    then have "c \<in> {DQ, BS, CHR 0x0A, CHR 0x0D, CHR 0x09}" by (auto simp: quoteAscii_def split: if_splits)
    then show ?thesis using that(1) by (auto simp: quoteAscii_def simpleEscape_def code_def)
  qed
  note three = this
  show "squeeze In (quoteAscii c @ s) = quoteAscii c @ squeeze In s"
    by (rule three) (use assms in \<open>simp_all add: squeeze_uEscape\<close>)
  show "strTok t \<Longrightarrow> strTok (quoteAscii c @ t)"
    by (rule three) (use assms in \<open>auto intro: strTok.intros strTok_uEscape\<close>)
  show "x \<in> set (quoteAscii c) \<Longrightarrow> 32 \<le> code x"
    by (rule three) (use assms in \<open>auto intro: uEscape_printable [of "code c"]\<close>)
  show "unquote (quoteAscii c @ t) = c # unquote t"
  proof (rule three)
    fix x assume "quoteAscii c = [BS, x]" "simpleEscape x = Some c" "x \<noteq> CHR ''u''"
    then show ?thesis by simp
  next
    assume u: "quoteAscii c = uEscape (code c)"
    obtain h where h: "uEscape (code c) = BS # CHR ''u'' # h" "hex4 h = Some (code c, [])"
      using uEscape_parts [of "code c"] assms by auto
    have "hex4 (h @ t) = Some (code c, t)" "length h = 4" using hex4_append [OF h(2), of t] hex4_Some [OF h(2)] by auto
    moreover have "encodeRune (code c) = [c]" using assms by (simp add: encodeRune_def code_def)
    ultimately show ?thesis using assms by (simp add: u h(1) surrogate_def)
  next
    assume "quoteAscii c = [c]" "c \<noteq> BS"
    then show ?thesis using assms by simp
  qed
qed

lemma unquote_uEscape:
  assumes "n < 65536" and "\<not> surrogate n"
  shows "unquote (uEscape n @ t) = encodeRune n @ unquote t"
proof -
  obtain h where h: "uEscape n = BS # CHR ''u'' # h" "hex4 h = Some (n, [])"
    using uEscape_parts [OF assms(1)] by auto
  have "hex4 (h @ t) = Some (n, t)" "length h = 4" using hex4_append [OF h(2), of t] hex4_Some [OF h(2)] by auto
  then show ?thesis using assms by (simp add: h(1))
qed

fun toValidUTF8 :: "bytes \<Rightarrow> bytes" where
  \<comment> \<open>each byte that belongs to no valid rune becomes U+FFFD\<close>
  "toValidUTF8 [] = []"
| "toValidUTF8 (c # s) =
     (if code c < 128 then c # toValidUTF8 s
      else (case runeTail c s of
              None \<Rightarrow> runeError @ toValidUTF8 s
            | Some k \<Rightarrow> c # take k s @ toValidUTF8 (drop k s)))"

definition validUTF8 :: "bytes \<Rightarrow> bool" where
  "validUTF8 s \<longleftrightarrow> toValidUTF8 s = s"

lemma lineSeparator_Some:
  assumes "lineSeparator c s = Some r" and "runeTail c s = Some k"
  shows "k = 2" "r = 0x2028 \<or> r = 0x2029" "encodeRune r = c # take 2 s"
proof -
  show "k = 2" using assms runeTail_facts(5) [OF assms(2)] by (auto simp: lineSeparator_def split: if_splits)
  show "r = 0x2028 \<or> r = 0x2029" "encodeRune r = c # take 2 s"
    using assms(1) by (auto simp: lineSeparator_def encodeRune_def split: if_splits)
qed

lemma lineSeparator_take:
  assumes "runeTail c s = Some k" and "lineSeparator c s = None"
  shows "lineSeparator c (take k s @ x) = None"
proof (cases "c = byte 0xE2")
  case True
  with assms(1) have "k = 2" "length s \<ge> 2" using runeTail_facts(2,5) [OF assms(1)] by auto
  then have "take 2 (take k s @ x) = take 2 s" by simp
  with assms(2) show ?thesis by (simp add: lineSeparator_def del: take_append split: if_splits)
next
  case False
  then show ?thesis by (simp add: lineSeparator_def)
qed

lemma quoteBody_facts:
  "strTok (quoteBody s)" (is ?A)
  "squeeze In (quoteBody s @ x) = quoteBody s @ squeeze In x" (is ?B)
  "\<forall>y \<in> set (quoteBody s). 32 \<le> code y" (is ?C)
  "unquote (quoteBody s) = toValidUTF8 s" (is ?D)
proof -
  have "?A \<and> ?B \<and> ?C \<and> ?D"
  proof (induction s rule: quoteBody.induct)
    case (2 c s)
    show ?case
    proof (cases "code c < 128")
      case True
      with 2(1) show ?thesis using quoteAscii_facts [OF True] by auto
    next
      case high: False
      then have c: "c \<noteq> DQ" "c \<noteq> BS" "\<not> htmlUnsafe c" by (auto simp: htmlUnsafe_def code_def)
      show ?thesis
      proof (cases "runeTail c s")
        case None
        have "encodeRune 65533 = runeError" by (simp add: encodeRune_def runeError_def)
        with high None 2(2) [OF high None] show ?thesis
          by (auto simp: squeeze_uEscape strTok_uEscape surrogate_def unquote_uEscape dest: uEscape_printable [rotated])
      next
        case (Some k)
        note f = runeTail_facts [OF Some]
        show ?thesis
        proof (cases "lineSeparator c s")
          case None
          note IH = 2(3) [OF high Some None]
          let ?t = "take k s @ quoteBody (drop k s)"
          have "strTok ?t" using IH f(3) by (intro strTok_high) auto
          then have "strTok (c # ?t)" using c high by (intro strTok.plain) auto
          moreover have "squeeze In (c # ?t @ x) = c # ?t @ squeeze In x"
            using c IH lineSeparator_take [OF Some None, of "quoteBody (drop k s) @ x"] f(3)
            by (simp add: squeeze_In_high)
          moreover have "unquote (c # ?t) = c # take k s @ toValidUTF8 (drop k s)"
            using high c(2) f(2,4) IH by simp
          moreover have "\<forall>y \<in> set (c # ?t). 32 \<le> code y" using IH f(3) high by force
          moreover have "quoteBody (c # s) = c # ?t" "toValidUTF8 (c # s) = c # take k s @ toValidUTF8 (drop k s)"
            using high Some None by simp_all
          ultimately show ?thesis by (simp only: append_Cons append_assoc)
        next
          case (Some r)
          note r = lineSeparator_Some [OF Some \<open>runeTail c s = Some k\<close>]
          have "r < 65536" "\<not> surrogate r" using r(2) by (auto simp: surrogate_def)
          then show ?thesis using high \<open>runeTail c s = Some k\<close> Some 2(4) [OF high \<open>runeTail c s = Some k\<close> Some] r
            by (auto simp: squeeze_uEscape strTok_uEscape unquote_uEscape dest: uEscape_printable [rotated])
        qed
      qed
    qed
  qed (auto intro: strTok.Nil)
  then show ?A ?B ?C ?D by blast+
qed

section \<open>Numbers\<close>

definition nodigit :: "bytes \<Rightarrow> bool" where
  "nodigit r \<longleftrightarrow> (case r of [] \<Rightarrow> True | c # _ \<Rightarrow> \<not> isDigit c)"

definition digits :: "bytes \<Rightarrow> bool" where
  "digits t \<longleftrightarrow> t \<noteq> [] \<and> list_all isDigit t"

lemma scanDigits_Some: "scanDigits s = Some (t, r) \<Longrightarrow> s = t @ r \<and> digits t"
  by (auto simp: scanDigits_def digits_def list_all_iff dest: set_takeWhileD split: if_splits)

lemma scanDigits_digits: "digits t \<Longrightarrow> nodigit r \<Longrightarrow> scanDigits (t @ r) = Some (t, r)"
proof -
  assume "digits t" and r: "nodigit r"
  then have t: "t \<noteq> []" "\<forall>c \<in> set t. isDigit c" by (auto simp: digits_def list_all_iff)
  have "takeWhile isDigit r = []" "dropWhile isDigit r = r" using r by (cases r; simp add: nodigit_def)+
  with t show ?thesis by (simp add: scanDigits_def)
qed

definition fracTok :: "bytes \<Rightarrow> bool" where
  "fracTok t \<longleftrightarrow> t = [] \<or> (\<exists>ds. t = CHR ''.'' # ds \<and> digits ds)"

definition expTok :: "bytes \<Rightarrow> bool" where
  "expTok t \<longleftrightarrow> t = [] \<or> (\<exists>e g ds. t = e # g @ ds \<and> e \<in> {CHR ''e'', CHR ''E''} \<and> g \<in> {[], ''+'', ''-''} \<and> digits ds)"

definition numTok :: "bytes \<Rightarrow> bool" where
  "numTok v \<longleftrightarrow> (\<exists>g i f e. v = g @ i @ f @ e \<and> g \<in> {[], ''-''} \<and>
     (i = ''0'' \<or> digits i \<and> hd i \<noteq> CHR ''0'') \<and> fracTok f \<and> expTok e)"

definition delim :: "bytes \<Rightarrow> bool" where
  "delim r \<longleftrightarrow> (case r of [] \<Rightarrow> True | c # _ \<Rightarrow> isSpace c \<or> c = CHR '','' \<or> c = CHR '']'' \<or> c = CHR ''}'')"

lemma isDigit_CHR: "isDigit (CHR ''0'')" "\<not> isDigit (CHR ''-'')" "\<not> isDigit (CHR ''+'')" "\<not> isDigit (CHR ''.'')"
  "\<not> isDigit (CHR ''e'')" "\<not> isDigit (CHR ''E'')" "\<not> isDigit (CHR '','')" "\<not> isDigit (CHR '']'')" "\<not> isDigit (CHR ''}'')"
  by (simp_all add: isDigit_def)

lemma isSpace_not_digit: "isSpace c \<Longrightarrow> \<not> isDigit c"
  by (auto simp: isSpace_def isDigit_def)

lemma delim_Cons:
  assumes "delim (c # r)"
  shows "\<not> isDigit c" "c \<noteq> CHR ''.''" "c \<noteq> CHR ''e''" "c \<noteq> CHR ''E''"
proof -
  have "c \<in> {CHR '' '', CHR 0x09, CHR 0x0D, CHR 0x0A, CHR '','', CHR '']'', CHR ''}''}"
    using assms by (auto simp: delim_def isSpace_def)
  then show "\<not> isDigit c" "c \<noteq> CHR ''.''" "c \<noteq> CHR ''e''" "c \<noteq> CHR ''E''"
    by (auto simp: isDigit_def)
qed

lemma delim_simps:
  assumes "delim r"
  shows "nodigit r" "scanExp r = Some ([], r)" "scanFrac r = Some ([], r)"
proof -
  show "nodigit r" using assms by (cases r) (simp_all add: nodigit_def delim_Cons)
  show "scanExp r = Some ([], r)" using assms by (cases r) (simp_all add: scanExp_def delim_Cons)
  show "scanFrac r = Some ([], r)" using assms by (cases r) (simp_all add: scanFrac_def delim_Cons)
qed

lemma scanFrac_Some:
  assumes "scanFrac s = Some (t, r)"
  shows "s = t @ r \<and> fracTok t"
proof (cases s)
  case (Cons c s')
  show ?thesis
  proof (cases "c = CHR ''.''")
    case True
    with Cons assms obtain ds where "scanDigits s' = Some (ds, r)" "t = c # ds" by (auto simp: scanFrac_def)
    with Cons True show ?thesis by (auto simp: fracTok_def dest: scanDigits_Some)
  next
    case False
    with Cons assms show ?thesis by (simp add: scanFrac_def fracTok_def)
  qed
qed (use assms in \<open>simp add: scanFrac_def fracTok_def\<close>)

lemma scanExp_Some:
  assumes "scanExp s = Some (t, r)"
  shows "s = t @ r \<and> expTok t"
proof (cases s)
  case (Cons e s')
  show ?thesis
  proof (cases "e = CHR ''e'' \<or> e = CHR ''E''")
    case True
    with Cons assms obtain g s'' where s': "s' = g # s''" by (cases s') (auto simp: scanExp_def)
    show ?thesis
    proof (cases "g = CHR ''+'' \<or> g = CHR ''-''")
      case g: True
      with True Cons assms s' obtain ds where ds: "scanDigits s'' = Some (ds, r)" "t = e # g # ds"
        by (auto simp: scanExp_def)
      have "expTok (e # [g] @ ds)" unfolding expTok_def using True g scanDigits_Some [OF ds(1)] by blast
      with ds Cons s' scanDigits_Some [OF ds(1)] show ?thesis by simp
    next
      case False
      with True Cons assms s' obtain ds where ds: "scanDigits s' = Some (ds, r)" "t = e # ds"
        by (auto simp: scanExp_def)
      have "expTok (e # [] @ ds)" unfolding expTok_def using True scanDigits_Some [OF ds(1)] by blast
      with ds Cons s' scanDigits_Some [OF ds(1)] show ?thesis by simp
    qed
  next
    case False
    with Cons assms show ?thesis by (simp add: scanExp_def expTok_def)
  qed
qed (use assms in \<open>simp add: scanExp_def expTok_def\<close>)

lemma scanInt_Some:
  assumes "scanInt s = Some (t, r)"
  shows "s = t @ r \<and> (t = ''0'' \<or> digits t \<and> hd t \<noteq> CHR ''0'')"
proof (cases s)
  case (Cons c s')
  show ?thesis
  proof (cases "c = CHR ''0''")
    case True
    with Cons assms show ?thesis by (simp add: scanInt_def)
  next
    case False
    with Cons assms have "scanDigits s = Some (t, r)" by (simp add: scanInt_def)
    then have "s = t @ r" "digits t" by (auto dest: scanDigits_Some)
    with Cons False show ?thesis by (cases t) (auto simp: digits_def)
  qed
qed (use assms in \<open>simp add: scanInt_def\<close>)

lemma scanNum_tok:
  assumes "scanNum s = Some (v, r)"
  shows "s = v @ r \<and> numTok v"
proof -
  obtain g s1 i s2 f s3 e where steps: "scanSign s = (g, s1)" "scanInt s1 = Some (i, s2)" "scanFrac s2 = Some (f, s3)"
      "scanExp s3 = Some (e, r)" "v = g @ i @ f @ e"
    using assms by (auto simp: scanNum_def split: prod.splits option.splits)
  have "s = g @ s1 \<and> g \<in> {[], ''-''}" using steps(1) by (auto simp: scanSign_def split: list.splits if_splits)
  moreover note scanInt_Some [OF steps(2)] scanFrac_Some [OF steps(3)] scanExp_Some [OF steps(4)]
  ultimately have "s = g @ i @ f @ e @ r" "numTok v" unfolding numTok_def steps(5) by blast+
  then show ?thesis by (simp add: steps(5))
qed

lemma expTok_scan:
  assumes "expTok e" and "delim r"
  shows "scanExp (e @ r) = Some (e, r)" "nodigit (e @ r)" "scanFrac (e @ r) = Some ([], e @ r)"
proof -
  have "scanExp (e @ r) = Some (e, r) \<and> nodigit (e @ r) \<and> scanFrac (e @ r) = Some ([], e @ r)"
  proof (cases "e = []")
    case True
    with delim_simps [OF assms(2)] show ?thesis by simp
  next
    case False
    with assms(1) obtain x g ds where e: "e = x # g @ ds" "x \<in> {CHR ''e'', CHR ''E''}" "g \<in> {[], ''+'', ''-''}" "digits ds"
      by (auto simp: expTok_def)
    note ds = scanDigits_digits [OF e(4) delim_simps(1) [OF assms(2)]]
    obtain y ys where y: "ds = y # ys" "isDigit y" using e(4) by (cases ds) (auto simp: digits_def)
    then have "y \<noteq> CHR ''+''" "y \<noteq> CHR ''-''" using isDigit_CHR by auto
    moreover have "x \<noteq> CHR ''.''" "\<not> isDigit x" "x = CHR ''e'' \<or> x = CHR ''E''" using e(2) isDigit_CHR by auto
    ultimately show ?thesis using e(1,3) ds y(1)
      by (elim insertE) (simp_all add: scanExp_def scanFrac_def nodigit_def)
  qed
  then show "scanExp (e @ r) = Some (e, r)" "nodigit (e @ r)" "scanFrac (e @ r) = Some ([], e @ r)" by blast+
qed

lemma numTok_scan:
  assumes "numTok v" and "delim r"
  shows "scanNum (v @ r) = Some (v, r)"
proof -
  obtain g i f e where v: "v = g @ i @ f @ e" "g \<in> {[], ''-''}" "i = ''0'' \<or> digits i \<and> hd i \<noteq> CHR ''0''" "fracTok f" "expTok e"
    using assms(1) by (auto simp: numTok_def)
  note e = expTok_scan [OF v(5) assms(2)]
  have f: "scanFrac (f @ e @ r) = Some (f, e @ r) \<and> nodigit (f @ e @ r)"
  proof (cases "f = []")
    case False
    with v(4) obtain ds where "f = CHR ''.'' # ds" "digits ds" by (auto simp: fracTok_def)
    with scanDigits_digits [OF _ e(2)] show ?thesis by (simp add: scanFrac_def nodigit_def isDigit_CHR)
  qed (simp add: e)
  have i: "scanInt (i @ f @ e @ r) = Some (i, f @ e @ r)"
  proof (cases "i = ''0''")
    case False
    then have "digits i" "hd i \<noteq> CHR ''0''" "i \<noteq> []" using v(3) by (auto simp: digits_def)
    with scanDigits_digits [of i "f @ e @ r"] f show ?thesis by (cases i) (simp_all add: scanInt_def)
  qed (simp add: scanInt_def)
  have "i \<noteq> []" "isDigit (hd i)" using v(3) by (auto simp: digits_def isDigit_CHR list_all_iff)
  then have "hd i \<noteq> CHR ''-''" using isDigit_CHR by auto
  with \<open>i \<noteq> []\<close> have "scanSign (g @ i @ f @ e @ r) = (g, i @ f @ e @ r)"
    using v(2) by (cases i) (auto simp: scanSign_def)
  then show ?thesis by (simp add: scanNum_def v(1) i f e)
qed

section \<open>What the scanner reads\<close>

lemma skipSpace_split: "\<exists>w. s = w @ skipSpace s \<and> (\<forall>c \<in> set w. isSpace c)"
  by (rule exI [of _ "takeWhile isSpace s"]) (auto simp: skipSpace_def dest: set_takeWhileD)

lemma space_before: "skipSpace s = q \<Longrightarrow> \<exists>w. s = w @ q \<and> (\<forall>c \<in> set w. isSpace c)"
  using skipSpace_split [of s] by simp

lemma skipSpace_Cons: "\<not> isSpace c \<Longrightarrow> skipSpace (c # s) = c # s"
  by (simp add: skipSpace_def)

lemma squeeze_space: "\<forall>c \<in> set w. isSpace c \<Longrightarrow> squeeze Out (w @ s) = squeeze Out s"
  by (induction w) auto

lemma squeeze_skipSpace: "squeeze Out (skipSpace s) = squeeze Out s"
  using skipSpace_split [of s] squeeze_space by metis

lemma consumed_append [simp]: "consumed (p @ r) r = p"
  by (simp add: consumed_def)

lemma scanLit_Some: "scanLit lit s = Some (v, r) \<Longrightarrow> v = lit \<and> s = lit @ r"
  by (auto simp: scanLit_def split: if_splits) (metis append_take_drop_id)

lemma scanValue_cases [consumes 1, case_names str obj arr lit num]:
  assumes "scanValue (Suc n) d s = Some (v, r)"
  obtains t where "s = DQ # t @ DQ # r" "strTok t" "v = DQ # t @ [DQ]"
  | s' ms where "s = CHR ''{'' # s'" "d < maxNestingDepth" "scanMembers n (Suc d) True (skipSpace s') = Some (ms, r)" "v = consumed s r"
  | s' vs where "s = CHR ''['' # s'" "d < maxNestingDepth" "scanElems n (Suc d) True (skipSpace s') = Some (vs, r)" "v = consumed s r"
  | lit where "lit \<in> {''null'', ''true'', ''false''}" "s = lit @ r" "v = lit"
  | "numTok v" "s = v @ r"
proof (cases s)
  case (Cons c s')
  consider "c = DQ" | "c = CHR ''{''" | "c = CHR ''[''" | "c = CHR ''n''" | "c = CHR ''t''" | "c = CHR ''f''"
    | "c \<notin> {DQ, CHR ''{'', CHR ''['', CHR ''n'', CHR ''t'', CHR ''f''}" by blast
  then show ?thesis
  proof cases
    case 1
    with assms Cons obtain t where "scanStr s' = Some (t, r)" "v = consumed s r" by auto
    with that(1) 1 Cons scanStr_tok [of s' t r] show ?thesis
      using consumed_append [of "DQ # t @ [DQ]" r] by simp
  next
    case 2
    with assms Cons obtain ms where "scanMembers n (Suc d) True (skipSpace s') = Some (ms, r)" "v = consumed s r" "d < maxNestingDepth"
      by (auto split: if_splits)
    with that(2) 2 Cons show ?thesis by simp
  next
    case 3
    with assms Cons obtain vs where "scanElems n (Suc d) True (skipSpace s') = Some (vs, r)" "v = consumed s r" "d < maxNestingDepth"
      by (auto split: if_splits)
    with that(3) 3 Cons show ?thesis by simp
  next
    case 4
    with assms Cons have "scanLit ''null'' s = Some (v, r)" by simp
    from scanLit_Some [OF this] show ?thesis by (intro that(4) [of "''null''"]) simp_all
  next
    case 5
    with assms Cons have "scanLit ''true'' s = Some (v, r)" by simp
    from scanLit_Some [OF this] show ?thesis by (intro that(4) [of "''true''"]) simp_all
  next
    case 6
    with assms Cons have "scanLit ''false'' s = Some (v, r)" by simp
    from scanLit_Some [OF this] show ?thesis by (intro that(4) [of "''false''"]) simp_all
  next
    case 7
    with assms Cons have "scanNum s = Some (v, r)" by simp
    with that(5) scanNum_tok show ?thesis by blast
  qed
qed (use assms in simp)

lemma scanElems_cases [consumes 1, case_names empty last more]:
  assumes "scanElems (Suc n) d start s = Some (vs, r)"
  obtains "start" "s = CHR '']'' # r" "vs = []"
  | v r0 where "scanValue n d s = Some (v, r0)" "skipSpace r0 = CHR '']'' # r" "vs = [v]"
  | v r0 r1 vs' where "scanValue n d s = Some (v, r0)" "skipSpace r0 = CHR '','' # r1"
      "scanElems n d False (skipSpace r1) = Some (vs', r)" "vs = v # vs'"
proof (cases "start \<and> take 1 s = '']''")
  case True
  with assms that(1) show ?thesis by (cases s) auto
next
  case False
  with assms obtain v r0 c r1 where v: "scanValue n d s = Some (v, r0)" "skipSpace r0 = c # r1"
    by (auto split: if_splits option.splits list.splits)
  show ?thesis
  proof (cases "c = CHR '',''")
    case True
    with v assms False that(3) show ?thesis by (auto split: if_splits)
  next
    case c: False
    with v assms False that(2) show ?thesis by (auto split: if_splits)
  qed
qed

lemma scanMembers_cases [consumes 1, case_names empty last more]:
  assumes "scanMembers (Suc n) d start s = Some (ms, r)"
  obtains "start" "s = CHR ''}'' # r" "ms = []"
  | k r0 r1 v r2 where "s = DQ # k @ DQ # r0" "strTok k" "skipSpace r0 = CHR '':'' # r1"
      "scanValue n d (skipSpace r1) = Some (v, r2)" "skipSpace r2 = CHR ''}'' # r" "ms = [(k, v)]"
  | k r0 r1 v r2 r3 ms' where "s = DQ # k @ DQ # r0" "strTok k" "skipSpace r0 = CHR '':'' # r1"
      "scanValue n d (skipSpace r1) = Some (v, r2)" "skipSpace r2 = CHR '','' # r3"
      "scanMembers n d False (skipSpace r3) = Some (ms', r)" "ms = (k, v) # ms'"
proof (cases "start \<and> take 1 s = ''}''")
  case True
  with assms that(1) show ?thesis by (cases s) auto
next
  case False
  with assms have dq: "take 1 s = [DQ]" by (simp split: if_splits)
  with False assms obtain k r0 where k: "scanStr (drop 1 s) = Some (k, r0)"
    by (cases "scanStr (drop 1 s)") auto
  with dq have s: "s = DQ # k @ DQ # r0" "strTok k" using scanStr_tok [OF k] by (cases s; simp)+
  from False dq k assms obtain r1 where r1: "skipSpace r0 = CHR '':'' # r1"
    by (simp split: list.splits if_splits)
  with False dq k assms obtain v r2 where v: "scanValue n d (skipSpace r1) = Some (v, r2)"
    by (cases "scanValue n d (skipSpace r1)") auto
  with False dq k r1 assms obtain c r3 where c: "skipSpace r2 = c # r3"
    by (simp split: list.splits)
  show ?thesis
  proof (cases "c = CHR '',''")
    case True
    with False dq k r1 v c assms that(3) [OF s r1 v] show ?thesis by auto
  next
    case c': False
    with False dq k r1 v c assms that(2) [OF s r1 v] show ?thesis by (auto split: if_splits)
  qed
qed

section \<open>Compact texts\<close>

definition printable :: "bytes \<Rightarrow> bool" where
  "printable s \<longleftrightarrow> (\<forall>c \<in> set s. 32 \<le> code c)"

lemma printable_simps [simp]:
  "printable []" "printable (c # s) \<longleftrightarrow> 32 \<le> code c \<and> printable s" "printable (s @ t) \<longleftrightarrow> printable s \<and> printable t"
  by (auto simp: printable_def)

definition keyTok :: "bytes \<Rightarrow> bool" where
  \<comment> \<open>the text of a string that compaction leaves as it is\<close>
  "keyTok k \<longleftrightarrow> strTok k \<and> printable k \<and> (\<forall>x. squeeze In (k @ DQ # x) = k @ DQ # squeeze Out x)"

definition jtext :: "nat \<Rightarrow> bytes \<Rightarrow> bool" where
  \<comment> \<open>a value that the scanner reads back as it is, nested \<open>d\<close> levels deep, and that is compact\<close>
  "jtext d v \<longleftrightarrow> v \<noteq> [] \<and> \<not> isSpace (hd v) \<and> hd v \<noteq> CHR '']'' \<and> printable v \<and>
     (\<forall>x. squeeze Out (v @ x) = v @ squeeze Out x) \<and>
     (\<forall>n r. delim r \<longrightarrow> 2 * length v < n \<longrightarrow> scanValue n d (v @ r) = Some (v, r))"

lemma jtext_scan: "jtext d v \<Longrightarrow> delim r \<Longrightarrow> 2 * length v < n \<Longrightarrow> scanValue n d (v @ r) = Some (v, r)"
  by (simp add: jtext_def)

lemma jtext_skipSpace: "jtext d v \<Longrightarrow> skipSpace (v @ r) = v @ r"
  by (cases v) (simp_all add: jtext_def skipSpace_Cons)

lemma delim_simps' [simp]:
  "delim []" "delim (CHR '','' # r)" "delim (CHR '']'' # r)" "delim (CHR ''}'' # r)" "isSpace c \<Longrightarrow> delim (c # r)"
  by (simp_all add: delim_def)

lemma keyTok_quoteBody: "keyTok (quoteBody s)"
  using quoteBody_facts(1-3) [of s] by (simp add: keyTok_def printable_def)

lemma not_isSpace [simp]:
  "\<not> isSpace DQ" "\<not> isSpace (CHR ''{'')" "\<not> isSpace (CHR ''['')" "\<not> isSpace (CHR ''n'')" "\<not> isSpace (CHR ''t'')"
  "\<not> isSpace (CHR ''f'')" "\<not> isSpace (CHR '','')" "\<not> isSpace (CHR '']'')" "\<not> isSpace (CHR ''}'')" "\<not> isSpace (CHR '':'')"
  by (simp_all add: isSpace_def)

lemma jtext_string:
  assumes "keyTok k"
  shows "jtext d (DQ # k @ [DQ])"
proof -
  have "scanValue n d (DQ # k @ DQ # r) = Some (DQ # k @ [DQ], r)" if "0 < n" for n r
    using that assms strTok_scan [of k r] consumed_append [of "DQ # k @ [DQ]" r]
    by (cases n) (simp_all add: keyTok_def)
  then show ?thesis using assms by (simp add: jtext_def keyTok_def)
qed

lemma jtext_jstring [simp]: "jtext d (jstring s)"
  unfolding jstring_def by (rule jtext_string [OF keyTok_quoteBody])

lemma squeeze_Out_plain:
  "\<forall>c \<in> set v. \<not> isSpace c \<and> c \<noteq> DQ \<Longrightarrow> squeeze Out (v @ x) = v @ squeeze Out x"
  by (induction v) auto

lemma jtext_lit:
  assumes "v \<in> {''null'', ''true'', ''false''}"
  shows "jtext d v"
proof -
  have "scanValue n d (v @ r) = Some (v, r)" if "0 < n" for n r
    using that assms by (cases n) (auto simp: scanLit_def)
  moreover have "\<forall>c \<in> set v. \<not> isSpace c \<and> c \<noteq> DQ \<and> 32 \<le> code c" "v \<noteq> []" "\<not> isSpace (hd v)" "hd v \<noteq> CHR '']''"
    using assms by (auto simp: isSpace_def code_def)
  ultimately show ?thesis by (simp add: jtext_def squeeze_Out_plain printable_def)
qed

lemma numTok_chars:
  assumes "numTok v"
  shows "v \<noteq> []" "\<forall>c \<in> set v. isDigit c \<or> c \<in> {CHR ''-'', CHR ''+'', CHR ''.'', CHR ''e'', CHR ''E''}"
    "isDigit (hd v) \<or> hd v = CHR ''-''"
proof -
  obtain g i f e where v: "v = g @ i @ f @ e" "g \<in> {[], ''-''}" "i = ''0'' \<or> digits i \<and> hd i \<noteq> CHR ''0''" "fracTok f" "expTok e"
    using assms by (auto simp: numTok_def)
  have i: "i \<noteq> []" "\<forall>c \<in> set i. isDigit c" using v(3) by (auto simp: digits_def list_all_iff isDigit_CHR)
  show "v \<noteq> []" using i(1) by (simp add: v(1))
  have "isDigit (hd i)" using i by simp
  then show "isDigit (hd v) \<or> hd v = CHR ''-''" using v(2) i(1) by (auto simp: v(1))
  have "\<forall>c \<in> set f. isDigit c \<or> c = CHR ''.''" using v(4) by (auto simp: fracTok_def digits_def list_all_iff)
  moreover have "\<forall>c \<in> set e. isDigit c \<or> c \<in> {CHR ''-'', CHR ''+'', CHR ''e'', CHR ''E''}"
    using v(5) by (auto simp: expTok_def digits_def list_all_iff)
  ultimately show "\<forall>c \<in> set v. isDigit c \<or> c \<in> {CHR ''-'', CHR ''+'', CHR ''.'', CHR ''e'', CHR ''E''}"
    using v(2) i(2) by (auto simp: v(1))
qed

lemma digit_codes: "isDigit c \<Longrightarrow> 48 \<le> code c \<and> code c \<le> 57"
  by (simp add: isDigit_def code_def)

lemma digit_neq: "isDigit c \<Longrightarrow> \<not> isDigit x \<Longrightarrow> c \<noteq> x"
  by auto

lemma jtext_num:
  assumes "numTok v"
  shows "jtext d v"
proof -
  have start: "hd v \<notin> {DQ, CHR ''{'', CHR ''['', CHR '']'', CHR ''n'', CHR ''t'', CHR ''f''}"
    using numTok_chars(3) [OF assms] by (auto simp: isDigit_def)
  have "scanValue n d (v @ r) = Some (v, r)" if "0 < n" "delim r" for n r
    using that start numTok_scan [OF assms that(2)] numTok_chars(1) [OF assms]
    by (cases n; cases v) simp_all
  moreover have chars: "\<not> isSpace c \<and> c \<noteq> DQ \<and> 32 \<le> code c" if mem: "c \<in> set v" for c
  proof -
    consider "isDigit c" | "c \<in> {CHR ''-'', CHR ''+'', CHR ''.'', CHR ''e'', CHR ''E''}"
      using numTok_chars(2) [OF assms, THEN bspec, OF mem] by (rule disjE)
    then show ?thesis
    proof cases
      case 1
      with digit_codes [OF 1] show ?thesis by (auto simp: isSpace_def code_def isDigit_def)
    qed (auto simp: isSpace_def code_def)
  qed
  moreover have "v \<noteq> []" "\<not> isSpace (hd v)" using numTok_chars(1) [OF assms] chars [of "hd v"] by auto
  ultimately show ?thesis using start by (simp add: jtext_def squeeze_Out_plain printable_def)
qed

lemma numTok_showNat: "numTok (showNat n)"
proof -
  have "showNat n = ''0'' \<or> digits (showNat n) \<and> hd (showNat n) \<noteq> CHR ''0''"
  proof (cases "n = 0")
    case True
    then show ?thesis by (simp add: showNat.simps [of 0])
  next
    case False
    then show ?thesis using showNat_head_not_zero [of n] showNat_digits [of n] by (simp add: digits_def)
  qed
  moreover have "fracTok []" "expTok []" by (simp_all add: fracTok_def expTok_def)
  ultimately have "numTok ([] @ showNat n @ [] @ [])" unfolding numTok_def by blast
  then show ?thesis by simp
qed

lemma jtext_showNat [simp]: "jtext d (showNat n)"
  by (rule jtext_num [OF numTok_showNat])

lemma jtext_showInt [simp]: "jtext d (showInt i)"
proof (cases "i < 0")
  case True
  obtain g j f e where v: "showNat (nat (- i)) = g @ j @ f @ e" "g \<in> {[], ''-''}" "j = ''0'' \<or> digits j \<and> hd j \<noteq> CHR ''0''"
      "fracTok f" "expTok e"
    using numTok_showNat [of "nat (- i)"] by (auto simp: numTok_def)
  have "g = []" using v(1,2) showNat_hd_digit [of "nat (- i)"] by (auto simp: isDigit_CHR)
  with v have "numTok (''-'' @ j @ f @ e)" unfolding numTok_def by blast
  then show ?thesis using True v(1) \<open>g = []\<close> by (auto simp: showInt_def intro: jtext_num)
next
  case False
  then show ?thesis by (simp add: showInt_def)
qed

section \<open>Arrays and objects\<close>

lemma join_Cons2: "join '','' (v # w # vs) = v @ '','' @ join '','' (w # vs)"
  by simp

lemma join_Cons_ne: "vs \<noteq> [] \<Longrightarrow> join '','' (v # vs) = v @ '','' @ join '','' vs"
  by (cases vs) simp_all

lemma scanElems_join:
  assumes "vs \<noteq> []" and "\<And>v. v \<in> set vs \<Longrightarrow> jtext d v" and "2 * length (join '','' vs) + 2 \<le> n"
  shows "scanElems n d start (join '','' vs @ CHR '']'' # r) = Some (vs, r)"
  using assms
proof (induction vs arbitrary: n start)
  case (Cons v vs)
  note v = Cons.prems(2) [of v, simplified]
  obtain m where n: "n = Suc m" using Cons.prems(3) by (cases n) auto
  have hd: "take 1 (v @ x) \<noteq> '']''" "skipSpace (v @ x) = v @ x" for x
    using v jtext_skipSpace [OF v] by (cases v; auto simp: jtext_def)+
  show ?case
  proof (cases vs)
    case Nil
    have "scanValue m d (v @ CHR '']'' # r) = Some (v, CHR '']'' # r)"
      using v Cons.prems(3) n Nil by (intro jtext_scan) auto
    then show ?thesis using hd [of "CHR '']'' # r"] by (simp add: n Nil skipSpace_Cons)
  next
    case (Cons w ws)
    let ?rest = "join '','' (w # ws) @ CHR '']'' # r"
    have "scanValue m d (v @ CHR '','' # ?rest) = Some (v, CHR '','' # ?rest)"
      using v Cons.prems(3) n Cons by (intro jtext_scan) auto
    moreover have "scanElems m d False ?rest = Some (vs, r)"
      using Cons.IH [of m False] Cons.prems Cons n by auto
    moreover have "skipSpace ?rest = ?rest"
      using jtext_skipSpace [OF Cons.prems(2) [of w]] Cons by simp
    ultimately show ?thesis
      using hd(1) [of "CHR '','' # ?rest"] by (simp add: n Cons skipSpace_Cons del: join_simps(2) add: join_Cons2)
  qed
qed simp

lemma squeeze_join:
  assumes "\<And>v. v \<in> set vs \<Longrightarrow> \<forall>x. squeeze Out (v @ x) = v @ squeeze Out x"
  shows "squeeze Out (join '','' vs @ x) = join '','' vs @ squeeze Out x"
  using assms
proof (induction vs)
  case (Cons v vs)
  then show ?case by (cases vs) (simp_all add: join_Cons2 del: join_simps(2), simp)
qed simp

lemma printable_join: "(\<And>v. v \<in> set vs \<Longrightarrow> printable v) \<Longrightarrow> printable (join '','' vs)"
proof (induction vs)
  case (Cons v vs)
  then show ?case by (cases vs) (simp_all add: join_Cons2 code_def del: join_simps(2), simp)
qed simp

lemma jtext_jarray:
  assumes "d < maxNestingDepth" and vs: "\<And>v. v \<in> set vs \<Longrightarrow> jtext (Suc d) v"
  shows "jtext d (jarray vs)"
proof -
  have "scanValue n d (jarray vs @ r) = Some (jarray vs, r)" if n: "2 * length (jarray vs) < n" for n r
  proof -
    obtain m where m: "n = Suc m" using n by (cases n) auto
    have "scanElems m (Suc d) True (skipSpace (join '','' vs @ CHR '']'' # r)) = Some (vs, r)"
    proof (cases "vs = []")
      case True
      then show ?thesis using n m by (cases m) (simp_all add: skipSpace_Cons jarray_def)
    next
      case False
      then obtain w ws where "vs = w # ws" by (cases vs) auto
      then have "skipSpace (join '','' vs @ CHR '']'' # r) = join '','' vs @ CHR '']'' # r"
        using jtext_skipSpace [OF vs [of w]] by simp
      moreover have "scanElems m (Suc d) True (join '','' vs @ CHR '']'' # r) = Some (vs, r)"
        using False vs n m by (intro scanElems_join) (auto simp: jarray_def)
      ultimately show ?thesis by simp
    qed
    then show ?thesis
      using assms(1) m consumed_append [of "jarray vs" r] by (simp add: jarray_def)
  qed
  moreover have "squeeze Out (jarray vs @ x) = jarray vs @ squeeze Out x" for x
    using squeeze_join [of vs "CHR '']'' # x"] vs by (simp add: jarray_def jtext_def)
  moreover have "printable (jarray vs)"
    using printable_join [of vs] vs by (simp add: jarray_def jtext_def code_def)
  ultimately show ?thesis by (simp add: jtext_def) (simp add: jarray_def)
qed

definition memberText :: "bytes \<times> bytes \<Rightarrow> bytes" where
  "memberText m = DQ # fst m @ [DQ] @ '':'' @ snd m"

definition jmember :: "nat \<Rightarrow> bytes \<times> bytes \<Rightarrow> bool" where
  "jmember d m \<longleftrightarrow> keyTok (fst m) \<and> jtext d (snd m)"

lemma jobject_alt: "jobject ms = ''{'' @ join '','' (map memberText ms) @ ''}''"
  by (simp add: jobject_def memberText_def [abs_def] case_prod_unfold)

lemma scanMembers_join:
  assumes "ms \<noteq> []" and "\<And>m. m \<in> set ms \<Longrightarrow> jmember d m" and "2 * length (join '','' (map memberText ms)) + 2 \<le> n"
  shows "scanMembers n d start (join '','' (map memberText ms) @ CHR ''}'' # r) = Some (ms, r)"
  using assms
proof (induction ms arbitrary: n start)
  case (Cons m ms)
  obtain k v where m: "m = (k, v)" by (cases m)
  have kv: "keyTok k" "jtext d v" using Cons.prems(2) [of m] by (simp_all add: m jmember_def)
  obtain f where n: "n = Suc f" using Cons.prems(3) by (cases n) auto
  have key: "scanStr (k @ DQ # x) = Some (k, x)" for x using kv(1) by (simp add: keyTok_def strTok_scan)
  have val: "skipSpace (v @ x) = v @ x" for x by (rule jtext_skipSpace [OF kv(2)])
  show ?case
  proof (cases ms)
    case Nil
    have "scanValue f d (v @ CHR ''}'' # r) = Some (v, CHR ''}'' # r)"
      using kv(2) Cons.prems(3) n Nil by (intro jtext_scan) (auto simp: memberText_def m)
    then show ?thesis by (simp add: n Nil m memberText_def key val skipSpace_Cons)
  next
    case (Cons w ws)
    let ?rest = "join '','' (map memberText (w # ws)) @ CHR ''}'' # r"
    have "scanValue f d (v @ CHR '','' # ?rest) = Some (v, CHR '','' # ?rest)"
      using kv(2) Cons.prems(3) n Cons by (intro jtext_scan) (auto simp: memberText_def m)
    moreover have "2 * length (join '','' (map memberText ms)) + 2 \<le> f"
      using Cons.prems(3) n Cons by (simp add: memberText_def [of m] join_Cons2 del: join_simps(2))
    then have "scanMembers f d False ?rest = Some (ms, r)"
      using Cons.IH [of f False] Cons.prems(2) Cons by simp
    moreover have "skipSpace ?rest = ?rest" by (simp add: memberText_def skipSpace_Cons)
    ultimately show ?thesis
      by (simp add: n Cons m key val skipSpace_Cons memberText_def [of "(k, v)"] del: join_simps(2) add: join_Cons2)
  qed
qed simp

lemma memberText_facts:
  assumes "jmember d m"
  shows "\<forall>x. squeeze Out (memberText m @ x) = memberText m @ squeeze Out x" "printable (memberText m)"
  using assms by (auto simp: jmember_def memberText_def keyTok_def jtext_def code_def)

lemma jtext_jobject:
  assumes "d < maxNestingDepth" and ms: "\<And>m. m \<in> set ms \<Longrightarrow> jmember (Suc d) m"
  shows "jtext d (jobject ms)"
proof -
  have "scanValue n d (jobject ms @ r) = Some (jobject ms, r)" if n: "2 * length (jobject ms) < n" for n r
  proof -
    obtain f where f: "n = Suc f" using n by (cases n) auto
    have "scanMembers f (Suc d) True (skipSpace (join '','' (map memberText ms) @ CHR ''}'' # r)) = Some (ms, r)"
    proof (cases "ms = []")
      case True
      then show ?thesis using n f by (cases f) (simp_all add: skipSpace_Cons jobject_alt)
    next
      case False
      then obtain w ws where "ms = w # ws" by (cases ms) auto
      then have "skipSpace (join '','' (map memberText ms) @ CHR ''}'' # r) = join '','' (map memberText ms) @ CHR ''}'' # r"
        by (simp add: memberText_def skipSpace_Cons)
      moreover have "scanMembers f (Suc d) True (join '','' (map memberText ms) @ CHR ''}'' # r) = Some (ms, r)"
        using False ms n f by (intro scanMembers_join) (auto simp: jobject_alt)
      ultimately show ?thesis by simp
    qed
    then show ?thesis
      using assms(1) f consumed_append [of "jobject ms" r] by (simp add: jobject_alt)
  qed
  moreover have "squeeze Out (jobject ms @ x) = jobject ms @ squeeze Out x" for x
  proof -
    have "\<forall>x. squeeze Out (v @ x) = v @ squeeze Out x" if "v \<in> set (map memberText ms)" for v
    proof -
      from that have "v \<in> memberText ` set ms" by simp
      then obtain m where "v = memberText m" "m \<in> set ms" by (rule imageE)
      with memberText_facts(1) [OF ms] show ?thesis by blast
    qed
    then have "squeeze Out (join '','' (map memberText ms) @ CHR ''}'' # x) =
        join '','' (map memberText ms) @ squeeze Out (CHR ''}'' # x)" by (rule squeeze_join)
    then show ?thesis by (simp add: jobject_alt)
  qed
  moreover have "printable (jobject ms)"
  proof -
    have "printable v" if "v \<in> set (map memberText ms)" for v
    proof -
      from that have "v \<in> memberText ` set ms" by simp
      then obtain m where "v = memberText m" "m \<in> set ms" by (rule imageE)
      with memberText_facts(2) [OF ms] show ?thesis by blast
    qed
    then have "printable (join '','' (map memberText ms))" by (rule printable_join)
    then show ?thesis by (simp add: jobject_alt code_def)
  qed
  ultimately show ?thesis by (simp add: jtext_def) (simp add: jobject_def)
qed

section \<open>Compaction\<close>

lemma squeeze_In_head:
  assumes "squeeze In s = x # y" and "128 \<le> code x"
  shows "\<exists>s'. s = x # s' \<and> y = squeeze In s'"
proof (cases s)
  case (Cons c s')
  have "x \<noteq> DQ" "x \<noteq> BS" using assms(2) by auto
  with assms(1) Cons show ?thesis
    by (auto simp: uEscape_def split: if_splits option.splits)
qed (use assms(1) in simp)

lemma lineSeparator_squeeze: "lineSeparator c s = None \<Longrightarrow> lineSeparator c (squeeze In s) = None"
proof (rule ccontr)
  assume none: "lineSeparator c s = None" and "lineSeparator c (squeeze In s) \<noteq> None"
  then obtain b where a: "take 2 (squeeze In s) = [byte 0x80, b]" "b = byte 0xA8 \<or> b = byte 0xA9" "c = byte 0xE2"
    by (auto simp: lineSeparator_def split: if_splits)
  then obtain y where "squeeze In s = byte 0x80 # b # y" by (metis append_take_drop_id append_Cons append_Nil)
  then obtain s' where "s = byte 0x80 # s'" "b # y = squeeze In s'"
    using squeeze_In_head [of s "byte 0x80"] by auto
  moreover have "128 \<le> code b" using a(2) by auto
  ultimately obtain s'' where "s = byte 0x80 # b # s''"
    using squeeze_In_head [of s' b y] by auto
  with none a(2,3) show False by (auto simp: lineSeparator_def)
qed

lemma high_neq_DQ [simp]: "DQ \<noteq> byte 0x80" "DQ \<noteq> byte 0xA8" "DQ \<noteq> byte 0xA9"
  by (auto dest: arg_cong [of _ _ code])

lemma lineSeparator_DQ: "lineSeparator c (t @ DQ # x) = lineSeparator c (t @ DQ # x')"
  by (cases t; cases "tl t") (auto simp: lineSeparator_def)

lemma hexVal_char: "hexVal c = Some n \<Longrightarrow> 32 \<le> code c \<and> code c < 128 \<and> c \<noteq> DQ \<and> c \<noteq> BS \<and> \<not> htmlUnsafe c"
proof -
  assume "hexVal c = Some n"
  then have "48 \<le> code c \<and> code c \<le> 57 \<or> 65 \<le> code c \<and> code c \<le> 70 \<or> 97 \<le> code c \<and> code c \<le> 102"
    using digit_codes [of c] by (auto simp: hexVal_def split: if_splits)
  moreover have "code (CHR ''<'') = 60" "code (CHR ''>'') = 62" "code (CHR ''&'') = 38" by (simp_all add: code_def)
  ultimately show ?thesis by (auto simp: htmlUnsafe_def)
qed

lemma hex4_chars:
  "hex4 h = Some (n, []) \<Longrightarrow> c \<in> set h \<Longrightarrow> 32 \<le> code c \<and> code c < 128 \<and> c \<noteq> DQ \<and> c \<noteq> BS \<and> \<not> htmlUnsafe c"
  by (induction h rule: hex4.induct) (auto split: option.splits dest: hexVal_char)

lemma simpleEscape_char: "simpleEscape e = Some x \<Longrightarrow> 32 \<le> code e"
  by (auto simp: simpleEscape_def code_def split: if_splits)

lemma compact_key:
  "strTok k \<Longrightarrow> \<exists>k'. keyTok k' \<and> (\<forall>x. squeeze In (k @ DQ # x) = k' @ DQ # squeeze Out x)"
proof (induction "length k" arbitrary: k rule: less_induct)
  case less
  have ext: ?case
    if h: "strTok t" "length t < length k" "\<And>t'. strTok t' \<Longrightarrow> strTok (p @ t')" "printable p"
      "\<And>t' x. squeeze In (t @ [DQ]) = t' @ [DQ] \<Longrightarrow> squeeze In (p @ t' @ DQ # x) = p @ squeeze In (t' @ DQ # x)"
      "\<And>x. squeeze In (k @ DQ # x) = p @ squeeze In (t @ DQ # x)" for p t
  proof -
    obtain t' where t': "keyTok t'" "\<And>x. squeeze In (t @ DQ # x) = t' @ DQ # squeeze Out x"
      using less.hyps [OF h(2,1)] by auto
    have "squeeze In (p @ t' @ DQ # x) = p @ t' @ DQ # squeeze Out x" for x
      using h(5) [of t' x] t' by (simp add: keyTok_def)
    then have "keyTok (p @ t')" using t'(1) h(3,4) by (simp add: keyTok_def)
    then show ?thesis using h(6) t'(2) by (intro exI [of _ "p @ t'"]) simp
  qed
  from less.prems show ?case
  proof cases
    case Nil
    then show ?thesis by (intro exI [of _ "[]"]) (simp add: keyTok_def strTok.Nil)
  next
    case (plain c t)
    show ?thesis
    proof (cases "htmlUnsafe c")
      case True
      have "code c < 65536" using code_inject True by (auto simp: htmlUnsafe_def code_def)
      then show ?thesis using plain True
        by (intro ext [of t "uEscape (code c)"])
          (auto simp: strTok_uEscape squeeze_uEscape printable_def intro: uEscape_printable [of "code c"])
    next
      case html: False
      show ?thesis
      proof (cases "lineSeparator c t")
        case None
        have sep: "lineSeparator c (t @ DQ # x) = None" for x
          using None by (cases t; cases "tl t") (auto simp: lineSeparator_def split: if_splits)
        have "lineSeparator c (t' @ DQ # x) = None" if "squeeze In (t @ [DQ]) = t' @ [DQ]" for t' x
          using lineSeparator_squeeze [OF sep [of "[]"]] that lineSeparator_DQ [of c t' x "[]"] by simp
        then show ?thesis using plain html sep
          by (intro ext [of t "[c]"]) (auto intro: strTok.plain)
      next
        case (Some r)
        then obtain b t2 where r: "t = byte 0x80 # b # t2" "b \<in> {byte 0xA8, byte 0xA9}" "r = 0x2028 \<or> r = 0x2029"
          by (cases t; cases "tl t") (auto simp: lineSeparator_def split: if_splits)
        have "byte 0x80 \<noteq> BS" "b \<noteq> BS" using r(2) by (auto dest: arg_cong [of _ _ code])
        then have "strTok t2" using plain(5) r(1) by (simp add: strTok_plain_iff)
        moreover have "lineSeparator c (t @ DQ # x) = Some r" for x
          using Some r(1) by (simp add: lineSeparator_def split: if_splits)
        moreover have "r < 65536" using r(3) by auto
        ultimately show ?thesis using plain html r(1)
          by (intro ext [of t2 "uEscape r"])
            (auto simp: strTok_uEscape squeeze_uEscape printable_def intro: uEscape_printable [of r])
      qed
    qed
  next
    case (u h n t)
    note h = hex4_chars [OF u(2)]
    have sq: "squeeze In (h @ x) = h @ squeeze In x" for x using h by (intro squeeze_In_ascii) auto
    show ?thesis using u h
      by (intro ext [of t "BS # CHR ''u'' # h"]) (auto simp: sq printable_def intro: strTok.u)
  next
    case (esc e x t)
    then show ?thesis
      by (intro ext [of t "[BS, e]"]) (auto intro: strTok.esc dest: simpleEscape_char)
  qed
qed

lemma squeeze_Out_char: "\<not> isSpace c \<Longrightarrow> c \<noteq> DQ \<Longrightarrow> squeeze Out (c # s) = c # squeeze Out s"
  by simp

lemma squeeze_after_space:
  assumes "skipSpace r0 = q"
  shows "squeeze Out r0 = squeeze Out q"
  using squeeze_skipSpace [of r0] assms by simp

lemma squeeze_jarray:
  assumes "\<And>x. squeeze Out (p @ x) = join '','' vs @ '']'' @ squeeze Out x" and "\<forall>c \<in> set w. isSpace c"
  shows "squeeze Out (CHR ''['' # w @ p @ x) = jarray vs @ squeeze Out x"
  using assms by (simp add: squeeze_space jarray_def)

lemma squeeze_jobject:
  assumes "\<And>x. squeeze Out (p @ x) = join '','' (map memberText ms) @ ''}'' @ squeeze Out x" and "\<forall>c \<in> set w. isSpace c"
  shows "squeeze Out (CHR ''{'' # w @ p @ x) = jobject ms @ squeeze Out x"
  using assms by (simp add: squeeze_space jobject_alt)

definition compact_value :: "nat \<Rightarrow> bytes \<Rightarrow> bool" where
  "compact_value d v \<longleftrightarrow> v \<noteq> [] \<and> jtext d (squeeze Out v) \<and> (\<forall>x. squeeze Out (v @ x) = squeeze Out v @ squeeze Out x)"

lemma compact_valueI:
  assumes "v \<noteq> []" and "jtext d u" and "\<And>x. squeeze Out (v @ x) = u @ squeeze Out x"
  shows "compact_value d v"
proof -
  have "squeeze Out v = u" using assms(3) [of "[]"] by simp
  with assms show ?thesis by (simp add: compact_value_def)
qed

lemma compact_value_jtext: "jtext d v \<Longrightarrow> compact_value d v"
  by (rule compact_valueI [of v d v]) (simp_all add: jtext_def)

lemma squeeze_ws_value:
  assumes "compact_value d v" and "s = v @ r0" and "skipSpace r0 = c # r1" and "\<not> isSpace c" and "c \<noteq> DQ"
  shows "squeeze Out s = squeeze Out v @ c # squeeze Out r1"
proof -
  have "squeeze Out r0 = c # squeeze Out r1"
    using squeeze_after_space [OF assms(3)] assms(4,5) by simp
  with assms(1,2) show ?thesis by (simp add: compact_value_def)
qed

text \<open>The value, the elements and the members that the scanner finds, at once, by induction on the fuel.\<close>

lemma scan_compacts:
  "(scanValue n d s = Some (v, r) \<longrightarrow> s = v @ r \<and> compact_value d v) \<and>
   (scanElems n d start s = Some (vs, r) \<longrightarrow>
      (\<exists>p us. s = p @ r \<and> (us = [] \<longrightarrow> start) \<and> (\<forall>u \<in> set us. jtext d u) \<and> (\<forall>x. squeeze Out (p @ x) = join '','' us @ '']'' @ squeeze Out x))) \<and>
   (scanMembers n d start s = Some (ms, r) \<longrightarrow>
      (\<exists>p us. s = p @ r \<and> (us = [] \<longrightarrow> start) \<and> (\<forall>u \<in> set us. jmember d u) \<and>
         (\<forall>x. squeeze Out (p @ x) = join '','' (map memberText us) @ ''}'' @ squeeze Out x)))"
proof (induction n arbitrary: d s v r start vs ms)
  case (Suc n)
  have IHv: "s = v @ r \<and> compact_value d v" if "scanValue n d s = Some (v, r)" for d s v r
    using Suc.IH that by blast
  have IHe: "\<exists>p us. s = p @ r \<and> (us = [] \<longrightarrow> start) \<and> (\<forall>u \<in> set us. jtext d u) \<and>
      (\<forall>x. squeeze Out (p @ x) = join '','' us @ '']'' @ squeeze Out x)"
    if "scanElems n d start s = Some (vs, r)" for d start s vs r
    using Suc.IH [of d s _ _ start vs] that by blast
  have IHm: "\<exists>p us. s = p @ r \<and> (us = [] \<longrightarrow> start) \<and> (\<forall>u \<in> set us. jmember d u) \<and>
      (\<forall>x. squeeze Out (p @ x) = join '','' (map memberText us) @ ''}'' @ squeeze Out x)"
    if "scanMembers n d start s = Some (ms, r)" for d start s ms r
    using Suc.IH [of d s _ _ start _ ms] that by blast
  show ?case
  proof (intro conjI impI)
    assume a: "scanValue (Suc n) d s = Some (v, r)"
    then show "s = v @ r"
    proof (cases rule: scanValue_cases)
      case (obj s' ms)
      obtain p where "skipSpace s' = p @ r" using IHm [OF obj(3)] by blast
      with skipSpace_split [of s'] obtain w where "s = (CHR ''{'' # w @ p) @ r" using obj(1) by auto
      then show ?thesis by (metis obj(4) consumed_append)
    next
      case (arr s' vs)
      obtain p where "skipSpace s' = p @ r" using IHe [OF arr(3)] by blast
      with skipSpace_split [of s'] obtain w where "s = (CHR ''['' # w @ p) @ r" using arr(1) by auto
      then show ?thesis by (metis arr(4) consumed_append)
    qed auto
    from a show "compact_value d v"
    proof (cases rule: scanValue_cases)
      case (str t)
      obtain k where k: "keyTok k" "\<And>x. squeeze In (t @ DQ # x) = k @ DQ # squeeze Out x"
        using compact_key [OF str(2)] by blast
      show ?thesis
        by (rule compact_valueI [OF _ jtext_string [OF k(1)]]) (simp_all add: str(3) k(2))
    next
      case (obj s' ms)
      obtain p us where p: "skipSpace s' = p @ r" "\<forall>u \<in> set us. jmember (Suc d) u"
          "\<And>x. squeeze Out (p @ x) = join '','' (map memberText us) @ ''}'' @ squeeze Out x"
        using IHm [OF obj(3)] by blast
      obtain w where w: "s' = w @ p @ r" "\<forall>c \<in> set w. isSpace c" using skipSpace_split [of s'] p(1) by auto
      then have "v = CHR ''{'' # w @ p" using obj(1,4) consumed_append [of "CHR ''{'' # w @ p" r] by simp
      with p w obj(2) show ?thesis
        by (intro compact_valueI [OF _ jtext_jobject [of d us]]) (simp_all only: squeeze_jobject append_Cons append_assoc, simp_all)
    next
      case (arr s' vs)
      obtain p us where p: "skipSpace s' = p @ r" "\<forall>u \<in> set us. jtext (Suc d) u"
          "\<And>x. squeeze Out (p @ x) = join '','' us @ '']'' @ squeeze Out x"
        using IHe [OF arr(3)] by blast
      obtain w where w: "s' = w @ p @ r" "\<forall>c \<in> set w. isSpace c" using skipSpace_split [of s'] p(1) by auto
      then have "v = CHR ''['' # w @ p" using arr(1,4) consumed_append [of "CHR ''['' # w @ p" r] by simp
      with p w arr(2) show ?thesis
        by (intro compact_valueI [OF _ jtext_jarray [of d us]]) (simp_all only: squeeze_jarray append_Cons append_assoc, simp_all)
    next
      case (lit l)
      then show ?thesis using jtext_lit by (auto intro: compact_value_jtext)
    next
      case num
      then show ?thesis using jtext_num by (auto intro: compact_value_jtext)
    qed
  next
    assume "scanElems (Suc n) d start s = Some (vs, r)"
    then show "\<exists>p us. s = p @ r \<and> (us = [] \<longrightarrow> start) \<and> (\<forall>u \<in> set us. jtext d u) \<and>
        (\<forall>x. squeeze Out (p @ x) = join '','' us @ '']'' @ squeeze Out x)"
    proof (cases rule: scanElems_cases)
      case empty
      then show ?thesis by (intro exI [of _ "'']''"] exI [of _ "[]"]) simp
    next
      case (last v r0)
      have v: "s = v @ r0" "compact_value d v" using IHv [OF last(1)] by blast+
      obtain w where w: "r0 = w @ CHR '']'' # r" "\<forall>c \<in> set w. isSpace c" using skipSpace_split [of r0] last(2) by auto
      show ?thesis
        using v w by (intro exI [of _ "v @ w @ '']''"] exI [of _ "[squeeze Out v]"])
          (simp add: compact_value_def squeeze_space)
    next
      case (more v r0 r1 vs')
      have v: "s = v @ r0" "compact_value d v" using IHv [OF more(1)] by blast+
      obtain w where w: "r0 = w @ CHR '','' # r1" "\<forall>c \<in> set w. isSpace c" using skipSpace_split [of r0] more(2) by auto
      obtain p us where p: "skipSpace r1 = p @ r" "us \<noteq> []" "\<forall>u \<in> set us. jtext d u"
          "\<And>x. squeeze Out (p @ x) = join '','' us @ '']'' @ squeeze Out x"
        using IHe [OF more(3)] by blast
      obtain w' where w': "r1 = w' @ p @ r" "\<forall>c \<in> set w'. isSpace c" using skipSpace_split [of r1] p(1) by auto
      have "join '','' (squeeze Out v # us) = squeeze Out v @ '','' @ join '','' us"
        using p(2) by (rule join_Cons_ne)
      then show ?thesis
        using v w w' p by (intro exI [of _ "v @ w @ CHR '','' # w' @ p"] exI [of _ "squeeze Out v # us"])
          (simp add: compact_value_def squeeze_space)
    qed
  next
    assume "scanMembers (Suc n) d start s = Some (ms, r)"
    then show "\<exists>p us. s = p @ r \<and> (us = [] \<longrightarrow> start) \<and> (\<forall>u \<in> set us. jmember d u) \<and>
        (\<forall>x. squeeze Out (p @ x) = join '','' (map memberText us) @ ''}'' @ squeeze Out x)"
    proof (cases rule: scanMembers_cases)
      case empty
      then show ?thesis by (intro exI [of _ "''}''"] exI [of _ "[]"]) simp
    next
      case (last k r0 r1 v r2)
      obtain k' where k: "keyTok k'" "\<And>x. squeeze In (k @ DQ # x) = k' @ DQ # squeeze Out x"
        using compact_key [OF last(2)] by blast
      obtain w0 where w0: "r0 = w0 @ CHR '':'' # r1" "\<forall>c \<in> set w0. isSpace c" using space_before [OF last(3)] by blast
      obtain w1 where w1: "r1 = w1 @ skipSpace r1" "\<forall>c \<in> set w1. isSpace c" using skipSpace_split [of r1] by blast
      obtain w2 where w2: "r2 = w2 @ CHR ''}'' # r" "\<forall>c \<in> set w2. isSpace c" using space_before [OF last(5)] by blast
      have v: "skipSpace r1 = v @ r2" "compact_value d v" using IHv [OF last(4)] by blast+
      have "s = (DQ # k @ DQ # w0 @ CHR '':'' # w1 @ v @ w2 @ ''}'') @ r"
        unfolding last(1) by (subst w0(1), subst w1(1)) (simp add: v(1) w2(1))
      moreover have "squeeze Out ((DQ # k @ DQ # w0 @ CHR '':'' # w1 @ v @ w2 @ ''}'') @ x) =
          join '','' (map memberText [(k', squeeze Out v)]) @ ''}'' @ squeeze Out x" for x
        using v(2) w0(2) w1(2) w2(2) k(2) by (simp add: compact_value_def squeeze_space memberText_def)
      ultimately show ?thesis using k(1) v(2)
        by (intro exI [of _ "DQ # k @ DQ # w0 @ CHR '':'' # w1 @ v @ w2 @ ''}''"] exI [of _ "[(k', squeeze Out v)]"])
          (simp add: jmember_def compact_value_def)
    next
      case (more k r0 r1 v r2 r3 ms')
      obtain k' where k: "keyTok k'" "\<And>x. squeeze In (k @ DQ # x) = k' @ DQ # squeeze Out x"
        using compact_key [OF more(2)] by blast
      obtain w0 where w0: "r0 = w0 @ CHR '':'' # r1" "\<forall>c \<in> set w0. isSpace c" using space_before [OF more(3)] by blast
      obtain w1 where w1: "r1 = w1 @ skipSpace r1" "\<forall>c \<in> set w1. isSpace c" using skipSpace_split [of r1] by blast
      obtain w2 where w2: "r2 = w2 @ CHR '','' # r3" "\<forall>c \<in> set w2. isSpace c" using space_before [OF more(5)] by blast
      obtain w3 where w3: "r3 = w3 @ skipSpace r3" "\<forall>c \<in> set w3. isSpace c" using skipSpace_split [of r3] by blast
      have v: "skipSpace r1 = v @ r2" "compact_value d v" using IHv [OF more(4)] by blast+
      obtain p us where p: "skipSpace r3 = p @ r" "us \<noteq> []" "\<forall>u \<in> set us. jmember d u"
          "\<And>x. squeeze Out (p @ x) = join '','' (map memberText us) @ ''}'' @ squeeze Out x"
        using IHm [OF more(6)] by blast
      let ?q = "DQ # k @ DQ # w0 @ CHR '':'' # w1 @ v @ w2 @ CHR '','' # w3 @ p"
      have "s = ?q @ r"
        unfolding more(1) by (subst w0(1), subst w1(1), simp add: v(1) w2(1)) (subst w3(1), simp add: p(1))
      moreover have "join '','' (map memberText ((k', squeeze Out v) # us)) =
          memberText (k', squeeze Out v) @ '','' @ join '','' (map memberText us)"
        using p(2) join_Cons_ne [of "map memberText us"] by (simp only: list.map map_is_Nil_conv not_False_eq_True simp_thms)
      then have "squeeze Out (?q @ x) = join '','' (map memberText ((k', squeeze Out v) # us)) @ ''}'' @ squeeze Out x" for x
        using v(2) w0(2) w1(2) w2(2) w3(2) k(2) p(4) by (simp add: compact_value_def squeeze_space memberText_def [of "(k', squeeze Out v)"])
      ultimately show ?thesis using k(1) v(2) p(3)
        by (intro exI [of _ ?q] exI [of _ "(k', squeeze Out v) # us"])
          (simp add: jmember_def compact_value_def)
    qed
  qed
qed simp

section \<open>Enough fuel\<close>

lemma scanValue_split: "scanValue n d s = Some (v, r) \<Longrightarrow> s = v @ r \<and> v \<noteq> []"
  using scan_compacts [of n d s v r] by (auto simp: compact_value_def)

lemma scanValue_shrinks: "scanValue n d s = Some (v, r) \<Longrightarrow> length r < length s"
  by (auto dest!: scanValue_split)

lemma length_skipSpace: "length (skipSpace s) \<le> length s"
  by (simp add: skipSpace_def length_dropWhile_le)

lemma skipSpace_shrinks: "skipSpace s = c # r \<Longrightarrow> length r < length s"
  using length_skipSpace [of s] by simp

lemma scan_more_fuel:
  "(2 * length s < n \<longrightarrow> scanValue (Suc n) d s = scanValue n d s) \<and>
   (2 * length s + 1 < n \<longrightarrow> scanElems (Suc n) d start s = scanElems n d start s) \<and>
   (2 * length s + 1 < n \<longrightarrow> scanMembers (Suc n) d start s = scanMembers n d start s)"
proof (induction n arbitrary: d s start)
  case (Suc n)
  have V: "scanValue (Suc n) d s = scanValue n d s" if "2 * length s < n" for d s using Suc.IH that by blast
  have E: "scanElems (Suc n) d st s = scanElems n d st s" if "2 * length s + 1 < n" for d st s using Suc.IH that by blast
  have M: "scanMembers (Suc n) d st s = scanMembers n d st s" if "2 * length s + 1 < n" for d st s using Suc.IH that by blast
  show ?case
  proof (intro conjI impI)
    assume n: "2 * length s < Suc n"
    show "scanValue (Suc (Suc n)) d s = scanValue (Suc n) d s"
    proof (cases s)
      case (Cons c s')
      have "2 * length (skipSpace s') + 1 < n" using n Cons length_skipSpace [of s'] by simp
      note E [OF this, of "Suc d" True] M [OF this, of "Suc d" True]
      then show ?thesis by (simp only: Cons scanValue.simps list.case)
    qed simp
  next
    assume n: "2 * length s + 1 < Suc n"
    then have v: "scanValue (Suc n) d s = scanValue n d s" using V by simp
    have rest: "scanElems (Suc n) d False (skipSpace r') = scanElems n d False (skipSpace r')"
      if "scanValue n d s = Some (v, r)" "skipSpace r = c # r'" for v r c r'
      using scanValue_shrinks [OF that(1)] skipSpace_shrinks [OF that(2)] length_skipSpace [of r'] n by (intro E) simp
    show "scanElems (Suc (Suc n)) d start s = scanElems (Suc n) d start s"
      unfolding scanElems.simps(2) [of "Suc n"] scanElems.simps(2) [of n] v
      using rest by (auto split: option.splits list.splits)
  next
    assume n: "2 * length s + 1 < Suc n"
    have v: "scanValue (Suc n) d (skipSpace r1) = scanValue n d (skipSpace r1)"
      if "scanStr (drop 1 s) = Some (k, r0)" "skipSpace r0 = c # r1" for k r0 c r1
      using scanStr_tok [OF that(1)] skipSpace_shrinks [OF that(2)] length_skipSpace [of r1] n
      by (intro V) (cases s; simp)
    have rest: "scanMembers (Suc n) d False (skipSpace r') = scanMembers n d False (skipSpace r')"
      if "scanStr (drop 1 s) = Some (k, r0)" "skipSpace r0 = c # r1" "scanValue n d (skipSpace r1) = Some (v, r)" "skipSpace r = c' # r'"
      for k r0 c r1 v r c' r'
      using scanStr_tok [OF that(1)] skipSpace_shrinks [OF that(2)] length_skipSpace [of r1] scanValue_shrinks [OF that(3)]
        skipSpace_shrinks [OF that(4)] length_skipSpace [of r'] n
      by (intro M) (cases s; simp)
    show "scanMembers (Suc (Suc n)) d start s = scanMembers (Suc n) d start s"
      unfolding scanMembers.simps(2) [of "Suc n"] scanMembers.simps(2) [of n]
      using v rest by (auto split: option.splits list.splits)
  qed
qed simp

text \<open>Twice the length of the text is enough: with more fuel the scanner finds nothing else.\<close>

lemma scanValue_fuel: "2 * length s < n \<Longrightarrow> scanValue n d s = scanValue (2 * length s + 1) d s"
proof (induction n)
  case (Suc n)
  show ?case
  proof (cases "n = 2 * length s")
    case False
    then have "2 * length s < n" using Suc.prems by simp
    then show ?thesis using Suc.IH scan_more_fuel by metis
  qed simp
qed simp

section \<open>Less nesting\<close>

lemma scanValue_bracket [simp]: "scanValue n d (CHR '']'' # s) = None"
  by (cases n) (simp_all add: scanNum_def scanSign_def scanInt_def scanDigits_def isDigit_CHR)

lemma scan_less_depth:
  "(scanValue n d s = Some x \<longrightarrow> d' \<le> d \<longrightarrow> scanValue n d' s = Some x) \<and>
   (scanElems n d start s = Some y \<longrightarrow> d' \<le> d \<longrightarrow> scanElems n d' start s = Some y) \<and>
   (scanMembers n d start s = Some z \<longrightarrow> d' \<le> d \<longrightarrow> scanMembers n d' start s = Some z)"
proof (induction n arbitrary: d d' s x start y z)
  case (Suc n)
  have V: "scanValue n d' s = Some x" if "scanValue n d s = Some x" "d' \<le> d" for d d' s x using Suc.IH that by blast
  have E: "scanElems n d' st s = Some y" if "scanElems n d st s = Some y" "d' \<le> d" for d d' st s y using Suc.IH that by blast
  have M: "scanMembers n d' st s = Some z" if "scanMembers n d st s = Some z" "d' \<le> d" for d d' st s z using Suc.IH that by blast
  show ?case
  proof (intro conjI impI)
    assume a: "scanValue (Suc n) d s = Some x" and d: "d' \<le> d"
    show "scanValue (Suc n) d' s = Some x"
    proof (cases s)
      case (Cons c s')
      then show ?thesis using a d E [of "Suc d" True "skipSpace s'" _ "Suc d'"] M [of "Suc d" True "skipSpace s'" _ "Suc d'"]
        by (auto split: if_splits)
    qed (use a in simp)
  next
    assume a: "scanElems (Suc n) d start s = Some y" and d: "d' \<le> d"
    obtain vs r where y: "y = (vs, r)" by (cases y)
    from a [unfolded y] show "scanElems (Suc n) d' start s = Some y"
    proof (cases rule: scanElems_cases)
      case empty
      then show ?thesis by (simp add: y)
    next
      case (last v r0)
      have "take 1 s \<noteq> '']'' \<or> \<not> start"
        using last(1) by (cases s) auto
      with V [OF last(1) d] last show ?thesis by (auto simp: y)
    next
      case (more v r0 r1 vs')
      have "take 1 s \<noteq> '']'' \<or> \<not> start"
        using more(1) by (cases s) auto
      with V [OF more(1) d] E [OF more(3) d] more show ?thesis by (auto simp: y)
    qed
  next
    assume a: "scanMembers (Suc n) d start s = Some z" and d: "d' \<le> d"
    obtain ms r where z: "z = (ms, r)" by (cases z)
    from a [unfolded z] show "scanMembers (Suc n) d' start s = Some z"
    proof (cases rule: scanMembers_cases)
      case empty
      then show ?thesis by (simp add: z)
    next
      case (last k r0 r1 v r2)
      with V [OF last(4) d] strTok_scan [OF last(2), of r0] show ?thesis by (simp add: z)
    next
      case (more k r0 r1 v r2 r3 ms')
      with V [OF more(4) d] M [OF more(6) d] strTok_scan [OF more(2), of r0] show ?thesis by (simp add: z)
    qed
  qed
qed simp

lemma jtext_mono: "jtext d v \<Longrightarrow> d' \<le> d \<Longrightarrow> jtext d' v"
  unfolding jtext_def
proof (elim conjE, intro conjI allI impI)
  fix n r
  assume le: "d' \<le> d" and "\<forall>n r. delim r \<longrightarrow> 2 * length v < n \<longrightarrow> scanValue n d (v @ r) = Some (v, r)"
    and "delim r" and "2 * length v < n"
  then have "scanValue n d (v @ r) = Some (v, r)" by blast
  with scan_less_depth [of n d "v @ r" "(v, r)" d'] le show "scanValue n d' (v @ r) = Some (v, r)" by blast
qed simp_all

lemma jmember_mono: "jmember d m \<Longrightarrow> d' \<le> d \<Longrightarrow> jmember d' m"
  by (auto simp: jmember_def intro: jtext_mono)

section \<open>The functions the program calls\<close>

lemma skipSpace_all: "\<forall>c \<in> set w. isSpace c \<Longrightarrow> skipSpace w = []"
  by (simp add: skipSpace_def)

lemma jsonValue_jtext:
  assumes "jtext d v" and "\<forall>c \<in> set w. isSpace c"
  shows "jsonValue d (v @ w) = Some v"
proof -
  have "delim w" using assms(2) by (cases w) (auto simp: delim_def)
  then have "scanValue (scanFuel (v @ w)) d (v @ w) = Some (v, w)"
    using assms(1) by (intro jtext_scan) (auto simp: scanFuel_def)
  then show ?thesis using assms by (simp add: jsonValue_def jtext_skipSpace skipSpace_all)
qed

lemma jsonValue_compact: "jsonValue d s = Some v \<Longrightarrow> jtext d (squeeze Out v)"
  using scan_compacts [of "scanFuel s" d "skipSpace s" v]
  by (auto simp: jsonValue_def compact_value_def split: option.splits prod.splits if_splits)

lemma jsonValue_less_depth: "jsonValue d s = Some v \<Longrightarrow> d' \<le> d \<Longrightarrow> jsonValue d' s = Some v"
  using scan_less_depth [of "scanFuel s" d "skipSpace s" _ d']
  by (auto simp: jsonValue_def split: option.splits prod.splits if_splits)

lemma squeeze_jtext: "jtext d v \<Longrightarrow> squeeze Out v = v"
  by (simp add: jtext_def) (metis append_Nil2 squeeze.simps(1))

lemma compact_jtext: "jtext 0 v \<Longrightarrow> compact v = Some v"
  using jsonValue_jtext [of 0 v "[]"] by (simp add: compact_def squeeze_jtext)

lemma compact_Some: "jsonValue d s = Some v \<Longrightarrow> compact s = Some (squeeze Out v)"
  using jsonValue_less_depth [of d s v 0] by (simp add: compact_def)

lemma compact_jtext_0: "compact s = Some u \<Longrightarrow> jtext 0 u"
  by (auto simp: compact_def dest: jsonValue_compact)

lemma members_jobject:
  assumes "\<And>m. m \<in> set ms \<Longrightarrow> jmember 0 m"
  shows "members (jobject ms) = Some (map (\<lambda>(k, v). (unquote k, v)) ms)"
proof (cases "ms = []")
  case True
  then show ?thesis by (simp add: members_def jobject_alt scanFuel_def skipSpace_Cons eval_nat_numeral)
next
  case False
  then obtain w ws where "ms = w # ws" by (cases ms) auto
  then have "skipSpace (drop 1 (jobject ms)) = join '','' (map memberText ms) @ ''}''"
    by (simp add: jobject_alt memberText_def skipSpace_Cons)
  moreover have "scanMembers (scanFuel (jobject ms)) 0 True (join '','' (map memberText ms) @ CHR ''}'' # []) = Some (ms, [])"
    using False assms by (intro scanMembers_join) (auto simp: jobject_alt scanFuel_def)
  ultimately show ?thesis by (simp add: members_def) (simp add: jobject_alt)
qed

lemma elements_jarray:
  assumes "\<And>v. v \<in> set vs \<Longrightarrow> jtext 0 v"
  shows "elements (jarray vs) = Some vs"
proof (cases "vs = []")
  case True
  then show ?thesis by (simp add: elements_def jarray_def scanFuel_def skipSpace_Cons eval_nat_numeral)
next
  case False
  then obtain w ws where w: "vs = w # ws" by (cases vs) auto
  then have "skipSpace (drop 1 (jarray vs)) = join '','' vs @ '']''"
    using jtext_skipSpace [OF assms [of w]] by (simp add: jarray_def)
  moreover have "scanElems (scanFuel (jarray vs)) 0 True (join '','' vs @ CHR '']'' # []) = Some (vs, [])"
    using False assms by (intro scanElems_join) (auto simp: jarray_def scanFuel_def)
  ultimately show ?thesis by (simp add: elements_def) (simp add: jarray_def)
qed

lemma jobject_not_null [simp]: "jobject ms \<noteq> jnull" "jarray vs \<noteq> jnull" "jstring s \<noteq> jnull"
  by (simp_all add: jobject_def jarray_def jstring_def jnull_def)

lemma jtext_jnull [simp]: "jtext d jnull"
  by (rule jtext_lit) (simp add: jnull_def)

lemma showNat_not_null [simp]: "showNat n \<noteq> jnull" "jnull \<noteq> showNat n"
proof -
  have "hd (showNat n) \<noteq> CHR ''n''" using showNat_hd_digit [of n] by (auto simp: isDigit_def)
  then have "hd (showNat n) \<noteq> hd jnull" by (simp add: jnull_def)
  then show "showNat n \<noteq> jnull" "jnull \<noteq> showNat n" by metis+
qed

lemma decString_jstring [simp]: "decString (jstring s) cur = Some (toValidUTF8 s)"
proof -
  have "scanStr (quoteBody s @ [DQ]) = Some (quoteBody s, [])"
    using keyTok_quoteBody [of s] by (simp add: keyTok_def strTok_scan)
  then show ?thesis by (simp add: decString_def quoteBody_facts(4)) (simp add: jstring_def quoteBody_facts(4))
qed

lemma decString_jnull [simp]: "decString jnull cur = Some cur"
  by (simp add: decString_def)

lemma decUint64_showNat [simp]: "decUint64 (showNat (unat v)) cur = Some v"
  by (simp add: decUint64_def)

lemma decRaw_Some [simp]: "decRaw v cur = Some (Some v)"
  by (simp add: decRaw_def)

definition plainKey :: "string \<Rightarrow> bool" where
  "plainKey k \<longleftrightarrow> (\<forall>c \<in> set k. 32 \<le> code c \<and> code c < 128 \<and> c \<noteq> DQ \<and> c \<noteq> BS \<and> \<not> htmlUnsafe c)"

lemma plainKey_keyTok:
  assumes "plainKey k"
  shows "keyTok k" "unquote k = k"
proof -
  have "strTok k" using assms by (induction k) (auto simp: plainKey_def intro: strTok.intros)
  moreover have "squeeze In (k @ x) = k @ squeeze In x" for x
    using assms by (intro squeeze_In_ascii) (auto simp: plainKey_def)
  ultimately show "keyTok k" using assms by (simp add: keyTok_def printable_def plainKey_def)
  show "unquote k = k" using assms by (induction k) (auto simp: plainKey_def)
qed

lemma jtext_printable: "jtext d v \<Longrightarrow> \<forall>c \<in> set v. 32 \<le> code c"
  by (simp add: jtext_def printable_def)

lemma foldName_ascii:
  "\<forall>c \<in> set s. code c < 128 \<Longrightarrow> foldName s = map (\<lambda>c. if 97 \<le> code c \<and> code c \<le> 122 then byte (code c - 32) else c) s"
proof (induction s)
  case (Cons c s)
  then have "c \<noteq> byte 0xC5" "c \<noteq> byte 0xE2" by (auto dest: arg_cong [of _ _ code])
  with Cons show ?case by simp
qed simp

declare foldName.simps [simp del] unquote.simps(2) [simp del] quoteBody.simps(2) [simp del] scanStr.simps(2) [simp del]
  scanValue.simps(2) [simp del] scanElems.simps(2) [simp del] scanMembers.simps(2) [simp del] toValidUTF8.simps(2) [simp del]

end
