(* ===== verification/Protocol.thy ===== *)
theory Protocol imports JsonFacts "HOL-Library.Monad_Syntax" begin

text \<open>
  \<open>internal/protocol/protocol.go\<close>: the envelope, the payloads, \<open>Encode\<close> and \<open>Decode\<close>, at the level of
  the bytes on the wire.  Each payload has the function that \<open>json.Marshal\<close> derives from the tags of its
  struct; those the program decodes have the fields that \<open>json.Unmarshal\<close> derives.
\<close>

section \<open>Message types\<close>

definition MsgAcquireTask :: string where "MsgAcquireTask = ''acquire_task''"
definition MsgReleaseTask :: string where "MsgReleaseTask = ''release_task''"
definition MsgSubmitResult :: string where "MsgSubmitResult = ''submit_result''"
definition MsgSubscribe :: string where "MsgSubscribe = ''subscribe''"
definition MsgUnsubscribe :: string where "MsgUnsubscribe = ''unsubscribe''"
definition MsgPing :: string where "MsgPing = ''ping''"
definition MsgTaskAvailable :: string where "MsgTaskAvailable = ''task_available''"
definition MsgTaskAcquiredOK :: string where "MsgTaskAcquiredOK = ''task_acquired_ok''"
definition MsgTaskAcquiredFail :: string where "MsgTaskAcquiredFail = ''task_acquired_fail''"
definition MsgResultAccepted :: string where "MsgResultAccepted = ''result_accepted''"
definition MsgResultRejected :: string where "MsgResultRejected = ''result_rejected''"
definition MsgWorldUpdate :: string where "MsgWorldUpdate = ''world_update''"
definition MsgOwnershipLost :: string where "MsgOwnershipLost = ''ownership_lost''"
definition MsgPong :: string where "MsgPong = ''pong''"
definition MsgError :: string where "MsgError = ''error''"

lemmas msg_types = MsgAcquireTask_def MsgReleaseTask_def MsgSubmitResult_def MsgSubscribe_def MsgUnsubscribe_def
  MsgPing_def MsgTaskAvailable_def MsgTaskAcquiredOK_def MsgTaskAcquiredFail_def MsgResultAccepted_def
  MsgResultRejected_def MsgWorldUpdate_def MsgOwnershipLost_def MsgPong_def MsgError_def

section \<open>Payloads\<close>

record Envelope =
  env_Type :: string
  env_RequestID :: string
  env_Payload :: "char slice"

record AcquireTaskPayload =
  atp_TaskID :: string

record ReleaseTaskPayload =
  rtp_TaskID :: string

record SubmitResultPayload =
  srp_TaskID :: string
  srp_Data :: "char slice"
  srp_Meta :: "char slice"

record SubscribePayload =
  sp_Tags :: "string slice"

record TaskAvailablePayload =
  tap_TaskID :: string
  tap_Tags :: "string slice"
  tap_Hint :: "char slice"

record TaskAcquiredOKPayload =
  tok_TaskID :: string
  tok_LeaseUntil :: int

record TaskAcquiredFailPayload =
  tfp_TaskID :: string
  tfp_Reason :: string

record ResultAcceptedPayload =
  rap_TaskID :: string

record ResultRejectedPayload =
  rrp_TaskID :: string
  rrp_Reason :: string

record ObjectDiff =
  od_ObjectID :: string
  od_Data :: "char slice"
  od_Version :: uint64
  od_Meta :: "char slice"

record WorldUpdatePayload =
  wup_Objects :: "ObjectDiff slice"

record OwnershipLostPayload =
  olp_TaskID :: string
  olp_Reason :: string

record ErrorPayload =
  ep_Code :: string
  ep_Message :: string

datatype payload =
    PSubmitResult SubmitResultPayload
  | PTaskAvailable TaskAvailablePayload
  | PTaskAcquiredOK TaskAcquiredOKPayload
  | PTaskAcquiredFail TaskAcquiredFailPayload
  | PResultAccepted ResultAcceptedPayload
  | PResultRejected ResultRejectedPayload
  | PWorldUpdate WorldUpdatePayload
  | POwnershipLost OwnershipLostPayload
  | PError ErrorPayload
  | PAcquireTask AcquireTaskPayload
  | PReleaseTask ReleaseTaskPayload
  | PSubscribe SubscribePayload

section \<open>Encoding\<close>

definition omitempty :: "string \<Rightarrow> char slice \<Rightarrow> (string \<times> bytes) list option" where
  \<comment> \<open>a raw message with \<open>omitempty\<close>\<close>
  "omitempty k m = (if elems m = [] then Some [] else map_option (\<lambda>v. [(k, v)]) (marshalRaw m))"

definition marshal_ObjectDiff :: "ObjectDiff \<Rightarrow> bytes option" where
  "marshal_ObjectDiff p = do {
     data \<leftarrow> marshalRaw (od_Data p);
     meta \<leftarrow> omitempty ''meta'' (od_Meta p);
     Some (jobject ([(''object_id'', jstring (od_ObjectID p)), (''data'', data),
       (''version'', showNat (unat (od_Version p)))] @ meta)) }"

definition json_Marshal :: "payload \<Rightarrow> bytes option" where
  "json_Marshal pl = (case pl of
       PSubmitResult p \<Rightarrow> do {
         data \<leftarrow> marshalRaw (srp_Data p);
         meta \<leftarrow> omitempty ''meta'' (srp_Meta p);
         Some (jobject ([(''task_id'', jstring (srp_TaskID p)), (''data'', data)] @ meta)) }
     | PTaskAvailable p \<Rightarrow> do {
         hint \<leftarrow> omitempty ''hint'' (tap_Hint p);
         Some (jobject ([(''task_id'', jstring (tap_TaskID p)), (''tags'', marshalStrings (tap_Tags p))] @ hint)) }
     | PTaskAcquiredOK p \<Rightarrow>
         Some (jobject [(''task_id'', jstring (tok_TaskID p)), (''lease_until_unix'', showInt (tok_LeaseUntil p))])
     | PTaskAcquiredFail p \<Rightarrow>
         Some (jobject [(''task_id'', jstring (tfp_TaskID p)), (''reason'', jstring (tfp_Reason p))])
     | PResultAccepted p \<Rightarrow> Some (jobject [(''task_id'', jstring (rap_TaskID p))])
     | PResultRejected p \<Rightarrow>
         Some (jobject [(''task_id'', jstring (rrp_TaskID p)), (''reason'', jstring (rrp_Reason p))])
     | PWorldUpdate p \<Rightarrow>
         (case wup_Objects p of
            None \<Rightarrow> Some (jobject [(''objects'', jnull)])
          | Some ds \<Rightarrow> do {
              vs \<leftarrow> those (map marshal_ObjectDiff ds);
              Some (jobject [(''objects'', jarray vs)]) })
     | POwnershipLost p \<Rightarrow>
         Some (jobject [(''task_id'', jstring (olp_TaskID p)), (''reason'', jstring (olp_Reason p))])
     | PError p \<Rightarrow>
         Some (jobject [(''code'', jstring (ep_Code p)), (''message'', jstring (ep_Message p))])
     | PAcquireTask p \<Rightarrow> Some (jobject [(''task_id'', jstring (atp_TaskID p))])
     | PReleaseTask p \<Rightarrow> Some (jobject [(''task_id'', jstring (rtp_TaskID p))])
     | PSubscribe p \<Rightarrow> Some (jobject [(''tags'', marshalStrings (sp_Tags p))]))"

definition marshal_Envelope :: "Envelope \<Rightarrow> bytes option" where
  "marshal_Envelope env = do {
     pl \<leftarrow> omitempty ''payload'' (env_Payload env);
     Some (jobject ([(''type'', jstring (env_Type env))] @
       (if env_RequestID env = '''' then [] else [(''request_id'', jstring (env_RequestID env))]) @ pl)) }"

definition protocol_EncodeEnv :: "string \<Rightarrow> string \<Rightarrow> payload option \<Rightarrow> Envelope option" where
  "protocol_EncodeEnv msgType requestID pl = (case pl of
       None \<Rightarrow> Some \<lparr>env_Type = msgType, env_RequestID = requestID, env_Payload = None\<rparr>
     | Some p \<Rightarrow> do {
         b \<leftarrow> json_Marshal p;
         Some \<lparr>env_Type = msgType, env_RequestID = requestID, env_Payload = Some b\<rparr> })"

definition protocol_Encode :: "string \<Rightarrow> string \<Rightarrow> payload option \<Rightarrow> bytes option" where
  "protocol_Encode msgType requestID pl = (case pl of
       None \<Rightarrow> marshal_Envelope \<lparr>env_Type = msgType, env_RequestID = requestID, env_Payload = None\<rparr>
     | Some p \<Rightarrow> do {
         b \<leftarrow> json_Marshal p;
         marshal_Envelope \<lparr>env_Type = msgType, env_RequestID = requestID, env_Payload = Some b\<rparr> })"

section \<open>Decoding\<close>

definition into :: "(bytes \<Rightarrow> 'a \<Rightarrow> 'a option) \<Rightarrow> ('r \<Rightarrow> 'a) \<Rightarrow> (('a \<Rightarrow> 'a) \<Rightarrow> 'r \<Rightarrow> 'r) \<Rightarrow> bytes \<Rightarrow> 'r \<Rightarrow> 'r option" where
  \<comment> \<open>decode into a field of a struct\<close>
  "into dec get upd v r = map_option (\<lambda>x. upd (\<lambda>_. x) r) (dec v (get r))"

definition zeroEnvelope :: Envelope where
  "zeroEnvelope = \<lparr>env_Type = '''', env_RequestID = '''', env_Payload = None\<rparr>"

definition envelopeFields :: "Envelope field list" where
  "envelopeFields =
     [(''type'', into decString env_Type env_Type_update),
      (''request_id'', into decString env_RequestID env_RequestID_update),
      (''payload'', into decRaw env_Payload env_Payload_update)]"

definition unmarshal_Envelope :: "bytes \<Rightarrow> Envelope option" where
  "unmarshal_Envelope s = json_Unmarshal (decStruct envelopeFields) s zeroEnvelope"

text \<open>The payloads are decoded from the bytes of the envelope's payload, which are empty when the
  envelope has none.\<close>

definition unmarshal_AcquireTask :: "char slice \<Rightarrow> AcquireTaskPayload option" where
  "unmarshal_AcquireTask s = json_Unmarshal (decStruct
     [(''task_id'', into decString atp_TaskID atp_TaskID_update)]) (elems s) \<lparr>atp_TaskID = ''''\<rparr>"

definition unmarshal_ReleaseTask :: "char slice \<Rightarrow> ReleaseTaskPayload option" where
  "unmarshal_ReleaseTask s = json_Unmarshal (decStruct
     [(''task_id'', into decString rtp_TaskID rtp_TaskID_update)]) (elems s) \<lparr>rtp_TaskID = ''''\<rparr>"

definition submitResultFields :: "SubmitResultPayload field list" where
  "submitResultFields =
     [(''task_id'', into decString srp_TaskID srp_TaskID_update),
      (''data'', into decRaw srp_Data srp_Data_update),
      (''meta'', into decRaw srp_Meta srp_Meta_update)]"

definition unmarshal_SubmitResult :: "char slice \<Rightarrow> SubmitResultPayload option" where
  "unmarshal_SubmitResult s = json_Unmarshal (decStruct submitResultFields) (elems s)
     \<lparr>srp_TaskID = '''', srp_Data = None, srp_Meta = None\<rparr>"

definition unmarshal_Subscribe :: "char slice \<Rightarrow> SubscribePayload option" where
  "unmarshal_Subscribe s = map_option (\<lambda>ts. \<lparr>sp_Tags = slice_of ts\<rparr>)
     (json_Unmarshal (decStruct [(''tags'', decSlice decString '''')]) (elems s) None)"

definition zeroObjectDiff :: ObjectDiff where
  "zeroObjectDiff = \<lparr>od_ObjectID = '''', od_Data = None, od_Version = 0, od_Meta = None\<rparr>"

definition objectDiffFields :: "ObjectDiff field list" where
  "objectDiffFields =
     [(''object_id'', into decString od_ObjectID od_ObjectID_update),
      (''data'', into decRaw od_Data od_Data_update),
      (''version'', into decUint64 od_Version od_Version_update),
      (''meta'', into decRaw od_Meta od_Meta_update)]"

definition unmarshal_WorldUpdate :: "char slice \<Rightarrow> WorldUpdatePayload option" where
  "unmarshal_WorldUpdate s = map_option (\<lambda>os. \<lparr>wup_Objects = slice_of os\<rparr>)
     (json_Unmarshal (decStruct [(''objects'', decSlice (decStruct objectDiffFields) zeroObjectDiff)]) (elems s) None)"

lemma foldName_fields [simp]:
  "foldName ''type'' = ''TYPE''" "foldName ''request_id'' = ''REQUEST_ID''" "foldName ''payload'' = ''PAYLOAD''"
  "foldName ''task_id'' = ''TASK_ID''" "foldName ''data'' = ''DATA''" "foldName ''meta'' = ''META''"
  "foldName ''tags'' = ''TAGS''" "foldName ''objects'' = ''OBJECTS''" "foldName ''object_id'' = ''OBJECT_ID''"
  "foldName ''version'' = ''VERSION''"
  by (simp_all add: foldName_ascii code_def char_of_eq_iff)

definition protocol_Decode :: "(char slice \<Rightarrow> 'p option) \<Rightarrow> Envelope \<Rightarrow> 'p option" where
  "protocol_Decode unmarshal env = unmarshal (env_Payload env)"

section \<open>What Encode writes\<close>

definition wellNested :: "char slice \<Rightarrow> bool" where
  \<comment> \<open>nil, or a JSON text that leaves room for the four levels of nesting around it\<close>
  "wellNested m = (case m of None \<Rightarrow> True | Some s \<Rightarrow> jsonValue 4 s \<noteq> None)"

definition raws :: "payload \<Rightarrow> char slice list" where
  \<comment> \<open>the raw messages that a payload contains\<close>
  "raws pl = (case pl of
       PSubmitResult p \<Rightarrow> srp_Data p # (if elems (srp_Meta p) = [] then [] else [srp_Meta p])
     | PTaskAvailable p \<Rightarrow> (if elems (tap_Hint p) = [] then [] else [tap_Hint p])
     | PWorldUpdate p \<Rightarrow> concat (map (\<lambda>d. od_Data d # (if elems (od_Meta d) = [] then [] else [od_Meta d])) (elems (wup_Objects p)))
     | _ \<Rightarrow> [])"

lemma depths [simp]: "d < 100 \<Longrightarrow> d < maxNestingDepth"
  by (simp add: maxNestingDepth_def)

lemma plain_keys [simp]:
  "keyTok ''type''" "keyTok ''request_id''" "keyTok ''payload''" "keyTok ''task_id''" "keyTok ''data''" "keyTok ''meta''"
  "keyTok ''tags''" "keyTok ''hint''" "keyTok ''lease_until_unix''" "keyTok ''reason''" "keyTok ''objects''"
  "keyTok ''object_id''" "keyTok ''version''" "keyTok ''code''" "keyTok ''message''"
  by (rule plainKey_keyTok(1), simp add: plainKey_def code_def htmlUnsafe_def)+

lemma unquote_keys [simp]:
  "unquote ''type'' = ''type''" "unquote ''request_id'' = ''request_id''" "unquote ''payload'' = ''payload''"
  "unquote ''task_id'' = ''task_id''" "unquote ''data'' = ''data''" "unquote ''meta'' = ''meta''"
  "unquote ''tags'' = ''tags''" "unquote ''objects'' = ''objects''" "unquote ''object_id'' = ''object_id''"
  "unquote ''version'' = ''version''"
  by (rule plainKey_keyTok(2), simp add: plainKey_def code_def htmlUnsafe_def)+

lemma marshalRaw_depth:
  assumes "wellNested m"
  obtains v where "marshalRaw m = Some v" and "jtext 4 v"
proof (cases m)
  case None
  with that [of jnull] show ?thesis by (simp add: marshalRaw_def jnull_def [symmetric])
next
  case (Some s)
  with assms obtain u where "jsonValue 4 s = Some u" by (auto simp: wellNested_def)
  with that Some compact_Some [of 4 s u] jsonValue_compact [of 4 s u] show ?thesis by (simp add: marshalRaw_def)
qed

lemma marshalRaw_depth2:
  assumes "wellNested m"
  obtains v where "marshalRaw m = Some v" and "jtext 2 v"
proof -
  obtain v where "marshalRaw m = Some v" "jtext 4 v" using marshalRaw_depth [OF assms] .
  with that jtext_mono [of 4 v 2] show thesis by simp
qed

lemma marshalRaw_jtext: "marshalRaw m = Some v \<Longrightarrow> jtext 0 v"
  by (auto simp: marshalRaw_def jnull_def [symmetric] dest: compact_jtext_0 split: option.splits)

lemma omitempty_Some:
  assumes "omitempty k m = Some ms"
  obtains "elems m = []" and "ms = []" | v where "elems m \<noteq> []" and "marshalRaw m = Some v" and "ms = [(k, v)]"
  using assms by (auto simp: omitempty_def split: if_splits)

lemma jtext_marshalStrings: "d < 100 \<Longrightarrow> jtext d (marshalStrings ss)"
  by (auto simp: marshalStrings_def jnull_def [symmetric] intro!: jtext_jarray split: option.splits)

definition rawsOf :: "ObjectDiff \<Rightarrow> char slice list" where
  "rawsOf d = od_Data d # (if elems (od_Meta d) = [] then [] else [od_Meta d])"

lemma raws_WorldUpdate: "raws (PWorldUpdate p) = concat (map rawsOf (elems (wup_Objects p)))"
  by (simp add: raws_def rawsOf_def [abs_def])

lemma those_map_Some:
  "(\<And>x. x \<in> set xs \<Longrightarrow> \<exists>y. f x = Some y \<and> P y) \<Longrightarrow> \<exists>ys. those (map f xs) = Some ys \<and> (\<forall>y \<in> set ys. P y)"
proof (induction xs)
  case (Cons x xs)
  obtain y where "f x = Some y" "P y" using Cons.prems [of x] by auto
  moreover obtain ys where "those (map f xs) = Some ys" "\<forall>y \<in> set ys. P y" using Cons by auto
  ultimately show ?case by simp
qed simp

lemma those_Some: "those xs = Some ys \<longleftrightarrow> xs = map Some ys"
proof (induction xs arbitrary: ys)
  case (Cons x xs)
  then show ?case by (cases ys) (auto split: option.splits)
qed auto

lemma marshal_ObjectDiff_ok:
  assumes "\<forall>m \<in> set (rawsOf d). wellNested m"
  shows "\<exists>v. marshal_ObjectDiff d = Some v \<and> jtext 3 v"
proof -
  obtain v where v: "marshalRaw (od_Data d) = Some v" "jtext 4 v"
    using assms marshalRaw_depth [of "od_Data d"] by (auto simp: rawsOf_def)
  show ?thesis
  proof (cases "elems (od_Meta d) = []")
    case True
    then show ?thesis using v by (auto simp: marshal_ObjectDiff_def omitempty_def jmember_def intro!: jtext_jobject)
  next
    case False
    then obtain u where "marshalRaw (od_Meta d) = Some u" "jtext 4 u"
      using assms marshalRaw_depth [of "od_Meta d"] by (auto simp: rawsOf_def)
    then show ?thesis using v False by (auto simp: marshal_ObjectDiff_def omitempty_def jmember_def intro!: jtext_jobject)
  qed
qed

lemma jtext_strings: "(\<And>m. m \<in> set ms \<Longrightarrow> keyTok (fst m) \<and> jtext (Suc d) (snd m)) \<Longrightarrow> d < 100 \<Longrightarrow> jtext d (jobject ms)"
  by (rule jtext_jobject) (auto simp: jmember_def)

lemma json_Marshal_ok:
  assumes "\<forall>m \<in> set (raws p). wellNested m"
  shows "\<exists>b. json_Marshal p = Some b \<and> jtext 1 b"
proof (cases p)
  case (PSubmitResult q)
  obtain v where v: "marshalRaw (srp_Data q) = Some v" "jtext 2 v"
    using assms PSubmitResult marshalRaw_depth2 [of "srp_Data q"] by (auto simp: raws_def)
  show ?thesis
  proof (cases "elems (srp_Meta q) = []")
    case True
    then show ?thesis using v by (auto simp: PSubmitResult json_Marshal_def omitempty_def numeral_2_eq_2 intro!: jtext_strings)
  next
    case False
    then obtain u where "marshalRaw (srp_Meta q) = Some u" "jtext 2 u"
      using assms PSubmitResult marshalRaw_depth2 [of "srp_Meta q"] by (auto simp: raws_def)
    then show ?thesis using v False
      by (auto simp: PSubmitResult json_Marshal_def omitempty_def numeral_2_eq_2 intro!: jtext_strings)
  qed
next
  case (PTaskAvailable q)
  show ?thesis
  proof (cases "elems (tap_Hint q) = []")
    case True
    then show ?thesis by (auto simp: PTaskAvailable json_Marshal_def omitempty_def intro!: jtext_strings jtext_marshalStrings)
  next
    case False
    then obtain u where "marshalRaw (tap_Hint q) = Some u" "jtext 2 u"
      using assms PTaskAvailable marshalRaw_depth2 [of "tap_Hint q"] by (auto simp: raws_def)
    then show ?thesis using False
      by (auto simp: PTaskAvailable json_Marshal_def omitempty_def numeral_2_eq_2 intro!: jtext_strings jtext_marshalStrings)
  qed
next
  case (PWorldUpdate q)
  show ?thesis
  proof (cases "wup_Objects q")
    case None
    then show ?thesis by (auto simp: PWorldUpdate json_Marshal_def intro!: jtext_strings)
  next
    case (Some ds)
    have "\<exists>v. marshal_ObjectDiff d = Some v \<and> jtext 3 v" if "d \<in> set ds" for d
      using that assms Some PWorldUpdate by (intro marshal_ObjectDiff_ok) (auto simp: raws_WorldUpdate)
    then obtain vs where "those (map marshal_ObjectDiff ds) = Some vs" "\<forall>v \<in> set vs. jtext 3 v"
      using those_map_Some [of ds marshal_ObjectDiff "jtext 3"] by blast
    moreover from this(2) have "jtext 2 (jarray vs)" by (intro jtext_jarray) (simp_all add: eval_nat_numeral)
    ultimately show ?thesis using Some
      by (auto simp: PWorldUpdate json_Marshal_def numeral_2_eq_2 intro!: jtext_strings)
  qed
qed (auto simp: json_Marshal_def intro!: jtext_strings jtext_marshalStrings)

lemma toValidUTF8_ascii: "\<forall>c \<in> set s. code c < 128 \<Longrightarrow> toValidUTF8 s = s"
  by (induction s) (simp_all add: toValidUTF8.simps(2))

section \<open>Round trips\<close>

lemma decStruct_jobject:
  assumes "\<And>m. m \<in> set ms \<Longrightarrow> jmember 0 m"
  shows "decStruct fs (jobject ms) cur = fold (decField fs) (map (\<lambda>(k, v). (unquote k, v)) ms) (Some cur)"
  using members_jobject [OF assms] by (simp add: decStruct_def)

lemma json_Unmarshal_jtext: "jtext 0 v \<Longrightarrow> \<forall>c \<in> set w. isSpace c \<Longrightarrow> json_Unmarshal dec (v @ w) cur = dec v cur"
  by (simp add: json_Unmarshal_def jsonValue_jtext)

lemma unmarshal_jobject:
  assumes "\<And>m. m \<in> set ms \<Longrightarrow> jmember 1 m"
  shows "json_Unmarshal (decStruct fs) (elems (Some (jobject ms))) cur =
     fold (decField fs) (map (\<lambda>(k, v). (unquote k, v)) ms) (Some cur)"
proof -
  have "jtext 0 (jobject ms)" using assms by (intro jtext_jobject) simp_all
  moreover have "\<And>m. m \<in> set ms \<Longrightarrow> jmember 0 m" using assms jmember_mono by blast
  ultimately show ?thesis
    using json_Unmarshal_jtext [of "jobject ms" "[]" "decStruct fs" cur] decStruct_jobject [of ms fs cur] by simp
qed

lemma omitempty_payload: "jtext 0 b \<Longrightarrow> omitempty ''payload'' (Some b) = Some [(''payload'', b)]"
  by (auto simp: omitempty_def marshalRaw_def compact_jtext) (simp add: jtext_def)

lemma envelope_members:
  assumes "\<And>v. p = Some v \<Longrightarrow> jtext d v"
  shows "m \<in> set ([(''type'', jstring t)] @ (if rid = '''' then [] else [(''request_id'', jstring rid)]) @
      (case p of None \<Rightarrow> [] | Some v \<Rightarrow> [(''payload'', v)])) \<Longrightarrow> jmember d m"
  using assms by (auto simp: jmember_def split: if_splits option.splits)

definition envelopeText :: "string \<Rightarrow> string \<Rightarrow> bytes option \<Rightarrow> bytes" where
  "envelopeText t rid p = jobject ([(''type'', jstring t)] @ (if rid = '''' then [] else [(''request_id'', jstring rid)]) @
      (case p of None \<Rightarrow> [] | Some v \<Rightarrow> [(''payload'', v)]))"

lemma marshal_Envelope_text:
  assumes "\<And>v. p = Some v \<Longrightarrow> jtext 0 v"
  shows "marshal_Envelope \<lparr>env_Type = t, env_RequestID = rid, env_Payload = p\<rparr> = Some (envelopeText t rid p)"
proof (cases p)
  case None
  then show ?thesis by (simp add: marshal_Envelope_def envelopeText_def omitempty_def)
next
  case (Some v)
  with assms show ?thesis by (simp add: marshal_Envelope_def envelopeText_def omitempty_payload)
qed

lemma unmarshal_envelopeText:
  assumes "\<And>v. p = Some v \<Longrightarrow> jtext 1 v" and "\<forall>c \<in> set w. isSpace c"
  shows "unmarshal_Envelope (envelopeText t rid p @ w) =
    Some \<lparr>env_Type = toValidUTF8 t, env_RequestID = toValidUTF8 rid, env_Payload = p\<rparr>"
proof -
  have "jtext 0 (envelopeText t rid p)"
    unfolding envelopeText_def using envelope_members [of p 1] assms(1) by (intro jtext_jobject) auto
  moreover have "\<And>v. p = Some v \<Longrightarrow> jtext 0 v" using assms(1) jtext_mono by blast
  note mem = envelope_members [OF this, where t = t and rid = rid]
  have "decStruct envelopeFields (envelopeText t rid p) zeroEnvelope =
      Some \<lparr>env_Type = toValidUTF8 t, env_RequestID = toValidUTF8 rid, env_Payload = p\<rparr>"
  proof -
    let ?ms = "[(''type'', jstring t)] @ (if rid = '''' then [] else [(''request_id'', jstring rid)]) @
      (case p of None \<Rightarrow> [] | Some v \<Rightarrow> [(''payload'', v)])"
    have "decStruct envelopeFields (jobject ?ms) zeroEnvelope =
        fold (decField envelopeFields) (map (\<lambda>(k, v). (unquote k, v)) ?ms) (Some zeroEnvelope)"
      by (rule decStruct_jobject) (rule mem)
    then show ?thesis
      unfolding envelopeText_def
      by (cases p; cases "rid = ''''") (simp_all add: envelopeFields_def decField_def into_def zeroEnvelope_def)
  qed
  ultimately show ?thesis using assms(2) by (simp add: unmarshal_Envelope_def json_Unmarshal_jtext)
qed

lemma encode_unmarshal_spaced:
  assumes "\<forall>p \<in> set_option pl. \<forall>m \<in> set (raws p). wellNested m"
  obtains b where "protocol_Encode t rid pl = Some b"
    and "\<And>w. \<forall>c \<in> set w. isSpace c \<Longrightarrow> unmarshal_Envelope (b @ w) =
       Some \<lparr>env_Type = toValidUTF8 t, env_RequestID = toValidUTF8 rid, env_Payload = Option.bind pl json_Marshal\<rparr>"
    and "case pl of None \<Rightarrow> True | Some p \<Rightarrow> json_Marshal p \<noteq> None"
proof -
  obtain b where b: "Option.bind pl json_Marshal = b" "\<And>v. b = Some v \<Longrightarrow> jtext 1 v" "pl = None \<longleftrightarrow> b = None"
  proof (cases pl)
    case None
    with that [of None] show ?thesis by simp
  next
    case (Some p)
    with json_Marshal_ok [of p] assms that show ?thesis by auto
  qed
  have jt: "\<And>v. b = Some v \<Longrightarrow> jtext 0 v" using b(2) jtext_mono by blast
  have "protocol_Encode t rid pl = Some (envelopeText t rid b)"
    using b marshal_Envelope_text [where p = b, OF jt, where t = t and rid = rid] by (cases pl) (auto simp: protocol_Encode_def)
  moreover have "unmarshal_Envelope (envelopeText t rid b @ w) =
      Some \<lparr>env_Type = toValidUTF8 t, env_RequestID = toValidUTF8 rid, env_Payload = b\<rparr>" if "\<forall>c \<in> set w. isSpace c" for w
    using b(2) that by (rule unmarshal_envelopeText)
  moreover have "case pl of None \<Rightarrow> True | Some p \<Rightarrow> json_Marshal p \<noteq> None" using b by (auto split: option.split)
  ultimately show ?thesis using that b(1) by blast
qed

lemma encode_then_unmarshal:
  assumes "\<forall>p \<in> set_option pl. \<forall>m \<in> set (raws p). wellNested m"
  shows "\<exists>b. protocol_Encode t rid pl = Some b \<and>
     unmarshal_Envelope (b @ ''\<newline>'') =
       Some \<lparr>env_Type = toValidUTF8 t, env_RequestID = toValidUTF8 rid, env_Payload = Option.bind pl json_Marshal\<rparr> \<and>
     (case pl of None \<Rightarrow> True | Some p \<Rightarrow> json_Marshal p \<noteq> None)"
proof -
  obtain b where "protocol_Encode t rid pl = Some b" "unmarshal_Envelope (b @ ''\<newline>'') =
       Some \<lparr>env_Type = toValidUTF8 t, env_RequestID = toValidUTF8 rid, env_Payload = Option.bind pl json_Marshal\<rparr>"
    "case pl of None \<Rightarrow> True | Some p \<Rightarrow> json_Marshal p \<noteq> None"
    by (rule encode_unmarshal_spaced [OF assms, of t rid]) (simp add: isSpace_def)
  then show ?thesis by blast
qed

text \<open>C19. The wire format is faithful: \<open>Encode\<close> succeeds on every payload whose raw messages are nil or
  well-formed JSON (nested at most 9996 levels deep), and what a peer decodes from the line is an envelope with the
  same type and request ID (up to the replacement of invalid UTF-8) whose payload is the text of the
  payload; a message without payload arrives without payload.\<close>

theorem encode_decode:
  assumes "\<forall>p \<in> set_option pl. \<forall>m \<in> set (raws p). wellNested m"
  shows "\<exists>b. protocol_Encode t rid pl = Some b \<and>
     unmarshal_Envelope (b @ ''\<newline>'') =
       Some \<lparr>env_Type = toValidUTF8 t, env_RequestID = toValidUTF8 rid, env_Payload = Option.bind pl json_Marshal\<rparr> \<and>
     (case pl of None \<Rightarrow> True | Some p \<Rightarrow> json_Marshal p \<noteq> None)"
  using assms by (rule encode_then_unmarshal)

definition exampleSubmit :: SubmitResultPayload where
  "exampleSubmit = \<lparr>srp_TaskID = ''t'', srp_Data = Some '' [1, 2]'', srp_Meta = None\<rparr>"

lemma exampleSubmit_nested: "\<forall>m \<in> set (raws (PSubmitResult exampleSubmit)). wellNested m"
proof -
  have "jsonValue 4 '' [1, 2]'' \<noteq> None" by code_simp
  then show "\<forall>m \<in> set (raws (PSubmitResult exampleSubmit)). wellNested m"
    by (simp add: raws_def exampleSubmit_def wellNested_def)
qed

theorem encode_decode_witness:
  "\<exists>b. protocol_Encode MsgSubmitResult ''r1'' (Some (PSubmitResult exampleSubmit)) = Some b \<and>
     map_option env_RequestID (unmarshal_Envelope (b @ ''\<newline>'')) = Some (toValidUTF8 ''r1'')"
proof -
  have "\<forall>p \<in> set_option (Some (PSubmitResult exampleSubmit)). \<forall>m \<in> set (raws p). wellNested m"
    using exampleSubmit_nested by simp
  from encode_decode [where t = MsgSubmitResult and rid = "''r1''", OF this]
  obtain b where
    "protocol_Encode MsgSubmitResult ''r1'' (Some (PSubmitResult exampleSubmit)) = Some b"
    "unmarshal_Envelope (b @ ''\<newline>'') = Some \<lparr>env_Type = toValidUTF8 MsgSubmitResult, env_RequestID = toValidUTF8 ''r1'',
       env_Payload = Option.bind (Some (PSubmitResult exampleSubmit)) json_Marshal\<rparr>" by (elim exE conjE) (rule that)
  then show ?thesis by (intro exI [of _ b]) simp
qed

lemma unmarshal_submit_json:
  assumes "\<forall>m \<in> set (raws (PSubmitResult p)). wellNested m"
  shows "unmarshal_SubmitResult (json_Marshal (PSubmitResult p)) =
      Some \<lparr>srp_TaskID = toValidUTF8 (srp_TaskID p), srp_Data = marshalRaw (srp_Data p),
         srp_Meta = (if elems (srp_Meta p) = [] then None else marshalRaw (srp_Meta p))\<rparr>"
proof -
  have data: "wellNested (srp_Data p)" using assms by (simp add: raws_def)
  obtain d where d: "marshalRaw (srp_Data p) = Some d" "jtext 2 d" using marshalRaw_depth2 [OF data] .
  show ?thesis
  proof (cases "elems (srp_Meta p) = []")
    case True
    then have m: "json_Marshal (PSubmitResult p) = Some (jobject [(''task_id'', jstring (srp_TaskID p)), (''data'', d)])"
      using d(1) by (simp add: json_Marshal_def omitempty_def)
    show ?thesis
      unfolding m unmarshal_SubmitResult_def using d True jtext_mono [OF d(2), of 1] jtext_mono [OF d(2), of 0]
      by (subst unmarshal_jobject) (auto simp: jmember_def submitResultFields_def decField_def into_def)
  next
    case False
    then have "wellNested (srp_Meta p)" using assms by (simp add: raws_def)
    then obtain u where u: "marshalRaw (srp_Meta p) = Some u" "jtext 2 u" using marshalRaw_depth2 by blast
    then have m: "json_Marshal (PSubmitResult p) =
        Some (jobject [(''task_id'', jstring (srp_TaskID p)), (''data'', d), (''meta'', u)])"
      using d(1) False by (simp add: json_Marshal_def omitempty_def)
    show ?thesis
      unfolding m unmarshal_SubmitResult_def using d False u jtext_mono [OF d(2), of 1] jtext_mono [OF u(2), of 1]
      by (subst unmarshal_jobject) (auto simp: jmember_def submitResultFields_def decField_def into_def)
  qed
qed

text \<open>Submissions survive the wire: the payload a peer decodes from an encoded \<open>submit_result\<close> has the
  task, the data and the metadata that were sent, the raw messages compacted, a nil data as \<open>null\<close> and
  empty metadata as none.\<close>

theorem submit_result_roundtrip:
  assumes "\<forall>m \<in> set (raws (PSubmitResult p)). wellNested m"
  shows "\<exists>b env. protocol_Encode t rid (Some (PSubmitResult p)) = Some b \<and> unmarshal_Envelope (b @ ''\<newline>'') = Some env \<and>
     unmarshal_SubmitResult (env_Payload env) =
       Some \<lparr>srp_TaskID = toValidUTF8 (srp_TaskID p), srp_Data = marshalRaw (srp_Data p),
         srp_Meta = (if elems (srp_Meta p) = [] then None else marshalRaw (srp_Meta p))\<rparr>"
proof -
  obtain b where b: "protocol_Encode t rid (Some (PSubmitResult p)) = Some b"
      "unmarshal_Envelope (b @ ''\<newline>'') = Some \<lparr>env_Type = toValidUTF8 t, env_RequestID = toValidUTF8 rid,
         env_Payload = json_Marshal (PSubmitResult p)\<rparr>"
    using encode_then_unmarshal [of "Some (PSubmitResult p)", where t = t and rid = rid] assms by auto
  with b unmarshal_submit_json [OF assms] show ?thesis by auto
qed

theorem submit_result_roundtrip_witness:
  "\<exists>b env. protocol_Encode MsgSubmitResult ''r1'' (Some (PSubmitResult exampleSubmit)) = Some b \<and>
     unmarshal_Envelope (b @ ''\<newline>'') = Some env \<and>
     map_option srp_Meta (unmarshal_SubmitResult (env_Payload env)) = Some None"
proof -
  from submit_result_roundtrip [OF exampleSubmit_nested, where t = MsgSubmitResult and rid = "''r1''"] obtain b env where
    "protocol_Encode MsgSubmitResult ''r1'' (Some (PSubmitResult exampleSubmit)) = Some b"
    "unmarshal_Envelope (b @ ''\<newline>'') = Some env"
    "unmarshal_SubmitResult (env_Payload env) = Some \<lparr>srp_TaskID = toValidUTF8 (srp_TaskID exampleSubmit),
       srp_Data = marshalRaw (srp_Data exampleSubmit),
       srp_Meta = (if elems (srp_Meta exampleSubmit) = [] then None else marshalRaw (srp_Meta exampleSubmit))\<rparr>" by blast
  then show ?thesis by (auto simp: exampleSubmit_def)
qed

definition receivedDiff :: "ObjectDiff \<Rightarrow> ObjectDiff" where
  "receivedDiff d = \<lparr>od_ObjectID = toValidUTF8 (od_ObjectID d), od_Data = marshalRaw (od_Data d),
     od_Version = od_Version d, od_Meta = (if elems (od_Meta d) = [] then None else marshalRaw (od_Meta d))\<rparr>"

lemma decode_ObjectDiff:
  assumes "\<forall>m \<in> set (rawsOf d). wellNested m" and "marshal_ObjectDiff d = Some v"
  shows "decStruct objectDiffFields v zeroObjectDiff = Some (receivedDiff d)"
proof -
  obtain u where u: "marshalRaw (od_Data d) = Some u" "jtext 4 u"
    using assms(1) marshalRaw_depth [of "od_Data d"] by (auto simp: rawsOf_def)
  have u0: "jtext 0 u" using u(2) by (rule jtext_mono) simp
  let ?ms = "[(''object_id'', jstring (od_ObjectID d)), (''data'', u), (''version'', showNat (unat (od_Version d)))]"
  show ?thesis
  proof (cases "elems (od_Meta d) = []")
    case True
    then have v: "v = jobject ?ms" using assms(2) u(1) by (simp add: marshal_ObjectDiff_def omitempty_def)
    have "decStruct objectDiffFields (jobject ?ms) zeroObjectDiff =
        fold (decField objectDiffFields) (map (\<lambda>(k, v). (unquote k, v)) ?ms) (Some zeroObjectDiff)"
      by (rule decStruct_jobject) (auto simp: jmember_def u0)
    then show ?thesis
      by (simp add: v True u(1) receivedDiff_def objectDiffFields_def decField_def into_def zeroObjectDiff_def)
  next
    case False
    then obtain w where w: "marshalRaw (od_Meta d) = Some w" "jtext 4 w"
      using assms(1) marshalRaw_depth [of "od_Meta d"] by (auto simp: rawsOf_def)
    have w0: "jtext 0 w" using w(2) by (rule jtext_mono) simp
    let ?ms' = "?ms @ [(''meta'', w)]"
    have v: "v = jobject ?ms'" using assms(2) u(1) w(1) False by (simp add: marshal_ObjectDiff_def omitempty_def)
    have "decStruct objectDiffFields (jobject ?ms') zeroObjectDiff =
        fold (decField objectDiffFields) (map (\<lambda>(k, v). (unquote k, v)) ?ms') (Some zeroObjectDiff)"
      by (rule decStruct_jobject) (auto simp: jmember_def u0 w0)
    then show ?thesis
      by (simp add: v False u(1) w(1) receivedDiff_def objectDiffFields_def decField_def into_def zeroObjectDiff_def)
  qed
qed

lemma decElems_fresh:
  "(\<And>v x. (v, x) \<in> set (zip vs xs) \<Longrightarrow> dec v zero = Some x) \<Longrightarrow> length vs = length xs \<Longrightarrow> decElems dec zero vs [] = Some xs"
proof (induction xs arbitrary: vs)
  case (Cons x xs)
  obtain v vs' where vs: "vs = v # vs'" using Cons.prems(2) by (cases vs) auto
  then have "decElems dec zero vs' [] = Some xs" using Cons by simp
  moreover have "dec v zero = Some x" using Cons.prems(1) vs by simp
  ultimately show ?case by (simp add: vs)
qed simp

lemma decSlice_fresh:
  assumes "elements v = Some vs" and "v \<noteq> jnull" and "length vs = length xs"
    and "\<And>w x. (w, x) \<in> set (zip vs xs) \<Longrightarrow> dec w zero = Some x"
  shows "\<exists>more. decSlice dec zero v None = Some (Some (xs, more))"
  using decElems_fresh [of vs xs dec zero] assms by (auto simp: decSlice_def)

lemma unmarshal_update_json:
  assumes "\<forall>m \<in> set (raws (PWorldUpdate p)). wellNested m"
  shows "unmarshal_WorldUpdate (json_Marshal (PWorldUpdate p)) =
      Some \<lparr>wup_Objects = map_option (map receivedDiff) (wup_Objects p)\<rparr>"
proof (cases "wup_Objects p")
  case None
  then have m: "json_Marshal (PWorldUpdate p) = Some (jobject [(''objects'', jnull)])" by (simp add: json_Marshal_def)
  show ?thesis unfolding m unmarshal_WorldUpdate_def
    by (subst unmarshal_jobject) (auto simp: jmember_def decField_def decSlice_def slice_of_def None)
next
  case (Some ds)
  have ok: "\<forall>m \<in> set (rawsOf d). wellNested m" if "d \<in> set ds" for d
    using that assms Some by (auto simp: raws_WorldUpdate)
  have "\<exists>v. marshal_ObjectDiff d = Some v \<and> jtext 3 v" if "d \<in> set ds" for d
    using marshal_ObjectDiff_ok ok [OF that] .
  then obtain vs where vs: "those (map marshal_ObjectDiff ds) = Some vs" "\<forall>v \<in> set vs. jtext 3 v"
    using those_map_Some [of ds marshal_ObjectDiff "jtext 3"] by blast
  from vs(1) have each: "map marshal_ObjectDiff ds = map Some vs" by (simp add: those_Some)
  have m: "json_Marshal (PWorldUpdate p) = Some (jobject [(''objects'', jarray vs)])"
    using Some vs(1) by (simp add: json_Marshal_def)
  have arr: "jtext 1 (jarray vs)" using vs(2) jtext_mono [of 3 _ 2]
    by (intro jtext_jarray) (simp_all add: numeral_2_eq_2)
  have "elements (jarray vs) = Some vs" using vs(2) jtext_mono [of 3 _ 0] by (intro elements_jarray) blast
  moreover have len: "length vs = length ds" using each by (metis length_map)
  moreover have "decStruct objectDiffFields v zeroObjectDiff = Some x" if "(v, x) \<in> set (zip vs (map receivedDiff ds))" for v x
  proof -
    from that len obtain i where i: "i < length ds" "v = vs ! i" "x = receivedDiff (ds ! i)"
      by (auto simp: in_set_zip)
    have "marshal_ObjectDiff (ds ! i) = Some v"
      using each i len by (metis nth_map)
    with decode_ObjectDiff [OF ok] i show ?thesis by simp
  qed
  ultimately obtain more where "decSlice (decStruct objectDiffFields) zeroObjectDiff (jarray vs) None =
      Some (Some (map receivedDiff ds, more))"
    using decSlice_fresh [of "jarray vs" vs "map receivedDiff ds" "decStruct objectDiffFields" zeroObjectDiff] by auto
  then show ?thesis unfolding m unmarshal_WorldUpdate_def using arr
    by (subst unmarshal_jobject) (auto simp: jmember_def decField_def slice_of_def Some)
qed

text \<open>World updates survive the wire: every object of an encoded \<open>world_update\<close> arrives, in order, with
  its ID, its version and its compacted data and metadata.\<close>

theorem world_update_roundtrip:
  assumes "\<forall>m \<in> set (raws (PWorldUpdate p)). wellNested m"
  shows "\<exists>b env. protocol_Encode t rid (Some (PWorldUpdate p)) = Some b \<and> unmarshal_Envelope (b @ ''\<newline>'') = Some env \<and>
     unmarshal_WorldUpdate (env_Payload env) = Some \<lparr>wup_Objects = map_option (map receivedDiff) (wup_Objects p)\<rparr>"
proof -
  obtain b where b: "protocol_Encode t rid (Some (PWorldUpdate p)) = Some b"
      "unmarshal_Envelope (b @ ''\<newline>'') = Some \<lparr>env_Type = toValidUTF8 t, env_RequestID = toValidUTF8 rid,
         env_Payload = json_Marshal (PWorldUpdate p)\<rparr>"
    using encode_then_unmarshal [of "Some (PWorldUpdate p)", where t = t and rid = rid] assms by auto
  with b unmarshal_update_json [OF assms] show ?thesis by auto
qed

definition exampleUpdate :: WorldUpdatePayload where
  "exampleUpdate = \<lparr>wup_Objects = Some [\<lparr>od_ObjectID = ''o'', od_Data = Some ''[1]'', od_Version = 3, od_Meta = None\<rparr>]\<rparr>"

theorem world_update_roundtrip_witness:
  "\<exists>b env. protocol_Encode MsgWorldUpdate '''' (Some (PWorldUpdate exampleUpdate)) = Some b \<and>
     unmarshal_Envelope (b @ ''\<newline>'') = Some env \<and>
     map_option (\<lambda>p. map od_Version (elems (wup_Objects p))) (unmarshal_WorldUpdate (env_Payload env)) = Some [3]"
proof -
  have "jsonValue 4 ''[1]'' \<noteq> None" by code_simp
  then have "\<forall>m \<in> set (raws (PWorldUpdate exampleUpdate)). wellNested m"
    by (auto simp: raws_WorldUpdate exampleUpdate_def rawsOf_def wellNested_def)
  from world_update_roundtrip [OF this, where t = MsgWorldUpdate and rid = "''''"] obtain b env where
    "protocol_Encode MsgWorldUpdate '''' (Some (PWorldUpdate exampleUpdate)) = Some b"
    "unmarshal_Envelope (b @ ''\<newline>'') = Some env"
    "unmarshal_WorldUpdate (env_Payload env) = Some \<lparr>wup_Objects = map_option (map receivedDiff) (wup_Objects exampleUpdate)\<rparr>"
    by (elim exE conjE) (rule that)
  then show ?thesis by (intro exI [of _ b] exI [of _ env]) (simp add: exampleUpdate_def receivedDiff_def)
qed

section \<open>One message, one line\<close>

lemma printable_jobject:
  "(\<And>m. m \<in> set ms \<Longrightarrow> printable (memberText m)) \<Longrightarrow> printable (jobject ms)"
proof -
  assume "\<And>m. m \<in> set ms \<Longrightarrow> printable (memberText m)"
  then have "printable v" if "v \<in> set (map memberText ms)" for v using that by fastforce
  then have "printable (join '','' (map memberText ms))" by (rule printable_join)
  then show ?thesis by (simp add: jobject_alt code_def)
qed

lemma printable_jstring [simp]: "printable (jstring s)"
  using jtext_jstring [of 0 s] by (simp add: jtext_def)

lemma printable_key: "keyTok k \<Longrightarrow> printable v \<Longrightarrow> printable (memberText (k, v))"
  by (simp add: memberText_def keyTok_def code_def)

lemma marshal_Envelope_printable: "marshal_Envelope env = Some b \<Longrightarrow> printable b"
proof -
  assume b: "marshal_Envelope env = Some b"
  then obtain pl where pl: "omitempty ''payload'' (env_Payload env) = Some pl"
      "b = jobject ([(''type'', jstring (env_Type env))] @
       (if env_RequestID env = '''' then [] else [(''request_id'', jstring (env_RequestID env))]) @ pl)"
    by (auto simp: marshal_Envelope_def bind_eq_Some_conv)
  have "printable (memberText m)" if "m \<in> set pl" for m
    using pl(1)
  proof (cases rule: omitempty_Some)
    case (2 v)
    with that marshalRaw_jtext [OF 2(2)] show ?thesis by (auto simp: jtext_def intro: printable_key)
  qed (use that in simp)
  then show ?thesis unfolding pl(2) by (intro printable_jobject) (auto intro: printable_key split: if_splits)
qed

text \<open>Framing: an encoded message contains no byte below a space, in particular no line feed, whatever
  its strings and raw messages contain, so the line feed that is written behind each message ends
  exactly that message.\<close>

theorem encode_one_line:
  assumes "protocol_Encode t rid pl = Some b"
  shows "\<forall>c \<in> set b. 32 \<le> code c"
  using assms by (auto simp: protocol_Encode_def bind_eq_Some_conv printable_def
      dest!: marshal_Envelope_printable split: option.splits)

theorem encode_one_line_witness:
  "\<exists>b. protocol_Encode ''error'' ''\<newline>'' None = Some b \<and> CHR 0x0A \<notin> set b"
proof -
  obtain b where b: "protocol_Encode ''error'' ''\<newline>'' None = Some b"
    by (simp add: protocol_Encode_def marshal_Envelope_def omitempty_def)
  from encode_one_line [OF b] have "CHR 0x0A \<notin> set b" by (auto simp: code_def)
  with b show ?thesis by blast
qed

end
