(* ===== verification/Dispatcher.thy ===== *)
theory Dispatcher imports Session Task Merge Metrics Protocol begin

text \<open>
  \<open>internal/dispatcher/dispatcher.go\<close>: the requests of a client and their replies.

  The dispatcher holds pointers to the session manager, the task registry, the world, the merge
  coordinator and the recorder of metrics.  The callbacks of the registry and of the world reach the
  manager and the recorder, so these two and the log are the environment \<open>Effects\<close> of the registry and
  of the world; the state of the dispatcher is that environment together with the registry and the
  world.

  What a handler does not determine is an argument of type \<open>Oracle\<close>: the clock readings, the order in
  which Go ranges over the map of tasks, and the text of a JSON error, which is passed on to the
  client.
\<close>

section \<open>State\<close>

datatype logline =
    MetricsLine string
  | PartialApply string string merge_error
  | ReleasedTasks string nat

record Effects =
  fx_manager :: Manager
  fx_metrics :: "Recorder option"
  fx_log :: "logline list"

record Dispatcher =
  disp_fx :: Effects
  disp_registry :: "Effects Registry"
  disp_world :: "Effects World"
  disp_coord :: Coordinator

record Oracle =
  or_now :: gotime
  or_lease :: gotime
  or_updated :: gotime
  or_metrics :: gotime
  or_world :: "nat \<Rightarrow> gotime"
  or_tasks :: "string list"
  or_errText :: "bytes \<Rightarrow> string"

definition dispatcher_New ::
    "Manager \<Rightarrow> Recorder option \<Rightarrow> Effects Registry \<Rightarrow> Coordinator \<Rightarrow> Effects World \<Rightarrow> Dispatcher" where
  "dispatcher_New m mr r c w =
     \<lparr>disp_fx = \<lparr>fx_manager = m, fx_metrics = mr, fx_log = []\<rparr>, disp_registry = r, disp_world = w, disp_coord = c\<rparr>"

definition record_metric :: "(Recorder option \<Rightarrow> Recorder option \<times> string list) \<Rightarrow> Effects \<Rightarrow> Effects" where
  "record_metric f e =
     (case f (fx_metrics e) of (r, ls) \<Rightarrow> e\<lparr>fx_metrics := r, fx_log := fx_log e @ map MetricsLine ls\<rparr>)"

definition disp_metric :: "(Recorder option \<Rightarrow> Recorder option \<times> string list) \<Rightarrow> Dispatcher \<Rightarrow> Dispatcher" where
  "disp_metric f d = d\<lparr>disp_fx := record_metric f (disp_fx d)\<rparr>"

definition disp_session :: "Dispatcher \<Rightarrow> sptr \<Rightarrow> Session" where
  "disp_session d p = heap (fx_manager (disp_fx d)) p"

definition disp_at :: "sptr \<Rightarrow> (Session \<Rightarrow> Session) \<Rightarrow> Dispatcher \<Rightarrow> Dispatcher" where
  "disp_at p f d = d\<lparr>disp_fx := (disp_fx d)\<lparr>fx_manager := at_ptr p f (fx_manager (disp_fx d))\<rparr>\<rparr>"

type_synonym reply = "Dispatcher \<times> session_error option outcome"

definition disp_Send :: "sptr \<Rightarrow> msg \<Rightarrow> Dispatcher \<Rightarrow> reply" where
  "disp_Send p m d = (disp_at p (\<lambda>s. fst (session_Send s m)) d, Returns (snd (session_Send (disp_session d p) m)))"

fun task_error_text :: "task_error \<Rightarrow> string" where
  "task_error_text ErrTaskNotFound = ''task not found''"
| "task_error_text ErrTaskNotAvailable = ''task not available: already owned''"
| "task_error_text ErrNotOwner = ''client does not own this task''"
| "task_error_text ErrTaskAlreadyExists = ''task already registered''"

fun session_error_text :: "session_error \<Rightarrow> string" where
  "session_error_text ErrSessionNotFound = ''session not found''"
| "session_error_text ErrSessionClosed = ''session is closed''"

definition Unix :: "gotime \<Rightarrow> int" where
  \<comment> \<open>\<open>Time.Unix()\<close>: seconds since 1970; year 1 began 62135596800 seconds before\<close>
  "Unix t = t div Second - 62135596800"

section \<open>Handlers\<close>

definition disp_sendError :: "sptr \<Rightarrow> string \<Rightarrow> string \<Rightarrow> string \<Rightarrow> Dispatcher \<Rightarrow> reply" where
  \<comment> \<open>an error of \<open>Encode\<close> is ignored, and the message is \<open>nil\<close> then\<close>
  "disp_sendError p requestID kode message d =
     disp_Send p (protocol_Encode MsgError requestID (Some (PError \<lparr>ep_Code = kode, ep_Message = message\<rparr>))) d"

definition disp_rejectResult :: "sptr \<Rightarrow> string \<Rightarrow> string \<Rightarrow> string \<Rightarrow> Dispatcher \<Rightarrow> reply" where
  "disp_rejectResult p requestID taskID reason d =
     disp_Send p (protocol_Encode MsgResultRejected requestID
       (Some (PResultRejected \<lparr>rrp_TaskID = taskID, rrp_Reason = reason\<rparr>))) d"

definition handleAcquire :: "Oracle \<Rightarrow> sptr \<Rightarrow> Envelope \<Rightarrow> Dispatcher \<Rightarrow> reply" where
  "handleAcquire orc p env d =
     (case unmarshal_AcquireTask (env_Payload env) of
        None \<Rightarrow> disp_sendError p (env_RequestID env) ''bad_payload'' (or_errText orc (elems (env_Payload env))) d
      | Some pl \<Rightarrow>
          let tid = atp_TaskID pl; sid = sess_ID (disp_session d p);
              (r, e, res) = registry_Acquire (or_now orc) (or_lease orc) (or_updated orc) (disp_registry d) tid sid
                              \<lparr>opt_Duration = 0\<rparr> (disp_fx d);
              d1 = d\<lparr>disp_registry := r, disp_fx := e\<rparr>
          in (case res of
                Panics \<Rightarrow> (d1, Panics)
              | Returns (Inl err) \<Rightarrow>
                  disp_Send p (protocol_Encode MsgTaskAcquiredFail (env_RequestID env)
                    (Some (PTaskAcquiredFail \<lparr>tfp_TaskID = tid, tfp_Reason = task_error_text err\<rparr>))) d1
              | Returns (Inr ar) \<Rightarrow>
                  disp_Send p (protocol_Encode MsgTaskAcquiredOK (env_RequestID env)
                    (Some (PTaskAcquiredOK \<lparr>tok_TaskID = tid, tok_LeaseUntil = Unix (acq_LeaseUntil ar)\<rparr>)))
                    (disp_metric (TaskClaimed (or_metrics orc) tid sid DefaultLeaseDuration) d1)))"

definition handleRelease :: "Oracle \<Rightarrow> sptr \<Rightarrow> Envelope \<Rightarrow> Dispatcher \<Rightarrow> reply" where
  "handleRelease orc p env d =
     (case unmarshal_ReleaseTask (env_Payload env) of
        None \<Rightarrow> disp_sendError p (env_RequestID env) ''bad_payload'' (or_errText orc (elems (env_Payload env))) d
      | Some pl \<Rightarrow>
          let tid = rtp_TaskID pl; sid = sess_ID (disp_session d p);
              (r, e, err) = registry_Release (or_now orc) (disp_registry d) tid sid (disp_fx d);
              d1 = d\<lparr>disp_registry := r, disp_fx := e\<rparr>
          in (case err of
                Some x \<Rightarrow> disp_sendError p (env_RequestID env) ''release_failed'' (task_error_text x) d1
              | None \<Rightarrow> (disp_metric (TaskReleased tid sid) d1, Returns None)))"

definition partialLog :: "string \<Rightarrow> PerUpdateResult list \<Rightarrow> logline list" where
  "partialLog tid applied =
     concat (map (\<lambda>r. case pur_Error r of None \<Rightarrow> [] | Some err \<Rightarrow> [PartialApply tid (pur_ObjectID r) err]) applied)"

definition handleSubmit :: "Oracle \<Rightarrow> sptr \<Rightarrow> Envelope \<Rightarrow> Dispatcher \<Rightarrow> reply" where
  "handleSubmit orc p env d =
     (case unmarshal_SubmitResult (env_Payload env) of
        None \<Rightarrow> disp_sendError p (env_RequestID env) ''bad_payload'' (or_errText orc (elems (env_Payload env))) d
      | Some pl \<Rightarrow>
          let tid = srp_TaskID pl; sid = sess_ID (disp_session d p); rid = env_RequestID env
          in (case registry_Get (disp_registry d) tid of
                Inl _ \<Rightarrow> disp_rejectResult p rid tid ''task not found'' (disp_metric (TaskRejected tid sid ''task not found'') d)
              | Inr t \<Rightarrow>
                  if task_OwnerID t \<noteq> sid then
                    disp_rejectResult p rid tid ''not owner'' (disp_metric (TaskRejected tid sid ''not owner'') d)
                  else
                    (let (w, e, result) = coordinator_Submit (or_world orc) (disp_coord d) (disp_world d) (disp_fx d)
                           \<lparr>sub_TaskID = tid, sub_OwnerID = sid, sub_Data = srp_Data pl, sub_Meta = srp_Meta pl\<rparr>;
                         d1 = d\<lparr>disp_world := w, disp_fx := e\<rparr>
                     in if \<not> res_Accepted result then
                          disp_rejectResult p rid tid (res_Reason result)
                            (disp_metric (TaskRejected tid sid (res_Reason result)) d1)
                        else
                          (let d2 = d1\<lparr>disp_fx := e\<lparr>fx_log := fx_log e @ partialLog tid (res_Applied result)\<rparr>\<rparr>
                           in disp_Send p (protocol_Encode MsgResultAccepted rid (Some (PResultAccepted \<lparr>rap_TaskID = tid\<rparr>)))
                                (disp_metric (TaskCompleted (or_metrics orc) tid sid) d2)))))"

definition availableMsg :: "string \<Rightarrow> string slice \<Rightarrow> char slice \<Rightarrow> msg" where
  "availableMsg tid tags hint =
     protocol_Encode MsgTaskAvailable '''' (Some (PTaskAvailable \<lparr>tap_TaskID = tid, tap_Tags = tags, tap_Hint = hint\<rparr>))"

definition handleSubscribe :: "Oracle \<Rightarrow> sptr \<Rightarrow> Envelope \<Rightarrow> Dispatcher \<Rightarrow> reply" where
  "handleSubscribe orc p env d =
     (case unmarshal_Subscribe (env_Payload env) of
        None \<Rightarrow> disp_sendError p (env_RequestID env) ''bad_payload'' (or_errText orc (elems (env_Payload env))) d
      | Some pl \<Rightarrow>
          let d1 = disp_at p (\<lambda>s. session_Subscribe s (sp_Tags pl)) d;
              available = registry_ListAvailable (or_tasks orc) (disp_registry d1) (sp_Tags pl)
          in (fold (\<lambda>t d. fst (disp_Send p (availableMsg (task_ID t) (task_Tags t) (task_Hint t)) d)) available d1,
              Returns None))"

definition handleUnsubscribe :: "Oracle \<Rightarrow> sptr \<Rightarrow> Envelope \<Rightarrow> Dispatcher \<Rightarrow> reply" where
  "handleUnsubscribe orc p env d =
     (case unmarshal_Subscribe (env_Payload env) of
        None \<Rightarrow> disp_sendError p (env_RequestID env) ''bad_payload'' (or_errText orc (elems (env_Payload env))) d
      | Some pl \<Rightarrow> (disp_at p (\<lambda>s. session_Unsubscribe s (sp_Tags pl)) d, Returns None))"

definition handlePing :: "sptr \<Rightarrow> Envelope \<Rightarrow> Dispatcher \<Rightarrow> reply" where
  "handlePing p env d = disp_Send p (protocol_Encode MsgPong (env_RequestID env) None) d"

definition dispatcher_Handle :: "Oracle \<Rightarrow> string \<Rightarrow> Envelope \<Rightarrow> Dispatcher \<Rightarrow> reply" where
  "dispatcher_Handle orc sessionID env d =
     (case manager_Get (fx_manager (disp_fx d)) sessionID of
        Inl err \<Rightarrow> (d, Returns (Some err))
      | Inr p \<Rightarrow>
          if env_Type env = MsgAcquireTask then handleAcquire orc p env d
          else if env_Type env = MsgReleaseTask then handleRelease orc p env d
          else if env_Type env = MsgSubmitResult then handleSubmit orc p env d
          else if env_Type env = MsgSubscribe then handleSubscribe orc p env d
          else if env_Type env = MsgUnsubscribe then handleUnsubscribe orc p env d
          else if env_Type env = MsgPing then handlePing p env d
          else disp_sendError p (env_RequestID env) ''unknown_type'' (''unknown message type: '' @ env_Type env) d)"

section \<open>Lemmas\<close>

named_theorems disp_simps \<open>selectors of the steps of a handler\<close>

lemma record_metric_sel [simp]:
  "fx_manager (record_metric f e) = fx_manager e"
  by (simp add: record_metric_def split: prod.splits)

lemma disp_metric_sel [simp]:
  "disp_registry (disp_metric f d) = disp_registry d"
  "disp_world (disp_metric f d) = disp_world d"
  "disp_coord (disp_metric f d) = disp_coord d"
  "fx_manager (disp_fx (disp_metric f d)) = fx_manager (disp_fx d)"
  by (simp_all add: disp_metric_def)

lemma disp_at_sel [simp]:
  "disp_registry (disp_at p f d) = disp_registry d"
  "disp_world (disp_at p f d) = disp_world d"
  "disp_coord (disp_at p f d) = disp_coord d"
  "fx_manager (disp_fx (disp_at p f d)) = at_ptr p f (fx_manager (disp_fx d))"
  "fx_metrics (disp_fx (disp_at p f d)) = fx_metrics (disp_fx d)"
  "fx_log (disp_fx (disp_at p f d)) = fx_log (disp_fx d)"
  by (simp_all add: disp_at_def)

lemma disp_Send_sel [simp]:
  "disp_registry (fst (disp_Send p m d)) = disp_registry d"
  "disp_world (fst (disp_Send p m d)) = disp_world d"
  "disp_coord (fst (disp_Send p m d)) = disp_coord d"
  by (simp_all add: disp_Send_def)

lemma disp_sendError_sel [simp]:
  "disp_registry (fst (disp_sendError p rid c t d)) = disp_registry d"
  "disp_world (fst (disp_sendError p rid c t d)) = disp_world d"
  by (simp_all add: disp_sendError_def)

lemma disp_rejectResult_sel [simp]:
  "disp_registry (fst (disp_rejectResult p rid tid t d)) = disp_registry d"
  "disp_world (fst (disp_rejectResult p rid tid t d)) = disp_world d"
  by (simp_all add: disp_rejectResult_def)

lemma disp_Send_fold:
  "disp_registry (fold (\<lambda>t d. fst (disp_Send p (f t) d)) ts d) = disp_registry d"
  "disp_world (fold (\<lambda>t d. fst (disp_Send p (f t) d)) ts d) = disp_world d"
  by (induction ts arbitrary: d) simp_all

text \<open>What each handler does to the registry and to the world.\<close>

lemma handleAcquire_parts:
  "disp_world (fst (handleAcquire orc p env d)) = disp_world d"
  "disp_registry (fst (handleAcquire orc p env d)) =
     (case unmarshal_AcquireTask (env_Payload env) of
        None \<Rightarrow> disp_registry d
      | Some pl \<Rightarrow> fst (registry_Acquire (or_now orc) (or_lease orc) (or_updated orc) (disp_registry d) (atp_TaskID pl)
          (sess_ID (disp_session d p)) \<lparr>opt_Duration = 0\<rparr> (disp_fx d)))"
  by (auto simp: handleAcquire_def Let_def split: option.splits prod.splits outcome.splits sum.splits)

lemma handleRelease_parts:
  "disp_world (fst (handleRelease orc p env d)) = disp_world d"
  "disp_registry (fst (handleRelease orc p env d)) =
     (case unmarshal_ReleaseTask (env_Payload env) of
        None \<Rightarrow> disp_registry d
      | Some pl \<Rightarrow> fst (registry_Release (or_now orc) (disp_registry d) (rtp_TaskID pl)
          (sess_ID (disp_session d p)) (disp_fx d)))"
  by (auto simp: handleRelease_def Let_def split: option.splits prod.splits)

lemma handleSubmit_registry: "disp_registry (fst (handleSubmit orc p env d)) = disp_registry d"
  by (auto simp: handleSubmit_def Let_def split: option.splits prod.splits sum.splits)

lemma handleSubscribe_parts:
  "disp_world (fst (handleSubscribe orc p env d)) = disp_world d"
  "disp_registry (fst (handleSubscribe orc p env d)) = disp_registry d"
  by (simp_all add: handleSubscribe_def Let_def disp_Send_fold split: option.splits)

lemma handleUnsubscribe_parts:
  "disp_world (fst (handleUnsubscribe orc p env d)) = disp_world d"
  "disp_registry (fst (handleUnsubscribe orc p env d)) = disp_registry d"
  by (simp_all add: handleUnsubscribe_def split: option.splits)

lemma handlePing_parts:
  "disp_world (fst (handlePing p env d)) = disp_world d"
  "disp_registry (fst (handlePing p env d)) = disp_registry d"
  by (simp_all add: handlePing_def)

lemmas handler_parts [disp_simps] =
  handleAcquire_parts handleRelease_parts handleSubmit_registry handleSubscribe_parts handleUnsubscribe_parts handlePing_parts

lemma handle_registry_cases:
  obtains (same) "disp_registry (fst (dispatcher_Handle orc sid env d)) = disp_registry d"
  | (acquired) p pl where "sessions (fx_manager (disp_fx d)) sid = Some p" "env_Type env = MsgAcquireTask"
      "unmarshal_AcquireTask (env_Payload env) = Some pl"
      "disp_registry (fst (dispatcher_Handle orc sid env d)) =
         fst (registry_Acquire (or_now orc) (or_lease orc) (or_updated orc) (disp_registry d) (atp_TaskID pl)
           (sess_ID (disp_session d p)) \<lparr>opt_Duration = 0\<rparr> (disp_fx d))"
  | (released) p pl where "sessions (fx_manager (disp_fx d)) sid = Some p" "env_Type env = MsgReleaseTask"
      "unmarshal_ReleaseTask (env_Payload env) = Some pl"
      "disp_registry (fst (dispatcher_Handle orc sid env d)) =
         fst (registry_Release (or_now orc) (disp_registry d) (rtp_TaskID pl) (sess_ID (disp_session d p)) (disp_fx d))"
proof (cases "sessions (fx_manager (disp_fx d)) sid")
  case None
  then show ?thesis by (intro same) (simp add: dispatcher_Handle_def manager_Get_def)
next
  case (Some p)
  then have get: "manager_Get (fx_manager (disp_fx d)) sid = Inr p" by (simp add: manager_Get_def)
  consider "env_Type env = MsgAcquireTask" | "env_Type env = MsgReleaseTask" |
    "env_Type env \<notin> {MsgAcquireTask, MsgReleaseTask}" by blast
  then show ?thesis
  proof cases
    case 1
    then show ?thesis
      using acquired [OF Some 1] same get
      by (cases "unmarshal_AcquireTask (env_Payload env)") (simp_all add: dispatcher_Handle_def disp_simps)
  next
    case 2
    moreover have "MsgReleaseTask \<noteq> MsgAcquireTask" by (simp add: msg_types)
    ultimately show ?thesis
      using released [OF Some 2] same get
      by (cases "unmarshal_ReleaseTask (env_Payload env)") (simp_all add: dispatcher_Handle_def disp_simps)
  next
    case 3
    then show ?thesis by (intro same) (simp add: dispatcher_Handle_def get disp_simps)
  qed
qed



lemma session_of_manager:
  "manager_ok (fx_manager (disp_fx d)) \<Longrightarrow> sessions (fx_manager (disp_fx d)) sid = Some p \<Longrightarrow>
   sess_ID (disp_session d p) = sid"
  by (simp add: manager_ok_def disp_session_def)

section \<open>Properties\<close>

lemma puts_untouched:
  "k \<notin> req_ObjectID ` set qs \<Longrightarrow> world_lookup (fst (thread (world_put clk) qs s)) k = world_lookup s k"
  by (rule worldstore.puts_frame) auto

text \<open>C4. Authority over the world: a request of a session changes an object only if it is a
  \<open>submit_result\<close> for a task that this very session owns, the merge function accepts the submission, and
  the object is one of those that the merge function names.\<close>

theorem only_owner_changes_world:
  assumes "manager_ok (fx_manager (disp_fx d))"
    and "objects (disp_world (fst (dispatcher_Handle orc sid env d))) k \<noteq> objects (disp_world d) k"
  shows "\<exists>pl t. env_Type env = MsgSubmitResult \<and> unmarshal_SubmitResult (env_Payload env) = Some pl \<and>
     tasks (disp_registry d) (srp_TaskID pl) = Some t \<and> task_OwnerID t = sid \<and>
     (let decision = mergeFunc (disp_coord d)
            \<lparr>sub_TaskID = srp_TaskID pl, sub_OwnerID = sid, sub_Data = srp_Data pl, sub_Meta = srp_Meta pl\<rparr>
      in dec_Accept decision \<and> k \<in> req_ObjectID ` set (dec_Updates decision))"
proof -
  obtain p where p: "sessions (fx_manager (disp_fx d)) sid = Some p"
    using assms(2) by (cases "sessions (fx_manager (disp_fx d)) sid") (simp_all add: dispatcher_Handle_def manager_Get_def)
  then have get: "manager_Get (fx_manager (disp_fx d)) sid = Inr p" by (simp add: manager_Get_def)
  have ty: "env_Type env = MsgSubmitResult"
    using assms(2) by (rule contrapos_np) (simp add: dispatcher_Handle_def get disp_simps)
  then have handle: "dispatcher_Handle orc sid env d = handleSubmit orc p env d"
    by (simp add: dispatcher_Handle_def get msg_types)
  have sid: "sess_ID (disp_session d p) = sid" using session_of_manager [OF assms(1) p] .
  obtain pl where pl: "unmarshal_SubmitResult (env_Payload env) = Some pl"
    using assms(2) by (cases "unmarshal_SubmitResult (env_Payload env)") (simp_all add: handle handleSubmit_def)
  obtain t where t: "tasks (disp_registry d) (srp_TaskID pl) = Some t" "task_OwnerID t = sid"
    using assms(2) by (auto simp: handle handleSubmit_def pl registry_Get_def sid Let_def split: option.splits if_splits)
  let ?sub = "\<lparr>sub_TaskID = srp_TaskID pl, sub_OwnerID = sid, sub_Data = srp_Data pl, sub_Meta = srp_Meta pl\<rparr>"
  have "objects (disp_world (fst (handleSubmit orc p env d))) =
      objects (fst (coordinator_Submit (or_world orc) (disp_coord d) (disp_world d) (disp_fx d) ?sub))"
    by (simp add: handleSubmit_def pl registry_Get_def t sid Let_def split: prod.splits)
  then have neq: "objects (fst (coordinator_Submit (or_world orc) (disp_coord d) (disp_world d) (disp_fx d) ?sub)) k \<noteq>
      objects (disp_world d) k"
    using assms(2) by (simp add: handle)
  then have acc: "dec_Accept (mergeFunc (disp_coord d) ?sub)"
    by (auto simp: coordinator_Submit_world split: if_splits)
  moreover have "k \<in> req_ObjectID ` set (dec_Updates (mergeFunc (disp_coord d) ?sub))"
    using neq acc puts_untouched [of k "dec_Updates (mergeFunc (disp_coord d) ?sub)" "or_world orc" "(disp_world d, disp_fx d, 0)"]
    by (auto simp: coordinator_Submit_world)
  ultimately show ?thesis using ty pl t by auto
qed


text \<open>A concrete server state: session \<open>s\<close> owns task \<open>t\<close> until time 15, and the merge function accepts
  every submission and writes its data to the object \<open>door\<close>.\<close>

definition exampleDispatcher :: Dispatcher where
  "exampleDispatcher =
     dispatcher_New (fst (manager_Add 2 (fst (manager_Add 1 manager_New ''s'')) ''u'')) None
       (registry_New\<lparr>tasks := [''t'' \<mapsto> \<lparr>task_ID = ''t'', task_Tags = None, task_Hint = None,
          task_Status = StatusOwned, task_OwnerID = ''s'', task_LeaseUntil = 15, task_CreatedAt = 1, task_UpdatedAt = 5\<rparr>]\<rparr>)
       exampleMerge world_New"

definition exampleOracle :: "gotime \<Rightarrow> Oracle" where
  "exampleOracle now = \<lparr>or_now = now, or_lease = now, or_updated = now, or_metrics = now, or_world = (\<lambda>_. now),
     or_tasks = [''t''], or_errText = (\<lambda>_. ''bad json'')\<rparr>"

definition exampleSubmitEnv :: Envelope where
  "exampleSubmitEnv = \<lparr>env_Type = MsgSubmitResult, env_RequestID = ''r1'',
     env_Payload = json_Marshal (PSubmitResult exampleSubmit)\<rparr>"

lemma exampleDispatcher_ok: "manager_ok (fx_manager (disp_fx exampleDispatcher))"
  by (simp add: exampleDispatcher_def dispatcher_New_def manager_ok_Add)

lemma exampleDispatcher_sessions:
  "sessions (fx_manager (disp_fx exampleDispatcher)) = [''s'' \<mapsto> 0, ''u'' \<mapsto> 1]"
  by (simp add: exampleDispatcher_def dispatcher_New_def manager_Add_def manager_New_def Let_def)

lemma exampleSubmit_decoded:
  "unmarshal_SubmitResult (env_Payload exampleSubmitEnv) = Some \<lparr>srp_TaskID = ''t'', srp_Data = Some ''[1,2]'', srp_Meta = None\<rparr>"
proof -
  have "marshalRaw (Some '' [1, 2]'') = Some ''[1,2]''" by code_simp
  then show ?thesis
    using unmarshal_submit_json [OF exampleSubmit_nested]
    by (simp add: exampleSubmitEnv_def exampleSubmit_def toValidUTF8_ascii code_def)
qed

theorem only_owner_changes_world_witness:
  "objects (disp_world (fst (dispatcher_Handle (exampleOracle 9) ''s'' exampleSubmitEnv exampleDispatcher))) ''door'' \<noteq> None \<and>
   (\<exists>t. tasks (disp_registry exampleDispatcher) ''t'' = Some t \<and> task_OwnerID t = ''s'')"
proof -
  have "objects (disp_world (fst (dispatcher_Handle (exampleOracle 9) ''s'' exampleSubmitEnv exampleDispatcher))) ''door''
      \<noteq> objects (disp_world exampleDispatcher) ''door''"
    using exampleSubmit_decoded exampleDispatcher_sessions session_of_manager [OF exampleDispatcher_ok, of "''s''" 0]
    by (simp add: dispatcher_Handle_def manager_Get_def exampleSubmitEnv_def msg_types handleSubmit_def
        exampleDispatcher_def dispatcher_New_def registry_Get_def exampleMerge_def coordinator_New_def
        coordinator_Submit_def submit_apply_def world_put_def world_Apply_def exampleRequest_def world_New_def Let_def
        split: prod.splits)
  note this only_owner_changes_world [OF exampleDispatcher_ok this]
  then show ?thesis
    by (auto simp: exampleDispatcher_def dispatcher_New_def world_New_def exampleSubmit_decoded)
qed


lemma valid_msg_types [simp]: "toValidUTF8 MsgError = MsgError" "toValidUTF8 MsgPong = MsgPong"
  by (rule toValidUTF8_ascii, simp add: msg_types code_def)+

text \<open>What a request is refused with before it reaches any component: a payload that cannot be decoded,
  or a type that the server does not know.\<close>

definition refusal :: "Oracle \<Rightarrow> Envelope \<Rightarrow> (string \<times> string) option" where
  "refusal orc env =
     (let bad = Some (''bad_payload'', or_errText orc (elems (env_Payload env))) in
      if env_Type env = MsgAcquireTask then (if unmarshal_AcquireTask (env_Payload env) = None then bad else None)
      else if env_Type env = MsgReleaseTask then (if unmarshal_ReleaseTask (env_Payload env) = None then bad else None)
      else if env_Type env = MsgSubmitResult then (if unmarshal_SubmitResult (env_Payload env) = None then bad else None)
      else if env_Type env \<in> {MsgSubscribe, MsgUnsubscribe}
        then (if unmarshal_Subscribe (env_Payload env) = None then bad else None)
      else if env_Type env = MsgPing then None
      else Some (''unknown_type'', ''unknown message type: '' @ env_Type env))"

lemma refused_handle:
  assumes "sessions (fx_manager (disp_fx d)) sid = Some p" and "refusal orc env = Some (c, txt)"
  shows "dispatcher_Handle orc sid env d = disp_sendError p (env_RequestID env) c txt d"
  using assms
  by (auto simp: dispatcher_Handle_def manager_Get_def refusal_def Let_def msg_types handleAcquire_def handleRelease_def
      handleSubmit_def handleSubscribe_def handleUnsubscribe_def split: if_splits)

text \<open>C34. Errors: a request of unknown type or with an undecodable payload changes nothing but the outbox of
  its own session, to which one message is added as long as fewer than 512 wait there; that message is an
  \<open>error\<close> with the request's ID (as far as it is valid UTF-8) and the code and text of the refusal.  A
  request of a session that is not registered has no effect at all and an error for its caller.\<close>

theorem refused_requests:
  assumes "manager_ok (fx_manager (disp_fx d))" and "refusal orc env = Some (c, txt)"
  shows "case sessions (fx_manager (disp_fx d)) sid of
      None \<Rightarrow> dispatcher_Handle orc sid env d = (d, Returns (Some ErrSessionNotFound))
    | Some p \<Rightarrow> \<exists>b. dispatcher_Handle orc sid env d =
          (disp_at p (\<lambda>s. s\<lparr>sess_outbox := chan_offer 512 (sess_outbox s) (Some b)\<rparr>) d, Returns None) \<and>
        unmarshal_Envelope (b @ ''\<newline>'') = Some \<lparr>env_Type = MsgError, env_RequestID = toValidUTF8 (env_RequestID env),
          env_Payload = json_Marshal (PError \<lparr>ep_Code = c, ep_Message = txt\<rparr>)\<rparr>"
proof (cases "sessions (fx_manager (disp_fx d)) sid")
  case None
  then show ?thesis by (simp add: dispatcher_Handle_def manager_Get_def)
next
  case (Some p)
  let ?pl = "Some (PError \<lparr>ep_Code = c, ep_Message = txt\<rparr>)"
  obtain b where b: "protocol_Encode MsgError (env_RequestID env) ?pl = Some b"
      "unmarshal_Envelope (b @ ''\<newline>'') = Some \<lparr>env_Type = MsgError, env_RequestID = toValidUTF8 (env_RequestID env),
         env_Payload = json_Marshal (PError \<lparr>ep_Code = c, ep_Message = txt\<rparr>)\<rparr>"
    using encode_then_unmarshal [of ?pl MsgError "env_RequestID env"] by (auto simp: raws_def valid_msg_types)
  have "\<not> sess_closed (disp_session d p)" using manager_okD(3) [OF assms(1) Some] by (simp add: disp_session_def)
  then have "dispatcher_Handle orc sid env d =
      (disp_at p (\<lambda>s. s\<lparr>sess_outbox := chan_offer 512 (sess_outbox s) (Some b)\<rparr>) d, Returns None)"
    unfolding refused_handle [OF Some assms(2)] disp_sendError_def b(1)
    by (simp add: disp_Send_def disp_at_def at_ptr_def session_Send_def disp_session_def outboxBuffer_def)
  with b(2) Some show ?thesis by (auto intro!: exI [of _ b])
qed

theorem refused_requests_witness:
  "\<exists>b. snd (dispatcher_Handle (exampleOracle 9) ''s'' \<lparr>env_Type = ''drop_tables'', env_RequestID = ''r9'', env_Payload = None\<rparr>
        exampleDispatcher) = Returns None \<and>
     map_option env_Type (unmarshal_Envelope (b @ ''\<newline>'')) = Some MsgError"
proof -
  have "refusal (exampleOracle 9) \<lparr>env_Type = ''drop_tables'', env_RequestID = ''r9'', env_Payload = None\<rparr> =
      Some (''unknown_type'', ''unknown message type: drop_tables'')"
    by (simp add: refusal_def msg_types)
  from refused_requests [OF exampleDispatcher_ok this, of "''s''"] obtain b where
    "snd (dispatcher_Handle (exampleOracle 9) ''s'' \<lparr>env_Type = ''drop_tables'', env_RequestID = ''r9'', env_Payload = None\<rparr>
        exampleDispatcher) = Returns None"
    "map_option env_Type (unmarshal_Envelope (b @ ''\<newline>'')) = Some MsgError"
    unfolding exampleDispatcher_sessions by fastforce
  then show ?thesis by blast
qed

text \<open>Completion is never recorded: whatever requests the sessions send, no task ever becomes
  completed, and a \<open>submit_result\<close>, accepted or not, leaves the registry as it is.  A task whose result has
  been accepted therefore stays owned until its lease ends or it is released, and is then offered again.\<close>

theorem results_complete_nothing:
  assumes "\<forall>k t. tasks (disp_registry d) k = Some t \<longrightarrow> task_Status t \<noteq> StatusCompleted"
  shows "(\<forall>k t. tasks (disp_registry (fold (\<lambda>(orc, sid, env) d. fst (dispatcher_Handle orc sid env d)) reqs d)) k = Some t \<longrightarrow>
        task_Status t \<noteq> StatusCompleted) \<and>
     (if env_Type env = MsgSubmitResult then disp_registry (fst (dispatcher_Handle orc sid env d)) = disp_registry d else True)"
proof
  have step: "task_Status t \<noteq> StatusCompleted"
    if none: "\<forall>k t. tasks (disp_registry d) k = Some t \<longrightarrow> task_Status t \<noteq> StatusCompleted"
      and "tasks (disp_registry (fst (dispatcher_Handle orc sid env d))) k = Some t" for orc sid env d k t
  proof (cases rule: handle_registry_cases [of orc sid env d])
    case same
    then show ?thesis using that by simp
  next
    case (acquired p pl)
    then show ?thesis
      using that registry_Acquire_registry [of "or_now orc" "or_lease orc" "or_updated orc" "disp_registry d" "atp_TaskID pl"
          "sess_ID (disp_session d p)" "\<lparr>opt_Duration = 0\<rparr>" "disp_fx d"]
      by (cases rule: acquire_enter_cases [of "disp_registry d" "atp_TaskID pl" "or_now orc"])
         (auto simp: acquire_grant_tasks split: if_splits option.splits)
  next
    case (released p pl)
    then show ?thesis
      using that by (auto simp: registry_Release_def split: option.splits if_splits)
  qed
  show "\<forall>k t. tasks (disp_registry (fold (\<lambda>(orc, sid, env) d. fst (dispatcher_Handle orc sid env d)) reqs d)) k = Some t \<longrightarrow>
      task_Status t \<noteq> StatusCompleted"
    using assms
  proof (induction reqs arbitrary: d)
    case (Cons q reqs)
    obtain orc sid env where q: "q = (orc, sid, env)" by (cases q) auto
    have "\<forall>k t. tasks (disp_registry (fst (dispatcher_Handle orc sid env d))) k = Some t \<longrightarrow> task_Status t \<noteq> StatusCompleted"
      using step [OF Cons.prems] by blast
    from Cons.IH [OF this] show ?case by (simp add: q)
  qed simp
  show "if env_Type env = MsgSubmitResult then disp_registry (fst (dispatcher_Handle orc sid env d)) = disp_registry d else True"
    by (auto simp: dispatcher_Handle_def manager_Get_def handleSubmit_registry msg_types split: option.splits sum.splits)
qed

theorem results_complete_nothing_witness:
  "disp_registry (fst (dispatcher_Handle (exampleOracle 9) ''s'' exampleSubmitEnv exampleDispatcher)) = disp_registry exampleDispatcher"
proof -
  have "\<forall>k t. tasks (disp_registry exampleDispatcher) k = Some t \<longrightarrow> task_Status t \<noteq> StatusCompleted"
    by (simp add: exampleDispatcher_def dispatcher_New_def)
  from results_complete_nothing [OF this, of "[]" exampleSubmitEnv "exampleOracle 9" "''s''"] show ?thesis
    by (simp add: exampleSubmitEnv_def)
qed

end
