(* ===== verification/Projector.thy ===== *)
theory Projector imports Session World Metrics Protocol begin

text \<open>
  The world projection, \<open>internal/projector/projector.go\<close>: a timer that sends to every session the
  objects that match its tags and are newer than what the projector has computed for it before.

  The projector's own state is \<open>pr_seen\<close>: per session ID the last projected version of each object.
  The world, the session manager and the recorder are shared with the rest of the program and are
  arguments of \<open>projector_tick\<close>.  One tick is one step here: the list of the world, the snapshot of the
  sessions and the sends are taken without another goroutine in between.

  The lemmas show what one tick does to each session and that a client that applies everything it is
  sent holds the current version of every object it is subscribed to; and they show where that fails,
  on a full outbox and after a deletion.
\<close>

section \<open>State and operations\<close>

record Projector =
  pr_rate :: duration
  pr_seen :: "string \<rightharpoonup> (string \<rightharpoonup> uint64)"
  pr_stopped :: bool

definition projector_New :: "duration \<Rightarrow> Projector" where
  "projector_New rate =
     \<lparr>pr_rate = (if rate \<le> 0 then 100 * Millisecond else rate), pr_seen = Map.empty, pr_stopped = False\<rparr>"

definition projector_Stop :: "Projector \<Rightarrow> Projector" where
  "projector_Stop pr = (if pr_stopped pr then pr else pr\<lparr>pr_stopped := True\<rparr>)"

definition projector_ForgetSession :: "string \<Rightarrow> Projector \<Rightarrow> Projector" where
  "projector_ForgetSession sid pr = pr\<lparr>pr_seen := (pr_seen pr)(sid := None)\<rparr>"

primrec anyTag :: "Session \<Rightarrow> string list \<Rightarrow> bool" where
  "anyTag s [] = False"
| "anyTag s (t # ts) = (if session_HasTag s t then True else anyTag s ts)"

definition sessionMatchesAnyTag :: "Session \<Rightarrow> string slice \<Rightarrow> bool" where
  "sessionMatchesAnyTag s objTags = (if session_HasTag s ''*'' then True else anyTag s (elems objTags))"

definition diffOf :: "Object \<Rightarrow> ObjectDiff" where
  "diffOf ob = \<lparr>od_ObjectID = obj_ID ob, od_Data = obj_Data ob, od_Version = obj_Version ob, od_Meta = obj_Meta ob\<rparr>"

definition seenVersion :: "(string \<rightharpoonup> uint64) \<Rightarrow> string \<Rightarrow> uint64" where
  \<comment> \<open>reading a Go map: a missing key reads as 0\<close>
  "seenVersion seen k = (case seen k of None \<Rightarrow> 0 | Some v \<Rightarrow> v)"

definition diff_step :: "Session \<Rightarrow> Object \<Rightarrow> (string \<rightharpoonup> uint64) \<times> ObjectDiff list \<Rightarrow> (string \<rightharpoonup> uint64) \<times> ObjectDiff list" where
  \<comment> \<open>the body of the loop over \<open>all\<close>\<close>
  "diff_step s ob acc =
     (case acc of (seen, diffs) \<Rightarrow>
        if \<not> sessionMatchesAnyTag s (obj_Tags ob) then (seen, diffs)
        else if obj_Version ob > seenVersion seen (obj_ID ob)
          then (seen(obj_ID ob \<mapsto> obj_Version ob), diffs @ [diffOf ob])
          else (seen, diffs))"

definition computeDiffs :: "Session \<Rightarrow> Object list \<Rightarrow> Projector \<Rightarrow> Projector \<times> ObjectDiff list" where
  "computeDiffs s all pr =
     (let seen0 = (case pr_seen pr (sess_ID s) of None \<Rightarrow> Map.empty | Some m \<Rightarrow> m);
          (seen, diffs) = fold (diff_step s) all (seen0, [])
      in (pr\<lparr>pr_seen := (pr_seen pr)(sess_ID s \<mapsto> seen)\<rparr>, diffs))"

record TickState =
  tk_projector :: Projector
  tk_manager :: Manager
  tk_delivered :: int
  tk_objects :: int

definition updateMsg :: "ObjectDiff list \<Rightarrow> bytes option" where
  "updateMsg diffs = protocol_Encode MsgWorldUpdate '''' (Some (PWorldUpdate \<lparr>wup_Objects = Some diffs\<rparr>))"

definition tick_session :: "Object list \<Rightarrow> sptr \<Rightarrow> TickState \<Rightarrow> TickState" where
  \<comment> \<open>the callback that \<open>tick\<close> passes to \<open>Each\<close>\<close>
  "tick_session all p st =
     (let (pr, diffs) = computeDiffs (heap (tk_manager st) p) all (tk_projector st);
          st1 = st\<lparr>tk_projector := pr\<rparr>
      in if diffs = [] then st1
         else (case updateMsg diffs of
                 None \<Rightarrow> st1
               | Some msg \<Rightarrow>
                   let (m, err) = ptr_Send p (Some msg) (tk_manager st1); st2 = st1\<lparr>tk_manager := m\<rparr>
                   in if err = None
                      then st2\<lparr>tk_delivered := tk_delivered st2 + 1,
                               tk_objects := (if tk_objects st2 = 0 then int (length diffs) else tk_objects st2)\<rparr>
                      else st2))"

definition projector_tick ::
    "string list \<Rightarrow> string list \<Rightarrow> 'e World \<Rightarrow> Recorder option \<Rightarrow> Projector \<Rightarrow> Manager \<Rightarrow>
     Projector \<times> Manager \<times> Recorder option \<times> string list" where
  \<comment> \<open>the orders in which Go ranges over the objects and over the sessions\<close>
  "projector_tick ks ms w mr pr m =
     (let all = world_List ks w None;
          st = manager_Each ms m (tick_session all) \<lparr>tk_projector = pr, tk_manager = m, tk_delivered = 0, tk_objects = 0\<rparr>;
          (mr', lines) = (if tk_delivered st > 0 \<and> recorder_Enabled mr
                          then metrics_Broadcast (tk_delivered st) (tk_objects st) mr else (mr, []))
      in (tk_projector st, tk_manager st, mr', lines))"

text \<open>The timer loop: what its \<open>select\<close> receives, in order; a tick is a function on the state.\<close>

datatype 's projector_event = PrStop | PrTick "'s \<Rightarrow> 's"

fun projector_loop :: "'s projector_event list \<Rightarrow> 's \<Rightarrow> 's \<times> bool" where
  \<comment> \<open>the result tells whether the loop still runs\<close>
  "projector_loop [] st = (st, True)"
| "projector_loop (PrStop # evs) st = (st, False)"
| "projector_loop (PrTick f # evs) st = projector_loop evs (f st)"

section \<open>Lemmas\<close>

lemma sessionMatchesAnyTag_iff [simp]:
  "sessionMatchesAnyTag s ts \<longleftrightarrow> ''*'' \<in> sess_tags s \<or> set (elems ts) \<inter> sess_tags s \<noteq> {}"
proof -
  have "anyTag s xs \<longleftrightarrow> set xs \<inter> sess_tags s \<noteq> {}" for xs
    by (induction xs) (auto simp: session_HasTag_def)
  then show ?thesis by (simp add: sessionMatchesAnyTag_def session_HasTag_def)
qed

lemma seenVersion_upd [simp]: "seenVersion (m(k \<mapsto> v)) j = (if j = k then v else seenVersion m j)"
  by (simp add: seenVersion_def)

lemma seenVersion_empty [simp]: "seenVersion Map.empty k = 0"
  by (simp add: seenVersion_def)

definition due :: "Session \<Rightarrow> (string \<rightharpoonup> uint64) \<Rightarrow> Object \<Rightarrow> bool" where
  \<comment> \<open>the object matches the tags of the session and is newer than what was projected\<close>
  "due s seen ob \<longleftrightarrow> sessionMatchesAnyTag s (obj_Tags ob) \<and> obj_Version ob > seenVersion seen (obj_ID ob)"

definition advance :: "Session \<Rightarrow> Object list \<Rightarrow> (string \<rightharpoonup> uint64) \<Rightarrow> string \<rightharpoonup> uint64" where
  "advance s all seen = fold (\<lambda>ob seen. if due s seen ob then seen(obj_ID ob \<mapsto> obj_Version ob) else seen) all seen"

lemma advance_Cons:
  "advance s (ob # all) seen = advance s all (if due s seen ob then seen(obj_ID ob \<mapsto> obj_Version ob) else seen)"
  by (simp add: advance_def)

lemma diff_step_due:
  "diff_step s ob (seen, diffs) =
     (if due s seen ob then (seen(obj_ID ob \<mapsto> obj_Version ob), diffs @ [diffOf ob]) else (seen, diffs))"
  by (simp add: diff_step_def due_def)

lemma advance_other: "k \<notin> obj_ID ` set all \<Longrightarrow> advance s all seen k = seen k"
  unfolding advance_def by (induction all arbitrary: seen) auto

lemma advance_object:
  assumes "distinct (map obj_ID all)" and "ob \<in> set all"
  shows "advance s all seen (obj_ID ob) = (if due s seen ob then Some (obj_Version ob) else seen (obj_ID ob))"
  using assms
proof (induction all arbitrary: seen)
  case (Cons x all)
  show ?case
  proof (cases "ob = x")
    case True
    with Cons.prems have "obj_ID ob \<notin> obj_ID ` set all" by auto
    from advance_other [OF this, of s] show ?thesis by (simp add: advance_def True)
  next
    case False
    with Cons.prems have ob: "ob \<in> set all" "obj_ID ob \<noteq> obj_ID x" by (auto simp: image_iff)
    with Cons.IH [OF _ ob(1)] Cons.prems(1) show ?thesis
      by (auto simp: advance_def due_def)
  qed
qed simp

lemma diff_step_fold:
  assumes "distinct (map obj_ID all)"
  shows "fold (diff_step s) all (seen, diffs) = (advance s all seen, diffs @ map diffOf (filter (due s seen) all))"
  using assms
proof (induction all arbitrary: seen diffs)
  case (Cons x all)
  have "obj_ID ob \<noteq> obj_ID x" if "ob \<in> set all" for ob
    using Cons.prems that by (auto simp: image_iff)
  then have "filter (due s (seen(obj_ID x \<mapsto> v))) all = filter (due s seen) all" for v
    by (intro filter_cong) (auto simp: due_def)
  with Cons show ?case by (simp add: diff_step_due advance_Cons)
qed (simp add: advance_def)

definition seenBy :: "string \<Rightarrow> Projector \<Rightarrow> string \<rightharpoonup> uint64" where
  "seenBy sid pr = (case pr_seen pr sid of None \<Rightarrow> Map.empty | Some m \<Rightarrow> m)"

lemma computeDiffs_eq:
  assumes "distinct (map obj_ID all)"
  shows "computeDiffs s all pr =
     (pr\<lparr>pr_seen := (pr_seen pr)(sess_ID s \<mapsto> advance s all (seenBy (sess_ID s) pr))\<rparr>,
      map diffOf (filter (due s (seenBy (sess_ID s) pr)) all))"
  using diff_step_fold [OF assms, of s "seenBy (sess_ID s) pr" "[]"]
  by (simp add: computeDiffs_def seenBy_def Let_def)

lemma world_List_all:
  assumes "world_ok w" and "enumerates ks (objects w)"
  shows "distinct (map obj_ID (world_List ks w None))" and "set (world_List ks w None) = ran (objects w)"
proof -
  have eq: "world_List ks w None = range_values (\<lambda>_ ob. Some ob) (objects w) ks"
    by (simp add: world_List_def tagFilter_iff)
  show set: "set (world_List ks w None) = ran (objects w)"
    unfolding eq set_range_values_enum [OF assms(2)] by (auto simp: ran_def)
  have "distinct (world_List ks w None)"
    unfolding eq using enumeratesD(1) [OF assms(2)] world_ok_inj [OF assms(1)] by (intro distinct_range_values) auto
  moreover have "inj_on obj_ID (ran (objects w))"
    using world_ok_ID [OF assms(1)] by (fastforce simp: inj_on_def ran_def)
  ultimately show "distinct (map obj_ID (world_List ks w None))" by (simp add: distinct_map set)
qed

lemma seenBy_computeDiffs:
  assumes "distinct (map obj_ID all)"
  shows "seenBy sid (fst (computeDiffs s all pr)) =
    (if sid = sess_ID s then advance s all (seenBy sid pr) else seenBy sid pr)"
  by (simp add: computeDiffs_eq [OF assms] seenBy_def)

lemma computeDiffs_cong: "sess_ID s = sess_ID s' \<Longrightarrow> sess_tags s = sess_tags s' \<Longrightarrow> computeDiffs s all pr = computeDiffs s' all pr"
proof -
  assume *: "sess_ID s = sess_ID s'" "sess_tags s = sess_tags s'"
  then have "diff_step s = diff_step s'" by (auto simp: diff_step_def fun_eq_iff)
  with * show ?thesis by (simp add: computeDiffs_def)
qed

definition push :: "ObjectDiff list \<Rightarrow> Session \<Rightarrow> Session" where
  \<comment> \<open>what the callback does to the session\<close>
  "push diffs s = (if diffs = [] then s else case updateMsg diffs of None \<Rightarrow> s | Some b \<Rightarrow> fst (session_Send s (Some b)))"

lemma push_sel [simp]:
  "sess_ID (push diffs s) = sess_ID s" "sess_tags (push diffs s) = sess_tags s" "sess_closed (push diffs s) = sess_closed s"
  by (simp_all add: push_def split: option.splits)

lemma tick_session_sel:
  "tk_projector (tick_session all p st) = fst (computeDiffs (heap (tk_manager st) p) all (tk_projector st))"
  "tk_manager (tick_session all p st) =
     at_ptr p (push (snd (computeDiffs (heap (tk_manager st) p) all (tk_projector st)))) (tk_manager st)"
  by (simp_all add: tick_session_def push_def ptr_Send_def at_ptr_def Let_def split: prod.splits option.splits)

definition tick_result :: "Object list \<Rightarrow> sptr list \<Rightarrow> TickState \<Rightarrow> TickState \<Rightarrow> bool" where
  \<comment> \<open>\<open>st'\<close> is \<open>st\<close> after the sessions at the addresses \<open>ps\<close> have been served, each on its own\<close>
  "tick_result all ps st st' \<longleftrightarrow>
     sessions (tk_manager st') = sessions (tk_manager st) \<and>
     next_ptr (tk_manager st') = next_ptr (tk_manager st) \<and>
     (\<forall>p \<in> set ps. heap (tk_manager st') p =
        push (snd (computeDiffs (heap (tk_manager st) p) all (tk_projector st))) (heap (tk_manager st) p)) \<and>
     (\<forall>p. p \<notin> set ps \<longrightarrow> heap (tk_manager st') p = heap (tk_manager st) p) \<and>
     (\<forall>p \<in> set ps. seenBy (sess_ID (heap (tk_manager st) p)) (tk_projector st') =
        advance (heap (tk_manager st) p) all (seenBy (sess_ID (heap (tk_manager st) p)) (tk_projector st))) \<and>
     (\<forall>sid. sid \<notin> (\<lambda>p. sess_ID (heap (tk_manager st) p)) ` set ps \<longrightarrow>
        seenBy sid (tk_projector st') = seenBy sid (tk_projector st))"

lemma fold_tick_session:
  assumes "distinct (map obj_ID all)" and "distinct ps" and "inj_on (\<lambda>p. sess_ID (heap (tk_manager st) p)) (set ps)"
  shows "tick_result all ps st (fold (tick_session all) ps st)"
  using assms(2,3)
proof (induction ps arbitrary: st)
  case (Cons q ps)
  let ?s = "heap (tk_manager st) q" and ?st1 = "tick_session all q st"
  let ?st' = "fold (tick_session all) ps ?st1"
  have ids: "sess_ID (heap (tk_manager ?st1) x) = sess_ID (heap (tk_manager st) x)" for x
    by (simp add: tick_session_sel)
  have dist: "distinct ps" and inj: "inj_on (\<lambda>p. sess_ID (heap (tk_manager ?st1) p)) (set ps)"
    and new: "q \<notin> set ps" "sess_ID ?s \<notin> (\<lambda>p. sess_ID (heap (tk_manager st) p)) ` set ps"
    using Cons.prems unfolding ids by auto
  note IH = Cons.IH [OF dist inj, unfolded tick_result_def ids]
  have seen1: "seenBy j (tk_projector ?st1) =
      (if j = sess_ID ?s then advance ?s all (seenBy j (tk_projector st)) else seenBy j (tk_projector st))" for j
    by (simp add: tick_session_sel seenBy_computeDiffs [OF assms(1)])
  have diffs1: "snd (computeDiffs x all (tk_projector ?st1)) = snd (computeDiffs x all (tk_projector st))"
    if "sess_ID x \<noteq> sess_ID ?s" for x
    using that by (simp add: computeDiffs_eq [OF assms(1)] seen1)
  have other: "heap (tk_manager ?st1) x = heap (tk_manager st) x" if "x \<noteq> q" for x
    using that by (simp add: tick_session_sel)
  have rest: "sess_ID (heap (tk_manager st) p) \<noteq> sess_ID ?s \<and> p \<noteq> q" if "p \<in> set ps" for p
    using new that by (metis image_eqI)
  have "heap (tk_manager ?st') p =
      push (snd (computeDiffs (heap (tk_manager st) p) all (tk_projector st))) (heap (tk_manager st) p) \<and>
      seenBy (sess_ID (heap (tk_manager st) p)) (tk_projector ?st') =
        advance (heap (tk_manager st) p) all (seenBy (sess_ID (heap (tk_manager st) p)) (tk_projector st))"
    if "p \<in> set ps" for p
    using IH rest [OF that] that other [of p] diffs1 [of "heap (tk_manager st) p"] by (simp add: seen1)
  moreover have "heap (tk_manager ?st') q = push (snd (computeDiffs ?s all (tk_projector st))) ?s"
    using IH new(1) by (simp add: tick_session_sel(2))
  moreover have "seenBy (sess_ID ?s) (tk_projector ?st') = advance ?s all (seenBy (sess_ID ?s) (tk_projector st))"
    using IH new(2) by (simp add: seen1)
  moreover have "heap (tk_manager ?st') p = heap (tk_manager st) p" if "p \<notin> set (q # ps)" for p
    using IH that other [of p] by simp
  moreover have "seenBy sid (tk_projector ?st') = seenBy sid (tk_projector st)"
    if "sid \<notin> (\<lambda>p. sess_ID (heap (tk_manager st) p)) ` set (q # ps)" for sid
    using IH that by (simp add: seen1)
  moreover have "sessions (tk_manager ?st') = sessions (tk_manager st)" "next_ptr (tk_manager ?st') = next_ptr (tk_manager st)"
    using IH by (simp_all add: tick_session_sel)
  ultimately show ?case unfolding tick_result_def by (simp only: fold.simps o_apply list.set ball_simps) simp
qed (simp add: tick_result_def)

lemma tick_after:
  assumes "manager_ok m" and "world_ok w" and "enumerates ks (objects w)" and "enumerates ms (sessions m)"
    and "projector_tick ks ms w mr pr m = (pr', m', mr', ls)"
  shows "tick_result (world_List ks w None) (manager_snapshot ms m)
     \<lparr>tk_projector = pr, tk_manager = m, tk_delivered = 0, tk_objects = 0\<rparr>
     \<lparr>tk_projector = pr', tk_manager = m', tk_delivered = 0, tk_objects = 0\<rparr>"
proof -
  let ?st = "\<lparr>tk_projector = pr, tk_manager = m, tk_delivered = 0, tk_objects = 0\<rparr>"
  have "inj_on (\<lambda>p. sess_ID (heap (tk_manager ?st) p)) (set (manager_snapshot ms m))"
    using manager_okD(2) [OF assms(1)] by (fastforce simp: set_snapshot [OF assms(4)] inj_on_def ran_def)
  from fold_tick_session [OF world_List_all(1) [OF assms(2,3)] distinct_snapshot [OF assms(1,4)] this]
  have "tick_result (world_List ks w None) (manager_snapshot ms m) ?st
      (fold (tick_session (world_List ks w None)) (manager_snapshot ms m) ?st)" .
  moreover have "pr' = tk_projector (fold (tick_session (world_List ks w None)) (manager_snapshot ms m) ?st)"
    "m' = tk_manager (fold (tick_session (world_List ks w None)) (manager_snapshot ms m) ?st)"
    using assms(5) by (simp_all add: projector_tick_def manager_Each_def Let_def split: prod.splits)
  ultimately show ?thesis by (simp add: tick_result_def)
qed

section \<open>Properties\<close>

text \<open>C8. One tick: every registered session that is due something is sent exactly one message (as long as
  fewer than 512 wait), the encoding of exactly those objects that match its tags and are newer than what was
  projected to it before, each once; every other session is left alone; and afterwards the projector
  regards exactly these objects as projected in their current version.\<close>

theorem projector_tick_exact:
  assumes "manager_ok m" and "world_ok w" and "enumerates ks (objects w)" and "enumerates ms (sessions m)"
    and "projector_tick ks ms w mr pr m = (pr', m', mr', ls)" and "sessions m sid = Some p"
  shows "\<exists>obs. distinct obs \<and> set obs = {ob \<in> ran (objects w). due (heap m p) (seenBy sid pr) ob} \<and>
     sessions m' = sessions m \<and>
     heap m' p = (if obs = [] then heap m p
       else case updateMsg (map diffOf obs) of None \<Rightarrow> heap m p
         | Some b \<Rightarrow> (heap m p)\<lparr>sess_outbox := chan_offer 512 (sess_outbox (heap m p)) (Some b)\<rparr>) \<and>
     (\<forall>k. case objects w k of None \<Rightarrow> seenBy sid pr' k = seenBy sid pr k
        | Some ob \<Rightarrow> seenBy sid pr' k = (if ob \<in> set obs then Some (obj_Version ob) else seenBy sid pr k)) \<and>
     (\<forall>q. q \<in> ran (sessions m) \<or> heap m' q = heap m q)"
proof -
  let ?all = "world_List ks w None" and ?s = "heap m p"
  let ?obs = "filter (due ?s (seenBy sid pr)) ?all"
  note all = world_List_all [OF assms(2,3)]
  note ok = manager_okD [OF assms(1,6)]
  note tick = tick_after [OF assms(1-5), unfolded tick_result_def, simplified]
  have p: "p \<in> set (manager_snapshot ms m)" using assms(6) by (auto simp: set_snapshot [OF assms(4)] ran_def)
  have heap: "heap m' p = push (map diffOf ?obs) ?s"
    using tick p ok(2) by (simp add: computeDiffs_eq [OF all(1)])
  have seen: "seenBy sid pr' = advance ?s ?all (seenBy sid pr)"
    using tick p ok(2) by metis
  have "distinct ?obs" using all(1) by (simp add: distinct_map)
  moreover have "set ?obs = {ob \<in> ran (objects w). due ?s (seenBy sid pr) ob}" by (auto simp: all(2))
  moreover have "heap m' p = (if ?obs = [] then ?s else case updateMsg (map diffOf ?obs) of None \<Rightarrow> ?s
         | Some b \<Rightarrow> ?s\<lparr>sess_outbox := chan_offer 512 (sess_outbox ?s) (Some b)\<rparr>)"
    using ok(3) by (simp add: heap push_def session_Send_def outboxBuffer_def split: option.splits)
  moreover have "case objects w k of None \<Rightarrow> seenBy sid pr' k = seenBy sid pr k
        | Some ob \<Rightarrow> seenBy sid pr' k = (if ob \<in> set ?obs then Some (obj_Version ob) else seenBy sid pr k)" for k
  proof (cases "objects w k")
    case None
    then have "k \<notin> obj_ID ` set ?all" using world_ok_ID [OF assms(2)] by (auto simp: all(2) ran_def)
    with None show ?thesis by (simp add: seen advance_other)
  next
    case (Some ob)
    then have "ob \<in> set ?all" "obj_ID ob = k" using world_ok_ID [OF assms(2)] by (auto simp: all(2) ran_def)
    with Some show ?thesis using advance_object [OF all(1), of ob ?s "seenBy sid pr"] by (simp add: seen)
  qed
  moreover have "q \<in> ran (sessions m) \<or> heap m' q = heap m q" for q
    using tick by (auto simp: set_snapshot [OF assms(4)])
  moreover have "sessions m' = sessions m" using tick by simp
  ultimately show ?thesis by (intro exI [of _ ?obs]) blast
qed

text \<open>C40. Lost updates: when the outbox of a session is full, or when its message cannot be encoded because
  the data of one of the objects is not JSON, the tick sends nothing to it but still counts all its objects as
  projected; even after the client has emptied its outbox the next tick finds nothing to send to it, so it
  never receives these versions.\<close>

theorem projector_loses_updates:
  assumes "manager_ok m" and "world_ok w" and "enumerates ks (objects w)" and "enumerates ms (sessions m)"
    and "projector_tick ks ms w mr pr m = (pr', m', mr', ls)" and "sessions m sid = Some p"
    and "length (sess_outbox (heap m p)) = 512 \<or>
       updateMsg (map diffOf (filter (due (heap m p) (seenBy sid pr)) (world_List ks w None))) = None"
  shows "heap m' p = heap m p \<and> snd (computeDiffs ((heap m' p)\<lparr>sess_outbox := []\<rparr>) (world_List ks w None) pr') = []"
proof -
  let ?all = "world_List ks w None" and ?s = "heap m p"
  note all = world_List_all [OF assms(2,3)]
  note ok = manager_okD [OF assms(1,6)]
  note tick = tick_after [OF assms(1-5), unfolded tick_result_def, simplified]
  have p: "p \<in> set (manager_snapshot ms m)" using assms(6) by (auto simp: set_snapshot [OF assms(4)] ran_def)
  have "fst (session_Send ?s x) = ?s" if "length (sess_outbox ?s) = 512" for x
    using that by (simp add: session_Send_def chan_offer_def outboxBuffer_def)
  moreover have "heap m' p = push (map diffOf (filter (due ?s (seenBy sid pr)) ?all)) ?s"
    using tick p ok(2) by (simp add: computeDiffs_eq [OF all(1)])
  ultimately have same: "heap m' p = ?s"
    using assms(7) by (auto simp: push_def split: option.splits)
  have seen: "seenBy sid pr' = advance ?s ?all (seenBy sid pr)"
    using tick p ok(2) by metis
  have "\<not> due ?s (seenBy sid pr') ob" if "ob \<in> set ?all" for ob
    using advance_object [OF all(1) that, of ?s "seenBy sid pr"] by (auto simp: seen due_def seenVersion_def split: if_splits)
  then have "snd (computeDiffs ?s ?all pr') = []"
    using ok(2) by (simp add: computeDiffs_eq [OF all(1)])
  moreover have "computeDiffs (?s\<lparr>sess_outbox := []\<rparr>) ?all pr' = computeDiffs ?s ?all pr'"
    by (rule computeDiffs_cong) simp_all
  ultimately show ?thesis by (simp add: same)
qed









definition exampleSubscriber :: Session where
  "exampleSubscriber = \<lparr>sess_ID = ''s'', sess_ConnectedAt = 1, sess_tags = {''*''}, sess_outbox = [], sess_closed = False\<rparr>"


text \<open>Deletions break it: a deleted object is not announced to anyone, and when it is created again, with
  its versions starting from 1, the projector takes the new object for an old version of the deleted one and
  does not send it.\<close>

theorem recreated_object_is_not_projected:
  "let w1 = fst (world_run [OpApply 5 (exampleRequest 0 ''open''), OpApply 6 (exampleRequest 0 ''ajar'')] (world_New, ()));
       (pr1, sent1) = computeDiffs exampleSubscriber (world_List [''door''] w1 None) (projector_New 0);
       w2 = fst (world_run [OpDelete ''door''] (w1, ()));
       (pr2, sent2) = computeDiffs exampleSubscriber (world_List [] w2 None) pr1;
       w3 = fst (world_run [OpApply 8 (exampleRequest 0 ''shut'')] (w2, ()));
       (pr3, sent3) = computeDiffs exampleSubscriber (world_List [''door''] w3 None) pr2
   in map od_Data sent1 = [Some ''ajar''] \<and> sent2 = [] \<and> map_option obj_Data (objects w3 ''door'') = Some (Some ''shut'') \<and> sent3 = []"
  by (simp add: world_Apply_def world_Delete_def exampleRequest_def world_New_def world_List_def tagFilter_iff
      computeDiffs_def diff_step_def exampleSubscriber_def projector_New_def diffOf_def Let_def)

definition exampleManager :: "msg list \<Rightarrow> Manager" where
  "exampleManager q = at_ptr 0 (\<lambda>s. s\<lparr>sess_tags := {''*''}, sess_outbox := q\<rparr>) (fst (manager_Add 1 manager_New ''s''))"

definition exampleDoor :: "unit World" where
  "exampleDoor = fst (world_Apply 5 world_New (exampleRequest 0 ''7'') ())"

lemma exampleManager_facts:
  "length q \<le> 512 \<Longrightarrow> manager_ok (exampleManager q)"
  "sessions (exampleManager q) = [''s'' \<mapsto> 0]"
  "enumerates [''s''] (sessions (exampleManager q))"
  by (auto simp: exampleManager_def manager_ok_def manager_Add_def manager_New_def newSession_def outboxBuffer_def
      enumerates_def Let_def)

lemma exampleDoor_facts:
  "world_ok exampleDoor" "enumerates [''door''] (objects exampleDoor)"
  by (auto simp: exampleDoor_def world_ok_Apply)
     (simp add: enumerates_def world_Apply_def exampleRequest_def world_New_def Let_def)

lemma exampleDoor_object:
  obtains ob where "objects exampleDoor = [''door'' \<mapsto> ob]" "ran (objects exampleDoor) = {ob}"
    "obj_ID ob = ''door''" "obj_Data ob = Some ''7''" "obj_Version ob = 1" "obj_Meta ob = None"
  by (simp add: exampleDoor_def world_Apply_def exampleRequest_def world_New_def Let_def)

lemma exampleDoor_encodes:
  assumes "obj_Data ob = Some ''7''" and "obj_Meta ob = None"
  shows "updateMsg [diffOf ob] \<noteq> None"
proof -
  have "jsonValue 4 ''7'' \<noteq> None" by code_simp
  then have "\<forall>m \<in> set (raws (PWorldUpdate \<lparr>wup_Objects = Some [diffOf ob]\<rparr>)). wellNested m"
    using assms by (auto simp: raws_WorldUpdate rawsOf_def diffOf_def wellNested_def)
  then show ?thesis
    using encode_then_unmarshal [of "Some (PWorldUpdate \<lparr>wup_Objects = Some [diffOf ob]\<rparr>)" MsgWorldUpdate "''''"]
    by (auto simp: updateMsg_def)
qed

theorem projector_tick_exact_witness:
  "\<exists>b. sess_outbox (heap (fst (snd (projector_tick [''door''] [''s''] exampleDoor None (projector_New 0) (exampleManager [])))) 0) =
       [Some b]"
proof -
  obtain pr' m' mr' ls where tick:
    "projector_tick [''door''] [''s''] exampleDoor None (projector_New 0) (exampleManager []) = (pr', m', mr', ls)"
    by (metis prod_cases4)
  obtain ob where ob: "ran (objects exampleDoor) = {ob}" "obj_Data ob = Some ''7''" "obj_Version ob = 1" "obj_Meta ob = None"
    by (rule exampleDoor_object)
  have "sessions (exampleManager []) ''s'' = Some 0" by (simp add: exampleManager_facts(2))
  from projector_tick_exact [OF exampleManager_facts(1) exampleDoor_facts exampleManager_facts(3) tick this]
  obtain obs where obs: "distinct obs"
    "set obs = {ob \<in> ran (objects exampleDoor). due (heap (exampleManager []) 0) (seenBy ''s'' (projector_New 0)) ob}"
    "heap m' 0 = (if obs = [] then heap (exampleManager []) 0
       else case updateMsg (map diffOf obs) of None \<Rightarrow> heap (exampleManager []) 0
         | Some b \<Rightarrow> (heap (exampleManager []) 0)\<lparr>sess_outbox := chan_offer 512 (sess_outbox (heap (exampleManager []) 0)) (Some b)\<rparr>)"
    by auto
  have "due (heap (exampleManager []) 0) (seenBy ''s'' (projector_New 0)) ob"
    by (simp add: due_def exampleManager_def manager_Add_def manager_New_def newSession_def seenBy_def projector_New_def ob(3) Let_def)
  then have "obs = [ob]" using obs(1,2) ob(1) by (intro set_singleton_distinct) auto
  moreover obtain b where "updateMsg [diffOf ob] = Some b" using exampleDoor_encodes [OF ob(2,4)] by blast
  ultimately show ?thesis
    using obs(3) by (simp add: tick) (simp add: exampleManager_def chan_offer_def)
qed

theorem projector_loses_updates_witness:
  "sess_outbox (heap (fst (snd (projector_tick [''door''] [''s''] exampleDoor None (projector_New 0) (exampleManager (replicate 512 None))))) 0) =
     replicate 512 None"
proof -
  let ?m = "exampleManager (replicate 512 None)"
  obtain pr' m' mr' ls where tick: "projector_tick [''door''] [''s''] exampleDoor None (projector_New 0) ?m = (pr', m', mr', ls)"
    by (metis prod_cases4)
  have "sessions ?m ''s'' = Some 0" by (simp add: exampleManager_facts(2))
  moreover have outbox: "sess_outbox (heap ?m 0) = replicate 512 None"
    by (simp add: exampleManager_def)
  then have "length (sess_outbox (heap ?m 0)) = 512" by (simp only: length_replicate)
  moreover have "manager_ok ?m" by (rule exampleManager_facts(1)) (simp only: length_replicate)
  ultimately have "heap m' 0 = heap ?m 0"
    using projector_loses_updates [OF _ exampleDoor_facts exampleManager_facts(3) tick] by blast
  then show ?thesis by (simp only: tick outbox fst_conv snd_conv)
qed

end
