(* ===== verification/Backend.thy ===== *)
theory Backend imports Dispatcher Projector begin

text \<open>
  The wiring of the server, \<open>cmd/server/main.go\<close>: the state of all its components, the callbacks that
  \<open>main\<close> registers with the world and with the task registry, and the functions that it gives to the
  transports.  The merge function is the application's; \<open>main\<close> itself has none.

  A broadcast ranges over the map of sessions.  The order is the argument \<open>ord\<close>, which gives an order
  for every state of the manager; the properties assume only that it enumerates the sessions.

  The lemmas show that every operation keeps the invariant \<open>backend_ok\<close> of the composed state.
\<close>

section \<open>The callbacks of main\<close>

definition on_change :: "(ChangeEvent, Effects) handler" where
  "on_change evt e = Returned
     (if chg_Kind evt = ChangeCreated \<or> chg_Kind evt = ChangeUpdated
      then record_metric (WorldUpdated (obj_ID (chg_Object evt)) (chg_PrevVersion evt) (obj_Version (chg_Object evt))) e
      else e)"

definition on_ownership_lost :: "(LostEvent, Effects) handler" where
  "on_ownership_lost evt e = Returned
     (let e1 = record_metric (TaskEvicted (lost_TaskID evt) (lost_OwnerID evt) (lost_Reason evt)) e in
      case manager_Get (fx_manager e1) (lost_OwnerID evt) of
        Inl _ \<Rightarrow> e1
      | Inr p \<Rightarrow>
          let msg = protocol_Encode MsgOwnershipLost ''''
                (Some (POwnershipLost \<lparr>olp_TaskID = lost_TaskID evt, olp_Reason = lost_Reason evt\<rparr>))
          in e1\<lparr>fx_manager := fst (ptr_Send p msg (fx_manager e1))\<rparr>)"

definition on_available :: "(Manager \<Rightarrow> string list) \<Rightarrow> (AvailableEvent, Effects) handler" where
  "on_available ord evt e = Returned
     (let e1 = (if avail_Reason evt = ''registered''
                then record_metric (TaskRegistered (avail_TaskID evt) (avail_Tags evt)) e else e) in
      case protocol_Encode MsgTaskAvailable '''' (Some (PTaskAvailable
             \<lparr>tap_TaskID = avail_TaskID evt, tap_Tags = avail_Tags evt, tap_Hint = avail_Hint evt\<rparr>)) of
        None \<Rightarrow> e1
      | Some msg \<Rightarrow>
          e1\<lparr>fx_manager := manager_Broadcast (ord (fx_manager e1)) (fx_manager e1) (avail_Tags evt) (Some msg)\<rparr>)"

section \<open>The state of the server\<close>

record Backend =
  bk_disp :: Dispatcher
  bk_proj :: Projector

definition backend_manager :: "Backend \<Rightarrow> Manager" where
  "backend_manager bk = fx_manager (disp_fx (bk_disp bk))"

definition backend_registry :: "Backend \<Rightarrow> Effects Registry" where
  "backend_registry bk = disp_registry (bk_disp bk)"

definition on_manager :: "(Manager \<Rightarrow> Manager) \<Rightarrow> Backend \<Rightarrow> Backend" where
  \<comment> \<open>an operation of the session manager on the shared state\<close>
  "on_manager f bk = bk\<lparr>bk_disp := (bk_disp bk)\<lparr>disp_fx := (disp_fx (bk_disp bk))\<lparr>fx_manager := f (backend_manager bk)\<rparr>\<rparr>\<rparr>"

definition metricsAddrOrOff :: "string \<Rightarrow> string" where
  "metricsAddrOrOff addr = (if addr = '''' then ''off'' else addr)"

definition backend_New ::
    "gotime \<Rightarrow> string \<Rightarrow> duration \<Rightarrow> MergeFunc option \<Rightarrow> (Manager \<Rightarrow> string list) \<Rightarrow> Backend" where
  \<comment> \<open>\<open>main\<close> up to the start of the projector\<close>
  "backend_New now metricsAddr tick fn ord =
     (let mr = Some (recorder_New now (metricsAddr \<noteq> ''''));
          w = world_OnChange world_New on_change;
          r = registry_OnAvailable (registry_OnOwnershipLost registry_New on_ownership_lost) (on_available ord)
      in \<lparr>bk_disp = dispatcher_New manager_New mr r (coordinator_New fn) w, bk_proj = projector_New tick\<rparr>)"

definition main_start ::
    "string \<Rightarrow> string \<Rightarrow> gotime \<Rightarrow> string \<Rightarrow> duration \<Rightarrow> MergeFunc option \<Rightarrow> (Manager \<Rightarrow> string list) \<Rightarrow> Backend option" where
  \<comment> \<open>\<open>None\<close>: \<open>log.Fatal\<close>, neither transport has an address\<close>
  "main_start tcpAddr udpAddr now metricsAddr tick fn ord =
     (if tcpAddr = '''' \<and> udpAddr = '''' then None else Some (backend_New now metricsAddr tick fn ord))"

definition server_onConnect :: "string \<Rightarrow> Backend \<Rightarrow> Backend" where
  "server_onConnect sessionID bk = bk\<lparr>bk_disp := disp_metric (SessionConnected sessionID) (bk_disp bk)\<rparr>"

definition server_onDisconnect :: "string list \<Rightarrow> (string \<Rightarrow> gotime) \<Rightarrow> string \<Rightarrow> Backend \<Rightarrow> Backend \<times> unit outcome" where
  "server_onDisconnect ks clk sessionID bk =
     (let d = bk_disp bk;
          (r, e, out) = registry_ReleaseAll ks clk (disp_registry d) sessionID (disp_fx d);
          d1 = d\<lparr>disp_registry := r, disp_fx := e\<rparr>
      in (case out of
            Panics \<Rightarrow> (bk\<lparr>bk_disp := d1\<rparr>, Panics)
          | Returns released \<Rightarrow>
              let d2 = disp_metric (SessionDisconnected sessionID (int (length released))) d1;
                  d3 = (if length released > 0
                        then d2\<lparr>disp_fx := (disp_fx d2)\<lparr>fx_log := fx_log (disp_fx d2) @ [ReleasedTasks sessionID (length released)]\<rparr>\<rparr>
                        else d2)
              in (\<lparr>bk_disp = d3, bk_proj = projector_ForgetSession sessionID (bk_proj bk)\<rparr>, Returns ())))"

text \<open>The other goroutines that work on the same state: the requests, the projector's timer, the lease
  watcher, and the application that registers tasks.\<close>

definition backend_Handle :: "Oracle \<Rightarrow> string \<Rightarrow> Envelope \<Rightarrow> Backend \<Rightarrow> Backend \<times> session_error option outcome" where
  "backend_Handle orc sid env bk =
     (let (d, res) = dispatcher_Handle orc sid env (bk_disp bk) in (bk\<lparr>bk_disp := d\<rparr>, res))"

definition backend_tick :: "string list \<Rightarrow> string list \<Rightarrow> Backend \<Rightarrow> Backend" where
  "backend_tick ks ms bk =
     (let d = bk_disp bk;
          (pr, m, mr, ls) = projector_tick ks ms (disp_world d) (fx_metrics (disp_fx d)) (bk_proj bk) (backend_manager bk)
      in \<lparr>bk_disp = d\<lparr>disp_fx := (disp_fx d)\<lparr>fx_manager := m, fx_metrics := mr, fx_log := fx_log (disp_fx d) @ map MetricsLine ls\<rparr>\<rparr>,
          bk_proj = pr\<rparr>)"

definition backend_evict :: "string list \<Rightarrow> gotime \<Rightarrow> (string \<Rightarrow> gotime) \<Rightarrow> Backend \<Rightarrow> Backend \<times> unit outcome" where
  "backend_evict ks now clk bk =
     (let d = bk_disp bk; (r, e, out) = registry_evictExpired ks now clk (disp_registry d) (disp_fx d)
      in (bk\<lparr>bk_disp := d\<lparr>disp_registry := r, disp_fx := e\<rparr>\<rparr>, out))"

definition backend_Register :: "gotime \<Rightarrow> gotime \<Rightarrow> string \<Rightarrow> string slice \<Rightarrow> char slice \<Rightarrow> Backend \<Rightarrow> Backend" where
  "backend_Register nowC nowU tid tags hint bk =
     (let d = bk_disp bk; (r, e, err) = registry_Register nowC nowU (disp_registry d) tid tags hint (disp_fx d)
      in bk\<lparr>bk_disp := d\<lparr>disp_registry := r, disp_fx := e\<rparr>\<rparr>)"

section \<open>What the callbacks may do\<close>

text \<open>\<open>grows m m'\<close>: the sessions are the same and each outbox is only appended to, within its bound.\<close>

definition grows :: "Manager \<Rightarrow> Manager \<Rightarrow> bool" where
  "grows m m' \<longleftrightarrow> sessions m' = sessions m \<and> next_ptr m' = next_ptr m \<and>
     (\<forall>p. sess_ID (heap m' p) = sess_ID (heap m p) \<and> sess_closed (heap m' p) = sess_closed (heap m p) \<and>
          prefix (sess_outbox (heap m p)) (sess_outbox (heap m' p)) \<and>
          (length (sess_outbox (heap m p)) \<le> outboxBuffer \<longrightarrow> length (sess_outbox (heap m' p)) \<le> outboxBuffer))"

lemma grows_refl [simp]: "grows m m"
  by (simp add: grows_def)

lemma grows_trans [trans]:
  assumes "grows m1 m2" and "grows m2 m3"
  shows "grows m1 m3"
  using assms unfolding grows_def by (metis prefix_order.trans)

lemma grows_sessions: "grows m m' \<Longrightarrow> sessions m' = sessions m"
  by (simp add: grows_def)

lemma grows_ok: "grows m m' \<Longrightarrow> manager_ok m \<Longrightarrow> manager_ok m'"
  by (auto simp: grows_def manager_ok_def)

lemma grows_Send [simp]: "grows m (fst (ptr_Send p x m))"
  by (auto simp: grows_def chan_offer_def)

lemma grows_Broadcast [simp]: "grows m (manager_Broadcast ks m tags x)"
proof -
  have "grows m0 (fold (\<lambda>p m. if P p m then fst (ptr_Send p x m) else m) ps m)" if "grows m0 m" for P ps m m0
    using that by (induction ps arbitrary: m) (simp_all add: grows_trans [OF _ grows_Send])
  from this [OF grows_refl] show ?thesis by (simp add: manager_Broadcast_def manager_Each_def)
qed

definition fx_grows :: "Effects \<Rightarrow> Effects \<Rightarrow> bool" where
  "fx_grows e e' \<longleftrightarrow> grows (fx_manager e) (fx_manager e')"

lemma fx_grows_refl [simp]: "fx_grows e e"
  by (simp add: fx_grows_def)

lemma fx_grows_trans [trans]: "fx_grows e1 e2 \<Longrightarrow> fx_grows e2 e3 \<Longrightarrow> fx_grows e1 e3"
  unfolding fx_grows_def by (rule grows_trans)

definition quiet :: "('ev, Effects) handler \<Rightarrow> bool" where
  \<comment> \<open>a callback that returns and only lets the outboxes grow\<close>
  "quiet h \<longleftrightarrow> (\<forall>ev e. \<exists>e'. h ev e = Returned e' \<and> fx_grows e e')"

lemma quiet_on_change: "quiet on_change"
  by (simp add: quiet_def on_change_def fx_grows_def)

lemma quiet_on_ownership_lost: "quiet on_ownership_lost"
  by (auto simp: quiet_def on_ownership_lost_def fx_grows_def Let_def simp del: ptr_Send_sel split: sum.splits)

lemma quiet_on_available: "quiet (on_available ord)"
  by (auto simp: quiet_def on_available_def fx_grows_def Let_def split: option.splits)

lemma quiet_fire:
  assumes "\<And>h. h \<in> set hs \<Longrightarrow> quiet h"
  shows "fx_grows e (fire_recover hs ev e)" and "fire_plain hs ev e = Returned (fire_recover hs ev e)"
proof -
  show "fx_grows e (fire_recover hs ev e)"
  proof (rule fire_recover_invariant [where P = "fx_grows e"])
    fix h e'
    assume "h \<in> set hs" "fx_grows e e'"
    with assms [of h] show "fx_grows e (hstate (h ev e'))"
      unfolding quiet_def by (metis fx_grows_trans hstate.simps(1))
  qed simp
  show "fire_plain hs ev e = Returned (fire_recover hs ev e)"
    by (rule fire_plain_returns) (meson assms quiet_def)
qed

definition quiet_registry :: "Effects Registry \<Rightarrow> bool" where
  "quiet_registry r \<longleftrightarrow> (\<forall>h \<in> set (lostHandlers r). quiet h) \<and> (\<forall>h \<in> set (availHandlers r). quiet h)"

definition quiet_world :: "Effects World \<Rightarrow> bool" where
  "quiet_world w \<longleftrightarrow> (\<forall>h \<in> set (handlers w). quiet h)"

lemma quiet_never_panics: "quiet_registry r \<Longrightarrow> never_panics (lostHandlers r)"
  unfolding quiet_registry_def quiet_def never_panics_def by blast

lemma quiet_registry_fire:
  assumes "quiet_registry r"
  shows "fx_grows e (fire_recover (lostHandlers r) lev e)" and "fx_grows e (fire_recover (availHandlers r) aev e)"
    and "fire_plain (lostHandlers r) lev e = Returned (fire_recover (lostHandlers r) lev e)"
  using assms quiet_fire [of "lostHandlers r"] quiet_fire [of "availHandlers r"] by (auto simp: quiet_registry_def)

text \<open>The effect of the operations of the registry and of the world on the environment.\<close>

lemma quiet_Acquire:
  assumes "quiet_registry r"
  shows "fx_grows e (fst (snd (registry_Acquire now nowL nowU r tid ownerID opts e)))"
    and "snd (snd (registry_Acquire now nowL nowU r tid ownerID opts e)) \<noteq> Panics"
proof -
  note fire = quiet_registry_fire [OF assms]
  show "fx_grows e (fst (snd (registry_Acquire now nowL nowU r tid ownerID opts e)))"
    by (cases rule: acquire_enter_cases [of r tid now])
       (auto simp: registry_Acquire_def registry_fireAvailable_def fire(3) Let_def split: prod.splits
          intro: fx_grows_trans [OF fire(1) fire(2)])
  show "snd (snd (registry_Acquire now nowL nowU r tid ownerID opts e)) \<noteq> Panics"
    by (cases rule: acquire_enter_cases [of r tid now])
       (auto simp: registry_Acquire_def registry_fireAvailable_def fire(3) Let_def split: prod.splits)
qed

lemma quiet_Release:
  assumes "quiet_registry r"
  shows "fx_grows e (fst (snd (registry_Release now r tid ownerID e)))"
  using quiet_registry_fire(2) [OF assms]
  by (auto simp: registry_Release_def registry_fireAvailable_def split: option.splits)

lemma quiet_Register:
  assumes "quiet_registry r"
  shows "fx_grows e (fst (snd (registry_Register nowC nowU r tid tags hint e)))"
  using quiet_registry_fire(2) [OF assms]
  by (auto simp: registry_Register_def registry_fireAvailable_def Let_def split: option.splits)

lemma quiet_fire_released:
  assumes "quiet_registry r"
  shows "\<exists>e'. fire_released (availHandlers r) (lostHandlers r) ownerID ts e = Returned e' \<and> fx_grows e e'"
proof (induction ts arbitrary: e)
  case (Cons t ts)
  note fire = quiet_registry_fire [OF assms]
  let ?e1 = "fire_recover (availHandlers r) (availableEvent t (task_ID t) ''disconnected'') e"
  let ?e2 = "fire_recover (lostHandlers r) \<lparr>lost_TaskID = task_ID t, lost_OwnerID = ownerID, lost_Reason = ''disconnected''\<rparr> ?e1"
  have "fx_grows e ?e2" using fire(2) fire(1) by (rule fx_grows_trans)
  moreover obtain e' where "fire_released (availHandlers r) (lostHandlers r) ownerID ts ?e2 = Returned e'" "fx_grows ?e2 e'"
    using Cons.IH by blast
  ultimately show ?case by (auto simp: registry_fireAvailable_def fire(3) intro: fx_grows_trans)
qed simp

lemma quiet_fire_expired:
  assumes "quiet_registry r"
  shows "\<exists>e'. fire_expired (lostHandlers r) (availHandlers r) ts e = Returned e' \<and> fx_grows e e'"
proof (induction ts arbitrary: e)
  case (Cons t ts)
  note fire = quiet_registry_fire [OF assms]
  let ?e1 = "fire_recover (lostHandlers r) \<lparr>lost_TaskID = task_ID t, lost_OwnerID = task_OwnerID t, lost_Reason = ''lease_expired''\<rparr> e"
  let ?e2 = "fire_recover (availHandlers r) (availableEvent t (task_ID t) ''lease_expired'') ?e1"
  have "fx_grows e ?e2" using fire(1) fire(2) by (rule fx_grows_trans)
  moreover obtain e' where "fire_expired (lostHandlers r) (availHandlers r) ts ?e2 = Returned e'" "fx_grows ?e2 e'"
    using Cons.IH by blast
  ultimately show ?case by (auto simp: registry_fireAvailable_def fire(3) intro: fx_grows_trans)
qed simp

lemma quiet_ReleaseAll:
  assumes "quiet_registry r"
  shows "fx_grows e (fst (snd (registry_ReleaseAll ks clk r ownerID e)))"
    and "snd (snd (registry_ReleaseAll ks clk r ownerID e)) \<noteq> Panics"
  using quiet_fire_released [OF assms, of ownerID "range_values (\<lambda>_ t. if ownedBy ownerID t then Some t else None) (tasks r) ks" e]
  by (auto simp: registry_ReleaseAll_def Let_def)

lemma quiet_evictExpired:
  assumes "quiet_registry r"
  shows "fx_grows e (fst (snd (registry_evictExpired ks now clk r e)))"
    and "snd (snd (registry_evictExpired ks now clk r e)) \<noteq> Panics"
  using quiet_fire_expired [OF assms, of "range_values (\<lambda>_ t. if evictable now t then Some t else None) (tasks r) ks" e]
  by (auto simp: registry_evictExpired_def Let_def)

lemma quiet_put:
  assumes "quiet_world w"
  shows "fx_grows e (fst (snd (fst (world_put clk q (w, e, i)))))" and "quiet_world (fst (fst (world_put clk q (w, e, i))))"
  using assms quiet_fire(1) [of "handlers w"]
  by (cases "admissible w q"; auto simp: quiet_world_def world_put_unfold world_Apply_branches Let_def)+

lemma quiet_Submit:
  assumes "quiet_world w"
  shows "fx_grows e (fst (snd (coordinator_Submit clk c w e sub)))"
    and "quiet_world (fst (coordinator_Submit clk c w e sub))"
proof -
  let ?P = "\<lambda>s. fx_grows e (fst (snd s)) \<and> quiet_world (fst s)"
  have step: "?P (fst (world_put clk q s))" if "?P s" for q s
  proof -
    obtain w1 e1 i where s: "s = (w1, e1, i)" by (cases s)
    with that have "fx_grows e e1" "quiet_world w1" by simp_all
    then show ?thesis
      using quiet_put [where w = w1 and e = e1 and clk = clk and q = q and i = i] fx_grows_trans [of e e1] by (simp add: s)
  qed
  have "?P (fst (thread (world_put clk) (dec_Updates (mergeFunc c sub)) (w, e, 0)))"
    by (rule thread_invariant) (use step assms in auto)
  then show "fx_grows e (fst (snd (coordinator_Submit clk c w e sub)))"
    and "quiet_world (fst (coordinator_Submit clk c w e sub))"
    using assms by (cases "dec_Accept (mergeFunc c sub)";
        simp add: coordinator_Submit_accepted coordinator_Submit_rejected Let_def)+
qed

section \<open>The invariant of the server\<close>

definition disp_ok :: "Dispatcher \<Rightarrow> bool" where
  "disp_ok d \<longleftrightarrow> manager_ok (fx_manager (disp_fx d)) \<and> registry_ok (disp_registry d) \<and> world_ok (disp_world d) \<and>
     quiet_registry (disp_registry d) \<and> quiet_world (disp_world d)"

definition disp_steps :: "Dispatcher \<Rightarrow> Dispatcher \<Rightarrow> bool" where
  \<comment> \<open>the invariant is kept, and the outboxes only grow\<close>
  "disp_steps d d' \<longleftrightarrow> fx_grows (disp_fx d) (disp_fx d') \<and> (disp_ok d \<longrightarrow> disp_ok d')"

lemma disp_steps_refl [simp]: "disp_steps d d"
  by (simp add: disp_steps_def)

lemma disp_steps_trans [trans]: "disp_steps d1 d2 \<Longrightarrow> disp_steps d2 d3 \<Longrightarrow> disp_steps d1 d3"
  unfolding disp_steps_def using fx_grows_trans by blast

lemma disp_stepsI:
  assumes "fx_grows (disp_fx d) (disp_fx d')" and "disp_registry d' = disp_registry d" and "disp_world d' = disp_world d"
  shows "disp_steps d d'"
  using assms grows_ok by (auto simp: disp_steps_def disp_ok_def fx_grows_def)

lemma disp_steps_metric [simp]: "disp_steps d (disp_metric f d)"
  by (rule disp_stepsI) (simp_all add: fx_grows_def)

lemma disp_at_fx: "fx_grows (disp_fx d) (disp_fx (disp_at p f d)) \<longleftrightarrow> grows (fx_manager (disp_fx d)) (at_ptr p f (fx_manager (disp_fx d)))"
  by (simp add: fx_grows_def)

lemma disp_steps_Send [simp]: "disp_steps d (fst (disp_Send p m d))"
proof (rule disp_stepsI)
  show "fx_grows (disp_fx d) (disp_fx (fst (disp_Send p m d)))"
    using grows_Send [of "fx_manager (disp_fx d)" p m] by (simp add: disp_Send_def disp_at_fx ptr_Send_def)
qed simp_all

lemma disp_steps_tags [simp]:
  "disp_steps d (disp_at p (\<lambda>s. session_Subscribe s ts) d)"
  "disp_steps d (disp_at p (\<lambda>s. session_Unsubscribe s ts) d)"
  by (rule disp_stepsI, simp_all add: disp_at_fx, simp add: grows_def)+

lemma disp_steps_sendError [simp]: "disp_steps d (fst (disp_sendError p rid c t d))"
  by (simp add: disp_sendError_def)

lemma disp_steps_rejectResult [simp]: "disp_steps d (fst (disp_rejectResult p rid tid t d))"
  by (simp add: disp_rejectResult_def)

lemma disp_Send_returns [simp]:
  "snd (disp_Send p m d) \<noteq> Panics" "snd (disp_sendError p rid c t d) \<noteq> Panics" "snd (disp_rejectResult p rid tid t d) \<noteq> Panics"
  by (simp_all add: disp_Send_def disp_sendError_def disp_rejectResult_def)

lemma disp_steps_registry:
  assumes "disp_ok d" and "registry_ok r" and "quiet_registry r" and "fx_grows (disp_fx d) e"
  shows "disp_steps d (d\<lparr>disp_registry := r, disp_fx := e\<rparr>)"
  using assms grows_ok by (auto simp: disp_steps_def disp_ok_def fx_grows_def)

lemma disp_steps_world:
  assumes "disp_ok d" and "world_ok w" and "quiet_world w" and "fx_grows (disp_fx d) e"
  shows "disp_steps d (d\<lparr>disp_world := w, disp_fx := e\<rparr>)"
  using assms grows_ok by (auto simp: disp_steps_def disp_ok_def fx_grows_def)

lemma registry_handlers:
  "lostHandlers (fst (registry_Acquire now nowL nowU r tid ownerID opts e)) = lostHandlers r"
  "availHandlers (fst (registry_Acquire now nowL nowU r tid ownerID opts e)) = availHandlers r"
  "lostHandlers (fst (registry_Release now r tid ownerID e)) = lostHandlers r"
  "availHandlers (fst (registry_Release now r tid ownerID e)) = availHandlers r"
  "lostHandlers (fst (registry_Register nowC nowU r tid tags hint e)) = lostHandlers r"
  "availHandlers (fst (registry_Register nowC nowU r tid tags hint e)) = availHandlers r"
  "lostHandlers (fst (registry_ReleaseAll ks clk r ownerID e)) = lostHandlers r"
  "availHandlers (fst (registry_ReleaseAll ks clk r ownerID e)) = availHandlers r"
  "lostHandlers (fst (registry_evictExpired ks now clk r e)) = lostHandlers r"
  "availHandlers (fst (registry_evictExpired ks now clk r e)) = availHandlers r"
  by (auto simp: registry_Acquire_def acquire_enter_def acquire_grant_def registry_Release_def registry_Register_def
      registry_ReleaseAll_def registry_evictExpired_def Let_def
      split: option.splits prod.splits acquire_phase.splits hresult.splits if_splits)

lemma disp_steps_Acquire:
  assumes "disp_ok d" and "0 < nowL" and "registry_Acquire now nowL nowU (disp_registry d) tid ownerID opts (disp_fx d) = (r, e, res)"
  shows "disp_steps d (d\<lparr>disp_registry := r, disp_fx := e\<rparr>)" and "res \<noteq> Panics"
proof -
  have q: "quiet_registry (disp_registry d)" "registry_ok (disp_registry d)" using assms(1) by (simp_all add: disp_ok_def)
  note A = quiet_Acquire [OF q(1), where e = "disp_fx d" and now = now and nowL = nowL and nowU = nowU and tid = tid
      and ownerID = ownerID and opts = opts]
    registry_handlers(1,2) [of now nowL nowU "disp_registry d" tid ownerID opts "disp_fx d"]
    registry_ok_Acquire [OF q(2) assms(2), where e = "disp_fx d" and now = now and nowU = nowU and tid = tid
      and ownerID = ownerID and opts = opts]
  show "disp_steps d (d\<lparr>disp_registry := r, disp_fx := e\<rparr>)"
    using A q(1) by (intro disp_steps_registry [OF assms(1)]) (simp_all add: assms(3) quiet_registry_def)
  show "res \<noteq> Panics" using A(2) by (simp add: assms(3))
qed

lemma disp_steps_Release:
  assumes "disp_ok d" and "registry_Release now (disp_registry d) tid ownerID (disp_fx d) = (r, e, res)"
  shows "disp_steps d (d\<lparr>disp_registry := r, disp_fx := e\<rparr>)"
proof -
  have q: "quiet_registry (disp_registry d)" "registry_ok (disp_registry d)" using assms(1) by (simp_all add: disp_ok_def)
  show ?thesis
    using q(1) quiet_Release [OF q(1), where e = "disp_fx d" and now = now and tid = tid and ownerID = ownerID]
      registry_ok_Release [OF q(2), where e = "disp_fx d" and now = now and tid = tid and ownerID = ownerID]
      registry_handlers(3,4) [of now "disp_registry d" tid ownerID "disp_fx d"]
    by (intro disp_steps_registry [OF assms(1)]) (simp_all add: assms(2) quiet_registry_def)
qed

lemma disp_steps_Submit:
  assumes "disp_ok d" and "coordinator_Submit clk c (disp_world d) (disp_fx d) sub = (w, e, res)"
  shows "disp_steps d (d\<lparr>disp_world := w, disp_fx := e\<rparr>)"
proof -
  have q: "quiet_world (disp_world d)" "world_ok (disp_world d)" using assms(1) by (simp_all add: disp_ok_def)
  show ?thesis
    using quiet_Submit [OF q(1), where e = "disp_fx d" and clk = clk and c = c and sub = sub]
      world_ok_Submit [OF q(2), where e = "disp_fx d" and clk = clk and c = c and sub = sub]
    by (intro disp_steps_world [OF assms(1)]) (simp_all add: assms(2))
qed

lemma disp_steps_log [simp]: "disp_steps d (d\<lparr>disp_fx := (disp_fx d)\<lparr>fx_log := l\<rparr>\<rparr>)"
  by (rule disp_stepsI) (simp_all add: fx_grows_def)

lemma disp_steps_fold: "disp_steps d (fold (\<lambda>t d. fst (disp_Send p (f t) d)) ts d)"
proof -
  have "disp_steps d0 (fold (\<lambda>t d. fst (disp_Send p (f t) d)) ts d)" if "disp_steps d0 d" for d0 d
    using that by (induction ts arbitrary: d) (simp_all add: disp_steps_trans [OF _ disp_steps_Send])
  then show ?thesis by simp
qed

lemma handleAcquire_steps:
  assumes "disp_ok d" and "0 < or_lease orc"
  shows "disp_steps d (fst (handleAcquire orc p env d)) \<and> snd (handleAcquire orc p env d) \<noteq> Panics"
proof (cases "unmarshal_AcquireTask (env_Payload env)")
  case None
  then show ?thesis by (simp add: handleAcquire_def)
next
  case (Some pl)
  obtain r e res where acq: "registry_Acquire (or_now orc) (or_lease orc) (or_updated orc) (disp_registry d) (atp_TaskID pl)
      (sess_ID (disp_session d p)) \<lparr>opt_Duration = 0\<rparr> (disp_fx d) = (r, e, res)" by (metis prod_cases3)
  note A = disp_steps_Acquire [OF assms acq]
  show ?thesis
    using A(2) by (auto simp: handleAcquire_def Some acq Let_def disp_steps_trans [OF A(1)] split: outcome.splits sum.splits
        intro!: disp_steps_trans [OF disp_steps_trans [OF A(1) disp_steps_metric] disp_steps_Send])
qed

lemma handleRelease_steps:
  assumes "disp_ok d"
  shows "disp_steps d (fst (handleRelease orc p env d)) \<and> snd (handleRelease orc p env d) \<noteq> Panics"
proof (cases "unmarshal_ReleaseTask (env_Payload env)")
  case None
  then show ?thesis by (simp add: handleRelease_def)
next
  case (Some pl)
  obtain r e res where rel: "registry_Release (or_now orc) (disp_registry d) (rtp_TaskID pl)
      (sess_ID (disp_session d p)) (disp_fx d) = (r, e, res)" by (metis prod_cases3)
  note R = disp_steps_Release [OF assms rel]
  show ?thesis
    by (auto simp: handleRelease_def Some rel Let_def disp_steps_trans [OF R] split: option.splits)
qed

lemma handleSubmit_steps:
  assumes "disp_ok d"
  shows "disp_steps d (fst (handleSubmit orc p env d)) \<and> snd (handleSubmit orc p env d) \<noteq> Panics"
proof (cases "unmarshal_SubmitResult (env_Payload env)")
  case None
  then show ?thesis by (simp add: handleSubmit_def)
next
  case (Some pl)
  let ?sub = "\<lparr>sub_TaskID = srp_TaskID pl, sub_OwnerID = sess_ID (disp_session d p), sub_Data = srp_Data pl, sub_Meta = srp_Meta pl\<rparr>"
  obtain w e res where sub: "coordinator_Submit (or_world orc) (disp_coord d) (disp_world d) (disp_fx d) ?sub = (w, e, res)"
    by (metis prod_cases3)
  let ?d1 = "d\<lparr>disp_world := w, disp_fx := e\<rparr>"
  note S = disp_steps_Submit [OF assms sub]
  have reject: "disp_steps d0 (fst (disp_rejectResult p rid tid t (disp_metric f d1)))" if "disp_steps d0 d1" for d0 d1 rid tid t f
    using that disp_steps_metric disp_steps_rejectResult by (blast intro: disp_steps_trans)
  have accept: "disp_steps d (fst (disp_Send p m (disp_metric f (d\<lparr>disp_world := w, disp_fx := e\<lparr>fx_log := l\<rparr>\<rparr>))))" for m f l
    using disp_steps_trans [OF disp_steps_trans [OF disp_steps_trans [OF S disp_steps_log [of ?d1 l]] disp_steps_metric] disp_steps_Send]
    by simp
  have refuse: "disp_steps d (fst (disp_rejectResult p rid tid t (disp_metric f d)))" for rid tid t f
    by (rule reject) simp
  show ?thesis
    by (auto simp: handleSubmit_def Some registry_Get_def sub Let_def reject [OF S] refuse accept split: option.splits)
qed

lemma dispatcher_Handle_steps:
  assumes "disp_ok d" and "0 < or_lease orc"
  shows "disp_steps d (fst (dispatcher_Handle orc sid env d))" and "snd (dispatcher_Handle orc sid env d) \<noteq> Panics"
proof -
  have sub: "disp_steps d (fst (handleSubscribe orc p env d)) \<and> snd (handleSubscribe orc p env d) \<noteq> Panics" for p
    by (auto simp: handleSubscribe_def Let_def split: option.splits intro: disp_steps_trans [OF _ disp_steps_fold])
  have unsub: "disp_steps d (fst (handleUnsubscribe orc p env d)) \<and> snd (handleUnsubscribe orc p env d) \<noteq> Panics" for p
    by (auto simp: handleUnsubscribe_def split: option.splits)
  note steps = handleAcquire_steps [OF assms] handleRelease_steps [OF assms(1)] handleSubmit_steps [OF assms(1)] sub unsub
  show "disp_steps d (fst (dispatcher_Handle orc sid env d))" "snd (dispatcher_Handle orc sid env d) \<noteq> Panics"
    by (simp_all add: dispatcher_Handle_def handlePing_def steps split: sum.splits)
qed

definition backend_ok :: "Backend \<Rightarrow> bool" where
  "backend_ok bk \<longleftrightarrow> disp_ok (bk_disp bk)"

definition owners :: "'e Registry \<Rightarrow> string set" where
  "owners r = {ow. \<exists>k t. tasks r k = Some t \<and> ownedBy ow t}"

lemma backend_ok_New: "backend_ok (backend_New now metricsAddr tick fn ord)"
  by (auto simp: backend_ok_def disp_ok_def backend_New_def dispatcher_New_def Let_def registry_OnAvailable_def
      registry_OnOwnershipLost_def world_OnChange_def world_New_def registry_New_def quiet_registry_def quiet_world_def
      quiet_on_change quiet_on_ownership_lost quiet_on_available registry_ok_def world_ok_def)

lemma backend_managers [simp]:
  "backend_manager (on_manager f bk) = f (backend_manager bk)"
  "backend_registry (on_manager f bk) = backend_registry bk"
  "backend_manager (server_onConnect sid bk) = backend_manager bk"
  "backend_registry (server_onConnect sid bk) = backend_registry bk"
  by (simp_all add: on_manager_def backend_manager_def backend_registry_def server_onConnect_def)

lemma backend_ok_manager: "backend_ok bk \<Longrightarrow> manager_ok (backend_manager bk)"
  by (simp add: backend_ok_def disp_ok_def backend_manager_def)

lemma backend_ok_registry: "backend_ok bk \<Longrightarrow> registry_ok (backend_registry bk)"
  by (simp add: backend_ok_def disp_ok_def backend_registry_def)

lemma backend_ok_on_manager: "backend_ok bk \<Longrightarrow> manager_ok (f (backend_manager bk)) \<Longrightarrow> backend_ok (on_manager f bk)"
  by (simp add: backend_ok_def disp_ok_def on_manager_def)

lemma backend_ok_onConnect: "backend_ok bk \<Longrightarrow> backend_ok (server_onConnect sid bk)"
  by (simp add: backend_ok_def disp_ok_def server_onConnect_def)

lemma disp_steps_ok: "disp_steps d d' \<Longrightarrow> disp_ok d \<Longrightarrow> disp_ok d'"
  by (simp add: disp_steps_def)

lemma disp_steps_grows: "disp_steps d d' \<Longrightarrow> grows (fx_manager (disp_fx d)) (fx_manager (disp_fx d'))"
  by (simp add: disp_steps_def fx_grows_def)

lemma backend_Handle_ok:
  assumes "backend_ok bk" and "0 < or_lease orc"
  shows "backend_ok (fst (backend_Handle orc sid env bk))"
    and "grows (backend_manager bk) (backend_manager (fst (backend_Handle orc sid env bk)))"
    and "snd (backend_Handle orc sid env bk) \<noteq> Panics"
  using dispatcher_Handle_steps [of "bk_disp bk" orc sid env] assms
  by (simp_all add: backend_ok_def backend_Handle_def backend_manager_def disp_steps_ok disp_steps_grows split_def Let_def)

lemma acquired_owned:
  assumes "tasks (fst (registry_Acquire now nowL nowU r tid sid opts e)) k = Some t" and "ownedBy ow t" and "ow \<noteq> sid"
  shows "tasks r k = Some t"
proof -
  have "tasks (fst (acquire_enter now r tid)) j = Some u \<Longrightarrow> ownedBy ow u \<Longrightarrow> tasks r j = Some u" for j u
    by (cases rule: acquire_enter_cases [of r tid now]) (auto simp: ownedBy_def split: if_splits)
  with assms registry_Acquire_registry [of now nowL nowU r tid sid opts e] show ?thesis
    by (auto simp: acquire_grant_tasks ownedBy_def split: if_splits)
qed

lemma owners_Handle:
  assumes "manager_ok (fx_manager (disp_fx d))"
  shows "owners (disp_registry (fst (dispatcher_Handle orc sid env d))) \<subseteq>
     owners (disp_registry d) \<union> (if sessions (fx_manager (disp_fx d)) sid = None then {} else {sid})"
proof (cases rule: handle_registry_cases [of orc sid env d])
  case (acquired p pl)
  have sid: "sess_ID (disp_session d p) = sid" using session_of_manager [OF assms acquired(1)] .
  have "ow \<in> owners (disp_registry d)"
    if "ow \<in> owners (disp_registry (fst (dispatcher_Handle orc sid env d)))" "ow \<noteq> sid" for ow
    using that unfolding owners_def acquired(4) sid by (blast intro: acquired_owned)
  then show ?thesis using acquired(1) by auto
next
  case (released p pl)
  then show ?thesis
    by (auto simp: owners_def ownedBy_def registry_Release_def split: option.splits if_splits)
qed auto

lemma backend_tick_ok:
  assumes "backend_ok bk" and "enumerates ks (objects (disp_world (bk_disp bk)))" and "enumerates ms (sessions (backend_manager bk))"
  shows "backend_ok (backend_tick ks ms bk)" and "sessions (backend_manager (backend_tick ks ms bk)) = sessions (backend_manager bk)"
    and "backend_registry (backend_tick ks ms bk) = backend_registry bk"
proof -
  obtain pr m mr ls where tick: "projector_tick ks ms (disp_world (bk_disp bk)) (fx_metrics (disp_fx (bk_disp bk))) (bk_proj bk)
      (backend_manager bk) = (pr, m, mr, ls)" by (metis prod_cases4)
  then have res: "backend_tick ks ms bk = \<lparr>bk_disp = (bk_disp bk)\<lparr>disp_fx := (disp_fx (bk_disp bk))\<lparr>fx_manager := m, fx_metrics := mr,
      fx_log := fx_log (disp_fx (bk_disp bk)) @ map MetricsLine ls\<rparr>\<rparr>, bk_proj = pr\<rparr>"
    by (simp add: backend_tick_def Let_def)
  have ok: "manager_ok (backend_manager bk)" "world_ok (disp_world (bk_disp bk))"
    using assms(1) by (simp_all add: backend_ok_def disp_ok_def backend_manager_def)
  note T = tick_after [OF ok assms(2,3) tick, unfolded tick_result_def, simplified]
  have push_bound: "length (sess_outbox s) \<le> outboxBuffer \<Longrightarrow> length (sess_outbox (push ds s)) \<le> outboxBuffer" for ds s
    by (auto simp: push_def chan_offer_bound split: option.splits)
  have heap: "\<exists>ds. heap m p = heap (backend_manager bk) p \<or> heap m p = push ds (heap (backend_manager bk) p)" for p
    using T by (cases "p \<in> set (manager_snapshot ms (backend_manager bk))") auto
  have "sess_ID (heap m p) = sess_ID (heap (backend_manager bk) p) \<and>
      sess_closed (heap m p) = sess_closed (heap (backend_manager bk) p) \<and>
      length (sess_outbox (heap m p)) \<le> outboxBuffer" for p
  proof -
    have "length (sess_outbox (heap (backend_manager bk) p)) \<le> outboxBuffer" using ok(1) by (simp add: manager_ok_def)
    with heap [of p] push_bound show ?thesis by (elim exE disjE) simp_all
  qed
  then have m: "manager_ok m" using ok(1) T by (auto simp: manager_ok_def)
  show "sessions (backend_manager (backend_tick ks ms bk)) = sessions (backend_manager bk)"
    using T by (simp add: res backend_manager_def)
  show "backend_ok (backend_tick ks ms bk)"
    using assms(1) m by (simp add: backend_ok_def disp_ok_def res)
  show "backend_registry (backend_tick ks ms bk) = backend_registry bk"
    by (simp add: res backend_registry_def)
qed

lemma disp_steps_evict:
  assumes "disp_ok d" and "registry_evictExpired ks now clk (disp_registry d) (disp_fx d) = (r, e, out)"
  shows "disp_steps d (d\<lparr>disp_registry := r, disp_fx := e\<rparr>)" and "out \<noteq> Panics"
proof -
  have q: "quiet_registry (disp_registry d)" "registry_ok (disp_registry d)" using assms(1) by (simp_all add: disp_ok_def)
  note E = quiet_evictExpired [OF q(1), where ks = ks and now = now and clk = clk and e = "disp_fx d"]
    registry_ok_evictExpired [OF q(2), where ks = ks and now = now and clk = clk and e = "disp_fx d"]
    registry_handlers(9,10) [of ks now clk "disp_registry d" "disp_fx d"]
  show "disp_steps d (d\<lparr>disp_registry := r, disp_fx := e\<rparr>)"
    using E q(1) by (intro disp_steps_registry [OF assms(1)]) (simp_all add: assms(2) quiet_registry_def)
  show "out \<noteq> Panics" using E(2) by (simp add: assms(2))
qed

lemma freed_owned:
  "range_update (freeing P clk) m ks k = Some t \<Longrightarrow> ownedBy ow t \<Longrightarrow> m k = Some t"
proof (induction ks arbitrary: m)
  case (Cons j ks)
  show ?case
  proof (cases "m j")
    case (Some v)
    have upd: "(m(j \<mapsto> freeing P clk j v)) k = Some t"
      by (rule Cons.IH) (use Cons.prems Some in \<open>simp_all del: fun_upd_apply\<close>)
    show ?thesis
    proof (cases "k = j")
      case True
      with upd have t: "t = freeing P clk j v" by simp
      with Cons.prems(2) have "\<not> P v" by (auto simp: freeing_def ownedBy_def)
      with t Some True show ?thesis by (simp add: freeing_def)
    qed (use upd in simp)
  qed (use Cons in simp)
qed simp

lemma backend_evict_ok:
  assumes "backend_ok bk"
  shows "backend_ok (fst (backend_evict ks now clk bk))"
    and "sessions (backend_manager (fst (backend_evict ks now clk bk))) = sessions (backend_manager bk)"
    and "owners (backend_registry (fst (backend_evict ks now clk bk))) \<subseteq> owners (backend_registry bk)"
    and "snd (backend_evict ks now clk bk) = Returns ()"
proof -
  let ?d = "bk_disp bk"
  obtain r e out where ev: "registry_evictExpired ks now clk (disp_registry ?d) (disp_fx ?d) = (r, e, out)" by (metis prod_cases3)
  have ok: "disp_ok ?d" using assms by (simp add: backend_ok_def)
  note S = disp_steps_evict [OF ok ev]
  show "backend_ok (fst (backend_evict ks now clk bk))"
    using disp_steps_ok [OF S(1) ok] by (simp add: backend_evict_def ev backend_ok_def Let_def)
  show "sessions (backend_manager (fst (backend_evict ks now clk bk))) = sessions (backend_manager bk)"
    using grows_sessions [OF disp_steps_grows [OF S(1)]] by (simp add: backend_evict_def ev backend_manager_def Let_def)
  show "owners (backend_registry (fst (backend_evict ks now clk bk))) \<subseteq> owners (backend_registry bk)"
    using registry_evictExpired_tasks [of ks now clk "disp_registry ?d" "disp_fx ?d"]
    unfolding owners_def backend_registry_def backend_evict_def ev Let_def
    by simp (blast dest: freed_owned)
  show "snd (backend_evict ks now clk bk) = Returns ()"
    using S(2) by (cases out) (simp_all add: backend_evict_def ev Let_def)
qed

lemma disp_steps_ReleaseAll:
  assumes "disp_ok d" and "registry_ReleaseAll ks clk (disp_registry d) sid (disp_fx d) = (r, e, out)"
  shows "disp_steps d (d\<lparr>disp_registry := r, disp_fx := e\<rparr>)" and "out \<noteq> Panics"
proof -
  have q: "quiet_registry (disp_registry d)" "registry_ok (disp_registry d)" using assms(1) by (simp_all add: disp_ok_def)
  note R = quiet_ReleaseAll [OF q(1), where ks = ks and ownerID = sid and clk = clk and e = "disp_fx d"]
    registry_ok_ReleaseAll [OF q(2), where ks = ks and ownerID = sid and clk = clk and e = "disp_fx d"]
    registry_handlers(7,8) [of ks clk "disp_registry d" sid "disp_fx d"]
  show "disp_steps d (d\<lparr>disp_registry := r, disp_fx := e\<rparr>)"
    using R q(1) by (intro disp_steps_registry [OF assms(1)]) (simp_all add: assms(2) quiet_registry_def)
  show "out \<noteq> Panics" using R(2) by (simp add: assms(2))
qed

lemma onDisconnect_eq:
  assumes "backend_ok bk"
  obtains d where "server_onDisconnect ks clk sid bk = (\<lparr>bk_disp = d, bk_proj = projector_ForgetSession sid (bk_proj bk)\<rparr>, Returns ())"
    and "disp_steps (bk_disp bk) d"
    and "disp_registry d = fst (registry_ReleaseAll ks clk (disp_registry (bk_disp bk)) sid (disp_fx (bk_disp bk)))"
proof -
  let ?d = "bk_disp bk"
  obtain r e out where rel: "registry_ReleaseAll ks clk (disp_registry ?d) sid (disp_fx ?d) = (r, e, out)" by (metis prod_cases3)
  have "disp_ok ?d" using assms by (simp add: backend_ok_def)
  note R = disp_steps_ReleaseAll [OF this rel]
  from R(2) obtain released where out: "out = Returns released" by (cases out) auto
  let ?d1 = "?d\<lparr>disp_registry := r, disp_fx := e\<rparr>"
  let ?d2 = "disp_metric (SessionDisconnected sid (int (length released))) ?d1"
  let ?d3 = "if length released > 0
     then ?d2\<lparr>disp_fx := (disp_fx ?d2)\<lparr>fx_log := fx_log (disp_fx ?d2) @ [ReleasedTasks sid (length released)]\<rparr>\<rparr> else ?d2"
  have "disp_steps ?d ?d2" using R(1) by (rule disp_steps_trans) simp
  then have "disp_steps ?d ?d3" by (auto intro: disp_steps_trans)
  then show ?thesis
    by (intro that [of ?d3]) (simp_all add: server_onDisconnect_def rel out Let_def)
qed

lemma backend_onDisconnect_ok:
  assumes "backend_ok bk" and "enumerates ks (tasks (backend_registry bk))"
  shows "backend_ok (fst (server_onDisconnect ks clk sid bk))"
    and "grows (backend_manager bk) (backend_manager (fst (server_onDisconnect ks clk sid bk)))"
    and "owners (backend_registry (fst (server_onDisconnect ks clk sid bk))) \<subseteq> owners (backend_registry bk) - {sid}"
    and "snd (server_onDisconnect ks clk sid bk) = Returns ()"
    and "seenBy sid (bk_proj (fst (server_onDisconnect ks clk sid bk))) = Map.empty"
proof -
  obtain d where d: "server_onDisconnect ks clk sid bk = (\<lparr>bk_disp = d, bk_proj = projector_ForgetSession sid (bk_proj bk)\<rparr>, Returns ())"
    "disp_steps (bk_disp bk) d"
    "disp_registry d = fst (registry_ReleaseAll ks clk (disp_registry (bk_disp bk)) sid (disp_fx (bk_disp bk)))"
    using onDisconnect_eq [OF assms(1)] .
  show "backend_ok (fst (server_onDisconnect ks clk sid bk))"
    using disp_steps_ok [OF d(2)] assms(1) by (simp add: d(1) backend_ok_def)
  show "grows (backend_manager bk) (backend_manager (fst (server_onDisconnect ks clk sid bk)))"
    using disp_steps_grows [OF d(2)] by (simp add: d(1) backend_manager_def)
  have upd: "tasks (disp_registry d) k = map_option (freeing (ownedBy sid) clk k) (tasks (backend_registry bk) k)" for k
    unfolding d(3) registry_ReleaseAll_tasks using assms(2) range_update_enum by (auto simp: backend_registry_def)
  show "owners (backend_registry (fst (server_onDisconnect ks clk sid bk))) \<subseteq> owners (backend_registry bk) - {sid}"
  proof
    fix ow
    assume "ow \<in> owners (backend_registry (fst (server_onDisconnect ks clk sid bk)))"
    then obtain k t where "tasks (disp_registry d) k = Some t" "ownedBy ow t"
      by (auto simp: owners_def d(1) backend_registry_def)
    moreover from this obtain u where "tasks (backend_registry bk) k = Some u" "t = freeing (ownedBy sid) clk k u"
      by (auto simp: upd)
    ultimately show "ow \<in> owners (backend_registry bk) - {sid}"
      by (auto simp: owners_def freeing_def ownedBy_def split: if_splits)
  qed
  show "snd (server_onDisconnect ks clk sid bk) = Returns ()" by (simp add: d(1))
  show "seenBy sid (bk_proj (fst (server_onDisconnect ks clk sid bk))) = Map.empty"
    by (simp add: d(1) seenBy_def projector_ForgetSession_def)
qed

lemma backend_Register_ok:
  assumes "backend_ok bk"
  shows "backend_ok (backend_Register nowC nowU tid tags hint bk)"
    and "grows (backend_manager bk) (backend_manager (backend_Register nowC nowU tid tags hint bk))"
    and "owners (backend_registry (backend_Register nowC nowU tid tags hint bk)) \<subseteq> owners (backend_registry bk)"
proof -
  let ?d = "bk_disp bk"
  obtain r e err where reg: "registry_Register nowC nowU (disp_registry ?d) tid tags hint (disp_fx ?d) = (r, e, err)" by (metis prod_cases3)
  have res: "backend_Register nowC nowU tid tags hint bk = bk\<lparr>bk_disp := ?d\<lparr>disp_registry := r, disp_fx := e\<rparr>\<rparr>"
    by (simp add: backend_Register_def reg)
  have ok: "disp_ok ?d" using assms by (simp add: backend_ok_def)
  then have q: "quiet_registry (disp_registry ?d)" "registry_ok (disp_registry ?d)" by (simp_all add: disp_ok_def)
  have S: "disp_steps ?d (?d\<lparr>disp_registry := r, disp_fx := e\<rparr>)"
    using quiet_Register [OF q(1), where nowC = nowC and nowU = nowU and tid = tid and tags = tags and hint = hint and e = "disp_fx ?d"]
      registry_ok_Register [OF q(2), where nowC = nowC and nowU = nowU and tid = tid and tags = tags and hint = hint and e = "disp_fx ?d"]
      registry_handlers(5,6) [of nowC nowU "disp_registry ?d" tid tags hint "disp_fx ?d"] q(1)
    by (intro disp_steps_registry [OF ok]) (simp_all add: reg quiet_registry_def)
  show "backend_ok (backend_Register nowC nowU tid tags hint bk)"
    using disp_steps_ok [OF S ok] by (simp add: res backend_ok_def)
  show "grows (backend_manager bk) (backend_manager (backend_Register nowC nowU tid tags hint bk))"
    using disp_steps_grows [OF S] by (simp add: res backend_manager_def)
  have "r = fst (registry_Register nowC nowU (disp_registry ?d) tid tags hint (disp_fx ?d))" by (simp add: reg)
  then show "owners (backend_registry (backend_Register nowC nowU tid tags hint bk)) \<subseteq> owners (backend_registry bk)"
    by (auto simp: res backend_registry_def owners_def ownedBy_def registry_Register_def Let_def split: option.splits if_splits)
qed

end
