(* ===== verification/Framing.thy ===== *)
theory Framing imports Protocol begin

text \<open>
  What the transports of the server and of the peers have in common.  TCP messages are lines, the input of
  a connection is the list of the bytes that arrive before it ends or fails, and the accept loop starts one
  handler for each connection.  The lemmas show that framing by line feeds loses nothing, because no
  encoded message contains one.
\<close>

section \<open>Framing\<close>

definition NL :: char where
  "NL = CHR 0x0A"

primrec readBytes :: "bytes \<Rightarrow> (bytes \<times> bytes) option" where
  \<comment> \<open>\<open>reader.ReadBytes('\n')\<close>: the line with its delimiter and what follows; \<open>None\<close>: the input ends first\<close>
  "readBytes [] = None"
| "readBytes (c # s) = (if c = NL then Some ([c], s) else map_option (\<lambda>(l, r). (c # l, r)) (readBytes s))"

lemma readBytes_length: "readBytes s = Some (l, r) \<Longrightarrow> length r < length s"
  by (induction s arbitrary: l) (auto split: if_splits)

function readLines :: "bytes \<Rightarrow> bytes list" where
  "readLines s = (case readBytes s of None \<Rightarrow> [] | Some (l, r) \<Rightarrow> l # readLines r)"
  by auto
termination
  by (relation "measure length") (auto dest: readBytes_length)

declare readLines.simps [simp del]

section \<open>Events of the loops\<close>

text \<open>What the \<open>select\<close> of the write loop receives: the end of the connection's context, or a message,
  with the success of the two writes.\<close>

datatype write_event = WCancel | WMsg bool bool

text \<open>The accept loop: for each call of \<open>Accept\<close>, whether \<open>stopChan\<close> is closed and the connection, if there
  is one.  The result lists the connections that are handled and tells whether the loop still runs.\<close>

fun acceptLoop :: "(bool \<times> 'c option) list \<Rightarrow> 'c list \<times> bool" where
  "acceptLoop [] = ([], True)"
| "acceptLoop ((stopped, Some c) # evs) = (let (cs, r) = acceptLoop evs in (c # cs, r))"
| "acceptLoop ((stopped, None) # evs) = (if stopped then ([], False) else acceptLoop evs)"

section \<open>Loops of the UDP transports\<close>

text \<open>What the read loop meets: \<open>stopChan\<close> closed, a read that times out or fails (with \<open>stopChan\<close> closed by
  then or not), or a datagram, which is handled by a function on the state.\<close>

datatype 's udp_read = RdStopped | RdTimeout | RdFailed bool | RdDatagram "'s \<Rightarrow> 's"

fun udp_readLoop :: "'s udp_read list \<Rightarrow> 's \<Rightarrow> 's \<times> bool" where
  "udp_readLoop [] s = (s, True)"
| "udp_readLoop (RdStopped # evs) s = (s, False)"
| "udp_readLoop (RdTimeout # evs) s = udp_readLoop evs s"
| "udp_readLoop (RdFailed stopped # evs) s = (if stopped then (s, False) else udp_readLoop evs s)"
| "udp_readLoop (RdDatagram f # evs) s = udp_readLoop evs (f s)"

text \<open>The timers: of the write loop, of the eviction and of the heartbeat.\<close>

datatype 's udp_timer = TmStop | TmFlush "'s \<Rightarrow> 's" | TmEvict "'s \<Rightarrow> 's" | TmHeartbeat "'s \<Rightarrow> 's"

fun udp_writeLoop :: "'s udp_timer list \<Rightarrow> 's \<Rightarrow> 's \<times> bool" where
  "udp_writeLoop [] s = (s, True)"
| "udp_writeLoop (TmFlush f # evs) s = udp_writeLoop evs (f s)"
| "udp_writeLoop (TmStop # evs) s = (s, False)"
| "udp_writeLoop (_ # evs) s = udp_writeLoop evs s"

fun udp_timeoutLoop :: "'s udp_timer list \<Rightarrow> 's \<Rightarrow> 's \<times> bool" where
  "udp_timeoutLoop [] s = (s, True)"
| "udp_timeoutLoop (TmEvict f # evs) s = udp_timeoutLoop evs (f s)"
| "udp_timeoutLoop (TmHeartbeat f # evs) s = udp_timeoutLoop evs (f s)"
| "udp_timeoutLoop (TmStop # evs) s = (s, False)"
| "udp_timeoutLoop (TmFlush f # evs) s = udp_timeoutLoop evs s"

section \<open>Lemmas on framing\<close>

lemma readBytes_line: "NL \<notin> set b \<Longrightarrow> readBytes (b @ NL # r) = Some (b @ [NL], r)"
  by (induction b) auto

lemma readBytes_none: "NL \<notin> set b \<Longrightarrow> readBytes b = None"
  by (induction b) auto

lemma readLines_frames:
  "\<forall>b \<in> set bs. NL \<notin> set b \<Longrightarrow> NL \<notin> set r \<Longrightarrow> readLines (concat (map (\<lambda>b. b @ [NL]) bs) @ r) = map (\<lambda>b. b @ [NL]) bs"
proof (induction bs)
  case Nil
  then show ?case by (simp add: readLines.simps readBytes_none)
next
  case (Cons b bs)
  then show ?case by (subst readLines.simps) (simp add: readBytes_line)
qed

lemma encoded_line:
  assumes "protocol_Encode t rid pl = Some b"
  shows "NL \<notin> set b"
proof
  assume "NL \<in> set b"
  moreover have "printable b"
    using assms by (auto simp: protocol_Encode_def bind_eq_Some_conv dest: marshal_Envelope_printable split: option.splits)
  ultimately have "32 \<le> code NL" by (simp add: printable_def)
  then show False by (simp add: NL_def code_def)
qed

section \<open>Messages on a connection\<close>

type_synonym request = "string \<times> string \<times> payload option"

definition encodable :: "request \<Rightarrow> bool" where
  "encodable q \<longleftrightarrow> (case q of (t, rid, pl) \<Rightarrow> \<forall>p \<in> set_option pl. \<forall>m \<in> set (raws p). wellNested m)"

definition frame :: "request \<Rightarrow> bytes" where
  \<comment> \<open>what a client writes: the encoded message and a line feed\<close>
  "frame q = (case q of (t, rid, pl) \<Rightarrow> the (protocol_Encode t rid pl) @ [NL])"

definition received :: "request \<Rightarrow> Envelope" where
  "received q = (case q of (t, rid, pl) \<Rightarrow>
     \<lparr>env_Type = toValidUTF8 t, env_RequestID = toValidUTF8 rid, env_Payload = Option.bind pl json_Marshal\<rparr>)"

lemma frame_facts:
  assumes "encodable q"
  obtains b where "frame q = b @ [NL]" "NL \<notin> set b" "unmarshal_Envelope (frame q) = Some (received q)"
proof -
  obtain t rid pl where q: "q = (t, rid, pl)" by (cases q)
  with assms have "\<forall>p \<in> set_option pl. \<forall>m \<in> set (raws p). wellNested m" by (simp add: encodable_def)
  then obtain b where b: "protocol_Encode t rid pl = Some b" "unmarshal_Envelope (b @ ''\<newline>'') = Some (received q)"
    using encode_then_unmarshal [of pl t rid] by (auto simp: q received_def)
  have "''\<newline>'' = [NL]" by (simp add: NL_def)
  with b that [of b] encoded_line [OF b(1)] show ?thesis by (simp add: q frame_def)
qed

lemma frame_elems: "frame q = elems (protocol_Encode (fst q) (fst (snd q)) (snd (snd q))) @ [NL]" if "encodable q"
proof -
  obtain t rid pl where q: "q = (t, rid, pl)" by (cases q)
  have "\<forall>p \<in> set_option pl. \<forall>m \<in> set (raws p). wellNested m" using that by (simp add: encodable_def q)
  from encode_then_unmarshal [OF this, of t rid] obtain b where "protocol_Encode t rid pl = Some b" by blast
  then show ?thesis by (simp add: q frame_def)
qed

lemma frames_decode:
  assumes "\<forall>q \<in> set qs. encodable q" and "NL \<notin> set rest"
  shows "map unmarshal_Envelope (readLines (concat (map frame qs) @ rest)) = map (\<lambda>q. Some (received q)) qs"
  using assms(1)
proof (induction qs)
  case Nil
  then show ?case by (simp add: readLines.simps readBytes_none assms(2))
next
  case (Cons q qs)
  then have "encodable q" by simp
  then obtain b where b: "frame q = b @ [NL]" "NL \<notin> set b" "unmarshal_Envelope (frame q) = Some (received q)"
    by (rule frame_facts)
  with Cons show ?case by (subst readLines.simps) (simp add: readBytes_line)
qed

lemma datagram_decodes:
  assumes "encodable q"
  shows "unmarshal_Envelope (elems (protocol_Encode (fst q) (fst (snd q)) (snd (snd q)))) = Some (received q)"
    and "protocol_Encode (fst q) (fst (snd q)) (snd (snd q)) \<noteq> None"
proof -
  obtain t rid pl where q: "q = (t, rid, pl)" by (cases q)
  have "\<forall>p \<in> set_option pl. \<forall>m \<in> set (raws p). wellNested m" using assms by (simp add: encodable_def q)
  then obtain b where "protocol_Encode t rid pl = Some b" "unmarshal_Envelope b = Some (received q)"
    by (rule encode_unmarshal_spaced [where t = t and rid = rid]) (metis append_Nil2 empty_iff empty_set received_def old.prod.case q)
  then show "unmarshal_Envelope (elems (protocol_Encode (fst q) (fst (snd q)) (snd (snd q)))) = Some (received q)"
    "protocol_Encode (fst q) (fst (snd q)) (snd (snd q)) \<noteq> None" by (simp_all add: q)
qed

end
