(* ===== verification/Ids.thy ===== *)
theory Ids imports Strconv begin

text \<open>
  IDs made from a prefix, the time and an atomic counter, as the server makes them for sessions and the UDP
  manager for its peers.  \<open>minted pre n\<close> are the IDs that the first \<open>n\<close> increments of a counter can give,
  at any times.  The lemmas show that an ID tells its counter value, so that no ID is given twice before
  the counter wraps around.
\<close>

definition stampedID :: "string \<Rightarrow> gotime \<Rightarrow> uint64 \<Rightarrow> string" where
  "stampedID pre nanos c = pre @ showInt nanos @ ''-'' @ showNat (unat c)"

definition minted :: "string \<Rightarrow> nat \<Rightarrow> string \<Rightarrow> bool" where
  "minted pre n x \<longleftrightarrow> (\<exists>t k. k < n \<and> x = stampedID pre t (word_of_nat k + 1))"

lemma digits_no_dash: "CHR ''-'' \<notin> set (showNat n)"
  using showNat_digits [of n] by (auto simp: list_all_iff isDigit_def)

lemma stampedID_inject:
  assumes "stampedID pre t c = stampedID pre t' c'"
  shows "c = c'"
proof -
  have "a @ CHR ''-'' # x = b @ CHR ''-'' # y \<Longrightarrow> CHR ''-'' \<notin> set x \<Longrightarrow> CHR ''-'' \<notin> set y \<Longrightarrow> x = y" for a b x y :: string
    by (auto simp: append_eq_append_conv2 append_eq_Cons_conv Cons_eq_append_conv)
  from this [of "showInt t" "showNat (unat c)" "showInt t'" "showNat (unat c')"]
  have "showNat (unat c) = showNat (unat c')"
    using assms by (simp add: stampedID_def digits_no_dash)
  then have "unat c = unat c'" by (simp only: showNat_inject)
  then show ?thesis by (simp only: word_unat_eq_iff)
qed

lemma minted_0 [simp]: "\<not> minted pre 0 x"
  by (simp add: minted_def)

lemma minted_Suc: "minted pre n x \<Longrightarrow> minted pre (Suc n) x"
  by (auto simp: minted_def intro: less_SucI)

lemma minted_new: "minted pre (Suc n) (stampedID pre t (word_of_nat n + 1))"
  by (auto simp: minted_def)

lemma minted_fresh:
  assumes "n < 2 ^ 64"
  shows "\<not> minted pre n (stampedID pre t (word_of_nat n + 1))"
proof
  assume "minted pre n (stampedID pre t (word_of_nat n + 1))"
  then obtain t' k where "k < n" "stampedID pre t (word_of_nat n + 1) = stampedID pre t' (word_of_nat k + 1)"
    by (auto simp: minted_def)
  from stampedID_inject [OF this(2)] have "(word_of_nat n :: uint64) = word_of_nat k" by simp
  with \<open>k < n\<close> assms show False by (simp add: word_of_nat_eq_iff take_bit_nat_eq_self)
qed

end
