(* ===== verification/Transport.thy ===== *)
theory Transport imports Backend Framing Ids begin

text \<open>
  The TCP transport, \<open>internal/transport/transport.go\<close>: session IDs, the framing of messages by line
  feeds, the loop that reads requests from a connection and the loop that writes its outbox.

  A connection's input is the list of the bytes that arrive before the connection ends or fails, its
  output the bytes of the successful writes.  The functions that the server is constructed with are the
  record \<open>Hooks\<close>; they act on the state of the whole server.  \<open>conn_loop\<close> is the read loop of
  \<open>handleConn\<close> without interference from other goroutines.

  The lemmas show that session IDs do not repeat, that framing is lossless for encoded messages, and that a
  connection hands exactly the requests that its client has encoded to the handler, in order.
\<close>

section \<open>Session IDs\<close>

definition newSessionID :: "gotime \<Rightarrow> uint64 \<Rightarrow> string \<times> uint64" where
  \<comment> \<open>the package variable \<open>sessionCounter\<close> is passed in and out; the time is \<open>UnixNano\<close>\<close>
  "newSessionID nanos counter =
     (let c = counter + 1 in (''sess-'' @ showInt nanos @ ''-'' @ showNat (unat c), c))"

section \<open>Reading requests\<close>

record Hooks =
  hk_handler :: "Oracle \<Rightarrow> string \<Rightarrow> Envelope \<Rightarrow> Backend \<Rightarrow> Backend \<times> session_error option outcome"
  hk_onConnect :: "(string \<Rightarrow> Backend \<Rightarrow> Backend) option"
  hk_onDisconnect :: "(string list \<Rightarrow> (string \<Rightarrow> gotime) \<Rightarrow> string \<Rightarrow> Backend \<Rightarrow> Backend \<times> unit outcome) option"

definition ptr_post :: "sptr \<Rightarrow> msg \<Rightarrow> Backend \<Rightarrow> Backend" where
  \<comment> \<open>\<open>_ = sess.Send(msg)\<close>\<close>
  "ptr_post p msg bk = on_manager (\<lambda>m. fst (ptr_Send p msg m)) bk"

definition errorMsg :: "string \<Rightarrow> string \<Rightarrow> string \<Rightarrow> msg" where
  "errorMsg rid kode text = protocol_Encode MsgError rid (Some (PError \<lparr>ep_Code = kode, ep_Message = text\<rparr>))"

definition serve_request :: "Hooks \<Rightarrow> Oracle \<Rightarrow> string \<Rightarrow> sptr \<Rightarrow> Envelope \<Rightarrow> Backend \<Rightarrow> Backend \<times> bool" where
  \<comment> \<open>the result tells whether the handler panicked, which ends the process\<close>
  "serve_request hk orc sid p env bk =
     (case hk_handler hk orc sid env bk of
        (bk', Panics) \<Rightarrow> (bk', True)
      | (bk', Returns None) \<Rightarrow> (bk', False)
      | (bk', Returns (Some err)) \<Rightarrow>
          (ptr_post p (errorMsg '''' ''handler_error'' (session_error_text err)) bk', False))"

definition conn_line :: "Hooks \<Rightarrow> Oracle \<Rightarrow> string \<Rightarrow> sptr \<Rightarrow> bytes \<Rightarrow> Backend \<Rightarrow> Backend \<times> bool" where
  "conn_line hk orc sid p line bk =
     (case unmarshal_Envelope line of
        None \<Rightarrow> (ptr_post p (errorMsg '''' ''bad_json'' (or_errText orc line)) bk, False)
      | Some env \<Rightarrow> serve_request hk orc sid p env bk)"

function conn_loop ::
    "Hooks \<Rightarrow> (nat \<Rightarrow> Oracle) \<Rightarrow> (nat \<Rightarrow> bool) \<Rightarrow> string \<Rightarrow> sptr \<Rightarrow> nat \<Rightarrow> bytes \<Rightarrow> Backend \<Rightarrow> Backend \<times> bool" where
  \<comment> \<open>\<open>stop i\<close>: \<open>stopChan\<close> is closed when the loop looks at it for the \<open>i\<close>th time\<close>
  "conn_loop hk orcs stop sid p i input bk =
     (if stop i then (bk, False)
      else (case readBytes input of
              None \<Rightarrow> (bk, False)
            | Some (line, rest) \<Rightarrow>
                let (bk', panicked) = conn_line hk (orcs i) sid p line bk
                in if panicked then (bk', True) else conn_loop hk orcs stop sid p (Suc i) rest bk'))"
  by auto
termination
  by (relation "measure (\<lambda>(_, _, _, _, _, _, input, _). length input)") (auto dest: readBytes_length)

declare conn_loop.simps [simp del]

definition conn_open :: "Hooks \<Rightarrow> gotime \<Rightarrow> gotime \<Rightarrow> uint64 \<Rightarrow> Backend \<Rightarrow> string \<times> sptr \<times> uint64 \<times> Backend" where
  "conn_open hk nanos now counter bk =
     (let (sid, counter') = newSessionID nanos counter;
          p = next_ptr (backend_manager bk);
          bk1 = on_manager (\<lambda>m. fst (manager_Add now m sid)) bk;
          bk2 = (case hk_onConnect hk of None \<Rightarrow> bk1 | Some f \<Rightarrow> f sid bk1)
      in (sid, p, counter', bk2))"

definition conn_notify :: "Hooks \<Rightarrow> string list \<Rightarrow> (string \<Rightarrow> gotime) \<Rightarrow> string \<Rightarrow> Backend \<Rightarrow> Backend \<times> unit outcome" where
  \<comment> \<open>the first half of the deferred function\<close>
  "conn_notify hk ks clk sid bk = (case hk_onDisconnect hk of None \<Rightarrow> (bk, Returns ()) | Some f \<Rightarrow> f ks clk sid bk)"

definition conn_remove :: "string \<Rightarrow> Backend \<Rightarrow> Backend" where
  \<comment> \<open>its second half\<close>
  "conn_remove sid bk = on_manager (\<lambda>m. manager_Remove m sid) bk"

definition handleConn ::
    "Hooks \<Rightarrow> gotime \<Rightarrow> gotime \<Rightarrow> (nat \<Rightarrow> Oracle) \<Rightarrow> (nat \<Rightarrow> bool) \<Rightarrow> string list \<Rightarrow> (string \<Rightarrow> gotime) \<Rightarrow> bytes \<Rightarrow>
     uint64 \<times> Backend \<Rightarrow> uint64 \<times> Backend \<times> unit outcome" where
  "handleConn hk nanos now orcs stop ks clk input = (\<lambda>(counter, bk).
     (let (sid, p, counter', bk1) = conn_open hk nanos now counter bk;
          (bk2, panicked) = conn_loop hk orcs stop sid p 0 input bk1;
          (bk3, out) = conn_notify hk ks clk sid bk2
      in (case out of
            Panics \<Rightarrow> (counter', bk3, Panics)
          | Returns _ \<Rightarrow> (counter', conn_remove sid bk3, if panicked then Panics else Returns ()))))"

section \<open>Writing the outbox\<close>

fun tcp_writeLoop :: "write_event list \<Rightarrow> sptr \<Rightarrow> Manager \<times> bytes \<Rightarrow> (Manager \<times> bytes) \<times> bool" where
  \<comment> \<open>the result tells whether the loop still runs; a receive from an empty outbox waits\<close>
  "tcp_writeLoop [] p s = (s, True)"
| "tcp_writeLoop (WCancel # evs) p s = (s, False)"
| "tcp_writeLoop (WMsg ok1 ok2 # evs) p (m, out) =
     (case session_Recv (heap m p) of
        None \<Rightarrow> tcp_writeLoop evs p (m, out)
      | Some (msg, s) \<Rightarrow>
          let m' = at_ptr p (\<lambda>_. s) m in
          if \<not> ok1 then ((m', out), False)
          else if \<not> ok2 then ((m', out @ elems msg), False)
          else tcp_writeLoop evs p (m', out @ elems msg @ [NL]))"

section \<open>Properties\<close>

text \<open>The IDs given by successive calls at the times \<open>ts\<close>.\<close>

primrec sessionIDs :: "gotime list \<Rightarrow> uint64 \<Rightarrow> string list" where
  "sessionIDs [] c = []"
| "sessionIDs (t # ts) c = (let (sid, c') = newSessionID t c in sid # sessionIDs ts c')"

lemma newSessionID_stamp: "fst (newSessionID t c) = stampedID ''sess-'' t (c + 1)"
  by (simp add: newSessionID_def stampedID_def Let_def)

lemma newSessionID_inject: "fst (newSessionID t c) = fst (newSessionID t' c') \<Longrightarrow> c + 1 = c' + 1"
  unfolding newSessionID_stamp by (rule stampedID_inject)

lemma sessionIDs_nth:
  "i < length ts \<Longrightarrow> \<exists>t. sessionIDs ts c ! i = fst (newSessionID t (c + word_of_nat i))"
proof (induction ts arbitrary: c i)
  case (Cons t ts)
  show ?case
  proof (cases i)
    case 0
    then show ?thesis by (auto simp: newSessionID_def Let_def)
  next
    case (Suc j)
    with Cons.IH [of j "c + 1"] Cons.prems show ?thesis
      by (auto simp: newSessionID_def Let_def algebra_simps)
  qed
qed simp

lemma length_sessionIDs [simp]: "length (sessionIDs ts c) = length ts"
  by (induction ts arbitrary: c) (simp_all add: newSessionID_def Let_def)

text \<open>Session IDs never repeat within 2^64 calls, even when the clock stands still or runs backwards.\<close>

theorem session_ids_distinct:
  assumes "length ts \<le> 2 ^ 64"
  shows "distinct (sessionIDs ts c)"
proof (unfold distinct_conv_nth length_sessionIDs, intro allI impI notI)
  fix i j
  assume ij: "i < length ts" "j < length ts" "i \<noteq> j" and eq: "sessionIDs ts c ! i = sessionIDs ts c ! j"
  obtain t t' where "sessionIDs ts c ! i = fst (newSessionID t (c + word_of_nat i))"
    "sessionIDs ts c ! j = fst (newSessionID t' (c + word_of_nat j))"
    using sessionIDs_nth ij(1,2) by metis
  with eq have "(word_of_nat i :: uint64) = word_of_nat j" using newSessionID_inject by force
  moreover have "i < 2 ^ 64" "j < 2 ^ 64" using ij assms by linarith+
  ultimately show False using ij(3) by (simp add: word_of_nat_eq_iff take_bit_nat_eq_self)
qed

theorem session_ids_distinct_witness:
  "distinct (sessionIDs [7, 7, 3] 18446744073709551615)"
  by (rule session_ids_distinct) simp

text \<open>The loop without framing: each request in turn is handed to the handler.\<close>

primrec serve_all ::
    "Hooks \<Rightarrow> (nat \<Rightarrow> Oracle) \<Rightarrow> string \<Rightarrow> sptr \<Rightarrow> nat \<Rightarrow> Envelope list \<Rightarrow> Backend \<Rightarrow> Backend \<times> bool" where
  "serve_all hk orcs sid p i [] bk = (bk, False)"
| "serve_all hk orcs sid p i (env # envs) bk =
     (let (bk', panicked) = serve_request hk (orcs i) sid p env bk
      in if panicked then (bk', True) else serve_all hk orcs sid p (Suc i) envs bk')"

text \<open>C6. A connection serves its client: when the client writes the frames of any requests that can be
  encoded, and possibly the beginning of another one before it disconnects, the read loop hands exactly these
  requests to the handler, one by one and in order, and replies to the errors of the handler; the incomplete
  rest is ignored.\<close>

theorem connection_serves_requests:
  assumes "\<forall>q \<in> set qs. encodable q" and "NL \<notin> set rest"
  shows "conn_loop hk orcs (\<lambda>_. False) sid p i (concat (map frame qs) @ rest) bk =
     serve_all hk orcs sid p i (map received qs) bk"
  using assms(1)
proof (induction qs arbitrary: i bk)
  case Nil
  then show ?case using assms(2) by (simp add: conn_loop.simps readBytes_none)
next
  case (Cons q qs)
  then have "encodable q" by simp
  then obtain b where b: "frame q = b @ [NL]" "NL \<notin> set b" "unmarshal_Envelope (frame q) = Some (received q)"
    by (rule frame_facts)
  have "conn_line hk (orcs i) sid p (b @ [NL]) bk = serve_request hk (orcs i) sid p (received q) bk"
    using b(1,3) by (simp add: conn_line_def)
  with Cons show ?case
    by (subst conn_loop.simps) (simp add: b(1) readBytes_line [OF b(2)] split: prod.splits)
qed

definition serverHooks :: Hooks where
  "serverHooks = \<lparr>hk_handler = backend_Handle, hk_onConnect = Some server_onConnect, hk_onDisconnect = Some server_onDisconnect\<rparr>"

theorem connection_serves_requests_witness:
  "conn_loop serverHooks (\<lambda>_. exampleOracle 9) (\<lambda>_. False) ''s'' 0 0
     (concat (map frame [(MsgPing, ''r1'', None), (MsgSubmitResult, ''r2'', Some (PSubmitResult exampleSubmit))]) @ ''half'')
     \<lparr>bk_disp = exampleDispatcher, bk_proj = projector_New 0\<rparr> =
   serve_all serverHooks (\<lambda>_. exampleOracle 9) ''s'' 0 0
     [received (MsgPing, ''r1'', None), received (MsgSubmitResult, ''r2'', Some (PSubmitResult exampleSubmit))]
     \<lparr>bk_disp = exampleDispatcher, bk_proj = projector_New 0\<rparr>"
proof -
  have "\<forall>q \<in> set [(MsgPing, ''r1'', None), (MsgSubmitResult, ''r2'', Some (PSubmitResult exampleSubmit))]. encodable q"
    using exampleSubmit_nested by (simp add: encodable_def)
  from connection_serves_requests [OF this, of "''half''"] show ?thesis by (simp add: NL_def)
qed

lemma writeLoop_drains:
  assumes "sess_outbox (heap m p) = ms" and "length ms \<le> n"
  shows "tcp_writeLoop (replicate n (WMsg True True)) p (m, out) =
    ((at_ptr p (\<lambda>s. s\<lparr>sess_outbox := []\<rparr>) m, out @ concat (map (\<lambda>b. elems b @ [NL]) ms)), True)"
  using assms
proof (induction n arbitrary: m ms out)
  case 0
  then have "at_ptr p (\<lambda>s. s\<lparr>sess_outbox := []\<rparr>) m = m" by (simp add: at_ptr_def fun_upd_idem)
  with 0 show ?case by simp
next
  case (Suc n)
  show ?case
  proof (cases ms)
    case Nil
    then have "session_Recv (heap m p) = None" using Suc.prems(1) by (simp add: session_Recv_def chan_poll_def)
    with Nil Suc.IH [of m "[]" out] Suc.prems(1) show ?thesis by simp
  next
    case (Cons x xs)
    then have "session_Recv (heap m p) = Some (x, (heap m p)\<lparr>sess_outbox := xs\<rparr>)"
      using Suc.prems(1) by (simp add: session_Recv_def chan_poll_def)
    moreover have "at_ptr p (\<lambda>s. s\<lparr>sess_outbox := []\<rparr>) (at_ptr p (\<lambda>_. (heap m p)\<lparr>sess_outbox := xs\<rparr>) m) =
        at_ptr p (\<lambda>s. s\<lparr>sess_outbox := []\<rparr>) m"
      by (simp add: at_ptr_def)
    ultimately show ?thesis
      using Suc.IH [of "at_ptr p (\<lambda>_. (heap m p)\<lparr>sess_outbox := xs\<rparr>) m" xs "out @ elems x @ [NL]"] Suc.prems Cons by simp
  qed
qed

text \<open>C18. Delivery: the write loop of a connection empties the outbox of its session and, while the writes
  succeed, what the client reads line by line from the connection is exactly the sequence of the messages
  that waited there, each decoding to the envelope that was encoded.\<close>

theorem outbox_delivery:
  assumes "\<forall>q \<in> set qs. encodable q" and "length qs \<le> n"
    and "sess_outbox (heap m p) = map (\<lambda>(t, rid, pl). protocol_Encode t rid pl) qs"
  shows "\<exists>m' out. tcp_writeLoop (replicate n (WMsg True True)) p (m, []) = ((m', out), True) \<and>
     sess_outbox (heap m' p) = [] \<and> map unmarshal_Envelope (readLines out) = map (\<lambda>q. Some (received q)) qs"
proof -
  have "concat (map (\<lambda>b. elems b @ [NL]) (sess_outbox (heap m p))) = concat (map frame qs)"
    unfolding assms(3) map_map by (intro arg_cong [where f = concat] map_cong) (use assms(1) in \<open>simp_all add: frame_elems split_def\<close>)
  with writeLoop_drains [OF refl, of m p n "[]"] assms(2,3) frames_decode [OF assms(1), of "[]"] show ?thesis by simp
qed

theorem outbox_delivery_witness:
  "\<exists>m' out. tcp_writeLoop (replicate 3 (WMsg True True)) 0
      (exampleManager [protocol_Encode MsgPong ''r1'' None, protocol_Encode MsgPong ''r2'' None], []) = ((m', out), True) \<and>
     map unmarshal_Envelope (readLines out) = [Some (received (MsgPong, ''r1'', None)), Some (received (MsgPong, ''r2'', None))]"
proof -
  have enc: "\<forall>q \<in> set [(MsgPong, ''r1'', None), (MsgPong, ''r2'', None)]. encodable q" by (simp add: encodable_def)
  have "sess_outbox (heap (exampleManager [protocol_Encode MsgPong ''r1'' None, protocol_Encode MsgPong ''r2'' None]) 0) =
      map (\<lambda>(t, rid, pl). protocol_Encode t rid pl) [(MsgPong, ''r1'', None), (MsgPong, ''r2'', None)]"
    by (simp add: exampleManager_def)
  note outbox_delivery [OF enc _ this, of 3, simplified list.size, simplified]
  then show ?thesis by (elim exE conjE) (intro exI conjI)
qed

end
