(* ===== verification/UdpTransport.thy ===== *)
theory UdpTransport imports Transport begin

text \<open>
  The UDP transport, \<open>internal/transport/udp.go\<close>.  There are no connections: a client is known by the
  address of its datagrams, each datagram is one message, and a client that has been silent for 30 seconds is
  evicted.  The maps \<open>clients\<close> and \<open>addrToSess\<close> share their entries by pointer, so the entries live in a
  heap.  What the server writes is the list of the datagrams it hands to the socket.

  Every function here is one step; \<open>readLoop\<close>, \<open>writeLoop\<close> and \<open>timeoutLoop\<close> are loops over the events
  that their reads and timers deliver.  The lemmas show that the two maps stay inverse to each other and
  that eviction removes exactly the silent clients, their sessions and their tasks.
\<close>

section \<open>State\<close>

definition udpClientTimeout :: duration where "udpClientTimeout = 30 * Second"
definition udpMaxDatagram :: nat where "udpMaxDatagram = 65507"

record udpClientEntry =
  ue_sessionID :: string
  ue_addr :: string
  ue_lastSeen :: gotime

type_synonym eptr = nat

record UDPServer =
  us_entries :: "eptr \<Rightarrow> udpClientEntry"
  us_next :: eptr
  us_clients :: "string \<rightharpoonup> eptr"
  us_addrToSess :: "string \<rightharpoonup> eptr"

definition newUDPClientEntry :: "gotime \<Rightarrow> string \<Rightarrow> string \<Rightarrow> udpClientEntry" where
  "newUDPClientEntry now sid addr = \<lparr>ue_sessionID = sid, ue_addr = addr, ue_lastSeen = now\<rparr>"

definition ue_touch :: "gotime \<Rightarrow> udpClientEntry \<Rightarrow> udpClientEntry" where
  "ue_touch now e = e\<lparr>ue_lastSeen := now\<rparr>"

definition ue_isExpired :: "gotime \<Rightarrow> udpClientEntry \<Rightarrow> bool" where
  "ue_isExpired now e \<longleftrightarrow> now - ue_lastSeen e > udpClientTimeout"

definition newUDPServer :: UDPServer where
  "newUDPServer = \<lparr>us_entries = (\<lambda>_. newUDPClientEntry 0 '''' ''''), us_next = 0,
     us_clients = Map.empty, us_addrToSess = Map.empty\<rparr>"

section \<open>Datagrams\<close>

definition udp_post :: "string \<Rightarrow> (unit \<Rightarrow> msg) \<Rightarrow> Backend \<Rightarrow> Backend" where
  \<comment> \<open>send to the session if the manager still has it\<close>
  "udp_post sid m bk = (case manager_Get (backend_manager bk) sid of Inl _ \<Rightarrow> bk | Inr p \<Rightarrow> ptr_post p (m ()) bk)"

definition udp_client :: "Hooks \<Rightarrow> gotime \<Rightarrow> gotime \<Rightarrow> gotime \<Rightarrow> string \<Rightarrow> UDPServer \<times> uint64 \<times> Backend \<Rightarrow>
    eptr \<times> UDPServer \<times> uint64 \<times> Backend" where
  \<comment> \<open>the entry of the address, made if there is none\<close>
  "udp_client hk nanos nowEntry nowSess key = (\<lambda>(us, counter, bk).
     (case us_addrToSess us key of
        Some i \<Rightarrow> (i, us, counter, bk)
      | None \<Rightarrow>
          let (sid, counter') = newSessionID nanos counter; i = us_next us;
              us' = us\<lparr>us_entries := (us_entries us)(i := newUDPClientEntry nowEntry sid key), us_next := Suc i,
                       us_clients := (us_clients us)(sid \<mapsto> i), us_addrToSess := (us_addrToSess us)(key \<mapsto> i)\<rparr>;
              bk1 = on_manager (\<lambda>m. fst (manager_Add nowSess m sid)) bk;
              bk2 = (case hk_onConnect hk of None \<Rightarrow> bk1 | Some f \<Rightarrow> f sid bk1)
          in (i, us', counter', bk2)))"

definition udp_touch :: "gotime \<Rightarrow> eptr \<Rightarrow> UDPServer \<Rightarrow> UDPServer" where
  "udp_touch now i us = us\<lparr>us_entries := (us_entries us)(i := ue_touch now (us_entries us i))\<rparr>"

definition udp_request :: "Hooks \<Rightarrow> Oracle \<Rightarrow> string \<Rightarrow> bytes \<Rightarrow> Backend \<Rightarrow> Backend \<times> bool" where
  \<comment> \<open>the rest of \<open>handleDatagram\<close>; the result tells whether the handler panicked\<close>
  "udp_request hk orc sid data bk =
     (case unmarshal_Envelope data of
        None \<Rightarrow> (udp_post sid (\<lambda>_. errorMsg '''' ''bad_json'' (or_errText orc data)) bk, False)
      | Some env \<Rightarrow>
          if env_Type env = MsgPing then
            (case protocol_Encode MsgPong (env_RequestID env) None of
               None \<Rightarrow> (bk, False)
             | Some pong \<Rightarrow> (udp_post sid (\<lambda>_. Some pong) bk, False))
          else
            (case hk_handler hk orc sid env bk of
               (bk', Panics) \<Rightarrow> (bk', True)
             | (bk', Returns None) \<Rightarrow> (bk', False)
             | (bk', Returns (Some err)) \<Rightarrow>
                 (udp_post sid (\<lambda>_. errorMsg (env_RequestID env) ''handler_error'' (session_error_text err)) bk', False)))"

definition udp_handleDatagram ::
    "Hooks \<Rightarrow> gotime \<Rightarrow> gotime \<Rightarrow> gotime \<Rightarrow> gotime \<Rightarrow> Oracle \<Rightarrow> string \<Rightarrow> bytes \<Rightarrow> UDPServer \<times> uint64 \<times> Backend \<Rightarrow>
     (UDPServer \<times> uint64 \<times> Backend) \<times> bool" where
  "udp_handleDatagram hk nanos nowEntry nowSess nowTouch orc key data s =
     (let (i, us, counter, bk) = udp_client hk nanos nowEntry nowSess key s;
          us1 = udp_touch nowTouch i us;
          (bk', panicked) = udp_request hk orc (ue_sessionID (us_entries us1 i)) data bk
      in ((us1, counter, bk'), panicked))"

section \<open>Writing\<close>

function drain :: "Session \<Rightarrow> Session \<times> msg list" where
  \<comment> \<open>the inner loop of \<open>flushOutboxes\<close>\<close>
  "drain s = (case session_Recv s of None \<Rightarrow> (s, []) | Some (m, s') \<Rightarrow> (case drain s' of (s'', ms) \<Rightarrow> (s'', m # ms)))"
  by auto
termination
  by (relation "measure (\<lambda>s. length (sess_outbox s))")
     (auto simp: session_Recv_def chan_poll_def split: list.splits)

declare drain.simps [simp del]

definition flush_entry :: "UDPServer \<Rightarrow> eptr \<Rightarrow> Backend \<Rightarrow> Backend \<times> (string \<times> bytes) list" where
  "flush_entry us i bk =
     (case manager_Get (backend_manager bk) (ue_sessionID (us_entries us i)) of
        Inl _ \<Rightarrow> (bk, [])
      | Inr p \<Rightarrow>
          let (s, ms) = drain (heap (backend_manager bk) p)
          in (on_manager (at_ptr p (\<lambda>_. s)) bk, map (\<lambda>m. (ue_addr (us_entries us i), elems m)) ms))"

definition udp_flushOutboxes :: "string list \<Rightarrow> UDPServer \<Rightarrow> Backend \<Rightarrow> Backend \<times> (string \<times> bytes) list" where
  "udp_flushOutboxes ks us bk =
     (let entries = range_values (\<lambda>_ i. Some i) (us_clients us) ks;
          (bk', out) = thread (flush_entry us) entries bk
      in (bk', concat out))"

definition udp_sendHeartbeats :: "string list \<Rightarrow> UDPServer \<Rightarrow> (string \<times> bytes) list" where
  "udp_sendHeartbeats ks us =
     (case protocol_Encode MsgPing '''' None of
        None \<Rightarrow> []
      | Some ping \<Rightarrow> map (\<lambda>i. (ue_addr (us_entries us i), ping)) (range_values (\<lambda>_ i. Some i) (us_clients us) ks))"

section \<open>Eviction\<close>

definition udp_forget :: "eptr \<Rightarrow> UDPServer \<Rightarrow> UDPServer" where
  "udp_forget i us = us\<lparr>us_clients := (us_clients us)(ue_sessionID (us_entries us i) := None),
     us_addrToSess := (us_addrToSess us)(ue_addr (us_entries us i) := None)\<rparr>"

fun udp_disconnectAll :: "Hooks \<Rightarrow> string list \<Rightarrow> (string \<Rightarrow> gotime) \<Rightarrow> string list \<Rightarrow> Backend \<Rightarrow> Backend \<times> bool" where
  \<comment> \<open>the result tells whether a callback panicked\<close>
  "udp_disconnectAll hk tks clk [] bk = (bk, False)"
| "udp_disconnectAll hk tks clk (sid # sids) bk =
     (case conn_notify hk tks clk sid bk of
        (bk', Panics) \<Rightarrow> (bk', True)
      | (bk', Returns _) \<Rightarrow> udp_disconnectAll hk tks clk sids (conn_remove sid bk'))"

definition udp_evictExpired ::
    "Hooks \<Rightarrow> string list \<Rightarrow> (string \<Rightarrow> gotime) \<Rightarrow> string list \<Rightarrow> (string \<Rightarrow> gotime) \<Rightarrow> UDPServer \<Rightarrow> Backend \<Rightarrow>
     UDPServer \<times> Backend \<times> bool" where
  \<comment> \<open>\<open>ks\<close>: the order of the clients; \<open>now\<close>: the clock reading taken for each; \<open>tks\<close>: the order of the tasks\<close>
  "udp_evictExpired hk ks now tks clk us bk =
     (let evicted = range_values (\<lambda>sid i. if ue_isExpired (now sid) (us_entries us i) then Some i else None) (us_clients us) ks;
          us' = fold udp_forget evicted us;
          (bk', panicked) = udp_disconnectAll hk tks clk (map (\<lambda>i. ue_sessionID (us_entries us i)) evicted) bk
      in (us', bk', panicked))"

section \<open>Lemmas\<close>

lemma drain_eq: "drain s = (s\<lparr>sess_outbox := []\<rparr>, sess_outbox s)"
proof (induction s rule: drain.induct)
  case (1 s)
  show ?case
  proof (cases "sess_outbox s")
    case Nil
    then show ?thesis by (subst drain.simps) (simp add: session_Recv_def chan_poll_def)
  next
    case (Cons m ms)
    then have "session_Recv s = Some (m, s\<lparr>sess_outbox := ms\<rparr>)" by (simp add: session_Recv_def chan_poll_def)
    with 1 [OF this refl] Cons show ?thesis by (subst drain.simps) simp
  qed
qed

definition udp_ok :: "UDPServer \<Rightarrow> bool" where
  \<comment> \<open>the two maps lead to the same entries, by session and by address\<close>
  "udp_ok us \<longleftrightarrow>
     (\<forall>sid i. us_clients us sid = Some i \<longrightarrow>
        i < us_next us \<and> ue_sessionID (us_entries us i) = sid \<and> us_addrToSess us (ue_addr (us_entries us i)) = Some i) \<and>
     (\<forall>a i. us_addrToSess us a = Some i \<longrightarrow>
        ue_addr (us_entries us i) = a \<and> us_clients us (ue_sessionID (us_entries us i)) = Some i)"

lemma udp_okD:
  assumes "udp_ok us"
  shows "us_clients us sid = Some i \<Longrightarrow> i < us_next us"
    and "us_clients us sid = Some i \<Longrightarrow> ue_sessionID (us_entries us i) = sid"
    and "us_clients us sid = Some i \<Longrightarrow> us_addrToSess us (ue_addr (us_entries us i)) = Some i"
    and "us_addrToSess us a = Some i \<Longrightarrow> ue_addr (us_entries us i) = a"
    and "us_addrToSess us a = Some i \<Longrightarrow> us_clients us (ue_sessionID (us_entries us i)) = Some i"
  using assms unfolding udp_ok_def by blast+

lemma udp_ok_New: "udp_ok newUDPServer"
  by (simp add: udp_ok_def newUDPServer_def)

lemma udp_ok_touch: "udp_ok us \<Longrightarrow> udp_ok (udp_touch now i us)"
  by (auto simp: udp_ok_def udp_touch_def ue_touch_def)

lemma udp_ok_client:
  assumes "udp_ok us" and "udp_client hk nanos nowEntry nowSess key (us, counter, bk) = (i, us', counter', bk')"
    and "us_clients us (fst (newSessionID nanos counter)) = None"
  shows "udp_ok us'" and "us_addrToSess us' key = Some i"
proof -
  show "us_addrToSess us' key = Some i"
    using assms(2) by (auto simp: udp_client_def Let_def split: option.splits prod.splits)
  show "udp_ok us'"
  proof (cases "us_addrToSess us key")
    case (Some j)
    with assms(1,2) show ?thesis by (simp add: udp_client_def)
  next
    case None
    let ?sid = "fst (newSessionID nanos counter)"
    have us': "us' = us\<lparr>us_entries := (us_entries us)(us_next us := newUDPClientEntry nowEntry ?sid key),
        us_next := Suc (us_next us), us_clients := (us_clients us)(?sid \<mapsto> us_next us),
        us_addrToSess := (us_addrToSess us)(key \<mapsto> us_next us)\<rparr>"
      using assms(2) None by (auto simp: udp_client_def Let_def split: prod.splits)
    have fresh: "us_clients us s \<noteq> Some (us_next us)" "us_addrToSess us a \<noteq> Some (us_next us)" for s a
      using udp_okD [OF assms(1)] by (metis less_irrefl)+
    have addr: "ue_addr (us_entries us j) \<noteq> key" if "us_clients us s = Some j" for s j
      using udp_okD(3) [OF assms(1) that] None by auto
    have sess: "ue_sessionID (us_entries us j) \<noteq> ?sid" if "us_addrToSess us a = Some j" for a j
      using udp_okD(5) [OF assms(1) that] assms(3) by auto
    have "j < us_next us' \<and> ue_sessionID (us_entries us' j) = s \<and> us_addrToSess us' (ue_addr (us_entries us' j)) = Some j"
      if "us_clients us' s = Some j" for s j
    proof (cases "s = ?sid")
      case True
      with that show ?thesis by (simp add: us' newUDPClientEntry_def)
    next
      case False
      with that have j: "us_clients us s = Some j" by (simp add: us')
      then have "j < us_next us" using udp_okD(1) [OF assms(1)] by blast
      with udp_okD(2,3) [OF assms(1) j] addr [OF j] show ?thesis by (simp add: us')
    qed
    moreover have "ue_addr (us_entries us' j) = a \<and> us_clients us' (ue_sessionID (us_entries us' j)) = Some j"
      if "us_addrToSess us' a = Some j" for a j
    proof (cases "a = key")
      case True
      with that show ?thesis by (simp add: us' newUDPClientEntry_def)
    next
      case False
      with that have j: "us_addrToSess us a = Some j" by (simp add: us')
      then have "j \<noteq> us_next us" using fresh(2) by auto
      with udp_okD(4,5) [OF assms(1) j] sess [OF j] show ?thesis by (simp add: us')
    qed
    ultimately show ?thesis unfolding udp_ok_def by blast
  qed
qed

lemma udp_forget_sel [simp]:
  "us_entries (udp_forget i us) = us_entries us" "us_next (udp_forget i us) = us_next us"
  by (simp_all add: udp_forget_def)

lemma udp_ok_forget:
  assumes "udp_ok us" and "us_clients us sid = Some i"
  shows "udp_ok (udp_forget i us)"
proof -
  note i = udp_okD(2,3) [OF assms(1,2)]
  have A: "us_addrToSess us (ue_addr (us_entries us j)) = Some j \<and> ue_addr (us_entries us j) \<noteq> ue_addr (us_entries us i)"
    if "us_clients us s = Some j" "s \<noteq> sid" for s j
    using udp_okD(2,3) [OF assms(1) that(1)] that(2) i by (metis option.inject)
  have B: "us_clients us (ue_sessionID (us_entries us j)) = Some j \<and> ue_sessionID (us_entries us j) \<noteq> sid"
    if "us_addrToSess us a = Some j" "a \<noteq> ue_addr (us_entries us i)" for a j
    using udp_okD(4,5) [OF assms(1) that(1)] that(2) assms(2) by (metis option.inject)
  show ?thesis
    unfolding udp_ok_def udp_forget_def
    using A B i(1) udp_okD(1,2) [OF assms(1)] udp_okD(4) [OF assms(1)] by (simp add: fun_upd_apply)
qed

lemma udp_forget_clients:
  "udp_ok us \<Longrightarrow> us_clients us sid = Some i \<Longrightarrow> us_clients (udp_forget i us) = (us_clients us)(sid := None)"
  by (simp add: udp_forget_def udp_okD(2))

lemma fold_udp_forget:
  assumes "udp_ok us" and "distinct is" and "\<And>i. i \<in> set is \<Longrightarrow> us_clients us (ue_sessionID (us_entries us i)) = Some i"
  shows "udp_ok (fold udp_forget is us) \<and> us_entries (fold udp_forget is us) = us_entries us \<and>
    us_clients (fold udp_forget is us) = (\<lambda>sid. case us_clients us sid of None \<Rightarrow> None | Some i \<Rightarrow> if i \<in> set is then None else Some i)"
  using assms
proof (induction "is" arbitrary: us)
  case Nil
  then show ?case by (auto simp: fun_eq_iff split: option.splits)
next
  case (Cons i "is")
  let ?us = "udp_forget i us" and ?sid = "ue_sessionID (us_entries us i)"
  have i: "us_clients us ?sid = Some i" using Cons.prems(3) by simp
  have cl: "us_clients ?us = (us_clients us)(?sid := None)" using udp_forget_clients [OF Cons.prems(1) i] .
  have inj: "us_clients us s = Some j \<Longrightarrow> us_clients us s' = Some j \<Longrightarrow> s = s'" for s s' j
    using udp_okD(2) [OF Cons.prems(1)] by metis
  have "us_clients ?us (ue_sessionID (us_entries ?us j)) = Some j" if "j \<in> set is" for j
  proof -
    have j: "us_clients us (ue_sessionID (us_entries us j)) = Some j" "j \<noteq> i" using Cons.prems(2,3) that by auto
    then have "ue_sessionID (us_entries us j) \<noteq> ?sid" using i by auto
    with j(1) show ?thesis by (simp add: cl)
  qed
  with Cons.IH [of ?us] udp_ok_forget [OF Cons.prems(1) i] Cons.prems(2)
  have IH: "udp_ok (fold udp_forget is ?us)" "us_entries (fold udp_forget is ?us) = us_entries us"
    "us_clients (fold udp_forget is ?us) =
      (\<lambda>sid. case us_clients ?us sid of None \<Rightarrow> None | Some i \<Rightarrow> if i \<in> set is then None else Some i)" by auto
  have "us_clients (fold udp_forget is ?us) s =
      (case us_clients us s of None \<Rightarrow> None | Some j \<Rightarrow> if j \<in> set (i # is) then None else Some j)" for s
  proof (cases "s = ?sid")
    case True
    then show ?thesis unfolding IH(3) cl using i by simp
  next
    case False
    then have "us_clients us s \<noteq> Some i" using inj [OF _ i, of s] by blast
    with False show ?thesis unfolding IH(3) cl by (cases "us_clients us s") auto
  qed
  with IH(1,2) show ?case by (simp only: fold.simps o_apply fun_eq_iff) simp
qed

lemma evicted_entries:
  fixes now :: "string \<Rightarrow> gotime"
  assumes "udp_ok us" and "enumerates ks (us_clients us)"
  defines "evicted \<equiv> range_values (\<lambda>sid i. if ue_isExpired (now sid) (us_entries us i) then Some i else None) (us_clients us) ks"
  shows "distinct evicted"
    and "i \<in> set evicted \<longleftrightarrow> (\<exists>sid. us_clients us sid = Some i \<and> ue_isExpired (now sid) (us_entries us i))"
proof -
  show "distinct evicted"
    unfolding evicted_def using enumeratesD(1) [OF assms(2)] udp_okD(2) [OF assms(1)]
    by (intro distinct_range_values) (auto split: if_splits)
  show "i \<in> set evicted \<longleftrightarrow> (\<exists>sid. us_clients us sid = Some i \<and> ue_isExpired (now sid) (us_entries us i))"
    unfolding evicted_def set_range_values_enum [OF assms(2)] by (auto split: if_splits)
qed

lemma backend_ok_remove: "backend_ok bk \<Longrightarrow> backend_ok (conn_remove sid bk)"
  unfolding conn_remove_def by (rule backend_ok_on_manager) (simp_all add: backend_ok_manager manager_ok_Remove)

lemma conn_remove_sel [simp]:
  "backend_registry (conn_remove sid bk) = backend_registry bk"
  "sessions (backend_manager (conn_remove sid bk)) = (sessions (backend_manager bk))(sid := None)"
  by (auto simp: conn_remove_def manager_Remove_def fun_eq_iff split: option.splits)

lemma onDisconnect_dom:
  "backend_ok bk \<Longrightarrow> dom (tasks (backend_registry (fst (server_onDisconnect ks clk sid bk)))) = dom (tasks (backend_registry bk))"
  by (erule onDisconnect_eq [of bk ks clk sid]) (simp add: backend_registry_def registry_ReleaseAll_tasks)

lemma disconnectAll_ok:
  assumes "backend_ok bk" and "enumerates tks (tasks (backend_registry bk))"
  shows "\<exists>bk'. udp_disconnectAll serverHooks tks clk sids bk = (bk', False) \<and> backend_ok bk' \<and>
     sessions (backend_manager bk') = (\<lambda>sid. if sid \<in> set sids then None else sessions (backend_manager bk) sid) \<and>
     owners (backend_registry bk') \<subseteq> owners (backend_registry bk) - set sids \<and>
     dom (tasks (backend_registry bk')) = dom (tasks (backend_registry bk))"
  using assms
proof (induction sids arbitrary: bk)
  case (Cons sid sids)
  let ?n = "fst (server_onDisconnect tks clk sid bk)"
  note D = backend_onDisconnect_ok [OF Cons.prems, where clk = clk and sid = sid]
  have notify: "conn_notify serverHooks tks clk sid bk = (?n, Returns ())"
    using D(4) by (simp add: conn_notify_def serverHooks_def prod_eq_iff)
  have dom: "dom (tasks (backend_registry ?n)) = dom (tasks (backend_registry bk))"
    using onDisconnect_dom [OF Cons.prems(1)] .
  have "enumerates tks (tasks (backend_registry (conn_remove sid ?n)))"
    using Cons.prems(2) dom by (simp add: enumerates_def)
  from Cons.IH [OF backend_ok_remove [OF D(1)] this] obtain bk' where
    "udp_disconnectAll serverHooks tks clk sids (conn_remove sid ?n) = (bk', False)" "backend_ok bk'"
    "sessions (backend_manager bk') = (\<lambda>s. if s \<in> set sids then None else sessions (backend_manager (conn_remove sid ?n)) s)"
    "owners (backend_registry bk') \<subseteq> owners (backend_registry ?n) - set sids"
    "dom (tasks (backend_registry bk')) = dom (tasks (backend_registry ?n))" by auto
  moreover have "sessions (backend_manager ?n) = sessions (backend_manager bk)" using grows_sessions [OF D(2)] .
  ultimately show ?case using D(3) dom by (intro exI [of _ bk']) (auto simp: notify fun_eq_iff)
qed auto

section \<open>Properties\<close>

text \<open>UDP clients: a datagram from a known address is served in the session of that address, one from a
  new address makes a session of its own; either way the maps by session and by address stay inverse to each
  other, and the address is not silent any more.\<close>

theorem udp_datagram_session:
  assumes "udp_ok us" and "us_clients us (fst (newSessionID nanos counter)) = None"
    and "udp_handleDatagram hk nanos nowEntry nowSess nowTouch orc key data (us, counter, bk) = ((us', counter', bk'), panicked)"
  shows "udp_ok us' \<and> (\<exists>i. us_addrToSess us' key = Some i \<and> ue_lastSeen (us_entries us' i) = nowTouch \<and>
     (case us_addrToSess us key of
        Some j \<Rightarrow> i = j \<and> us_clients us' = us_clients us \<and> (bk', panicked) = udp_request hk orc (ue_sessionID (us_entries us j)) data bk
      | None \<Rightarrow> us_clients us' = (us_clients us)(fst (newSessionID nanos counter) \<mapsto> i)))"
proof -
  obtain i us1 c1 bk1 where cl: "udp_client hk nanos nowEntry nowSess key (us, counter, bk) = (i, us1, c1, bk1)"
    by (metis prod_cases4)
  note C = udp_ok_client [OF assms(1) cl assms(2)]
  have us': "us' = udp_touch nowTouch i us1" and req: "(bk', panicked) = udp_request hk orc (ue_sessionID (us_entries us' i)) data bk1"
    using assms(3) by (auto simp: udp_handleDatagram_def cl Let_def split: prod.splits)
  have "udp_ok us'" using udp_ok_touch [OF C(1)] by (simp add: us')
  moreover have "us_addrToSess us' key = Some i" using C(2) by (simp add: us' udp_touch_def)
  moreover have "ue_lastSeen (us_entries us' i) = nowTouch" by (simp add: us' udp_touch_def ue_touch_def)
  moreover have "ue_sessionID (us_entries us' i) = ue_sessionID (us_entries us1 i)" by (simp add: us' udp_touch_def ue_touch_def)
  moreover have "us_clients us' = us_clients us1" by (simp add: us' udp_touch_def)
  ultimately show ?thesis
    using cl req by (cases "us_addrToSess us key") (auto simp: udp_client_def Let_def split: prod.splits)
qed

theorem udp_datagram_session_witness:
  "\<exists>us' counter' bk' panicked i.
     udp_handleDatagram serverHooks 1 1 1 2 (exampleOracle 9) ''10.0.0.1:5'' ''junk''
        (newUDPServer, 0, \<lparr>bk_disp = exampleDispatcher, bk_proj = projector_New 0\<rparr>) = ((us', counter', bk'), panicked) \<and>
     us_addrToSess us' ''10.0.0.1:5'' = Some i \<and> udp_ok us'"
proof -
  obtain us' counter' bk' panicked where run:
    "udp_handleDatagram serverHooks 1 1 1 2 (exampleOracle 9) ''10.0.0.1:5'' ''junk''
        (newUDPServer, 0, \<lparr>bk_disp = exampleDispatcher, bk_proj = projector_New 0\<rparr>) = ((us', counter', bk'), panicked)"
    by (metis prod.exhaust)
  have "us_clients newUDPServer (fst (newSessionID 1 0)) = None" by (simp add: newUDPServer_def)
  from udp_datagram_session [OF udp_ok_New this run] run show ?thesis by blast
qed

lemma udp_evict_parts:
  assumes "backend_ok bk" and "udp_ok us" and "enumerates ks (us_clients us)"
    and "enumerates tks (tasks (backend_registry bk))"
    and "udp_evictExpired serverHooks ks now tks clk us bk = (us', bk', panicked)"
  defines "silent \<equiv> {sid. \<exists>i. us_clients us sid = Some i \<and> now sid - ue_lastSeen (us_entries us i) > 30000000000}"
  shows "us_clients us' = (\<lambda>sid. if sid \<in> silent then None else us_clients us sid) \<and> udp_ok us' \<and>
     sessions (backend_manager bk') = (\<lambda>sid. if sid \<in> silent then None else sessions (backend_manager bk) sid) \<and>
     owners (backend_registry bk') \<inter> silent = {} \<and> owners (backend_registry bk') \<subseteq> owners (backend_registry bk) \<and> \<not> panicked \<and> backend_ok bk'"
proof -
  let ?ev = "range_values (\<lambda>sid i. if ue_isExpired (now sid) (us_entries us i) then Some i else None) (us_clients us) ks"
  note E = evicted_entries [OF assms(2,3), where now = now]
  have exp: "ue_isExpired t e \<longleftrightarrow> t - ue_lastSeen e > 30000000000" for t e
    by (simp add: ue_isExpired_def udpClientTimeout_def Second_def)
  have "us_clients us (ue_sessionID (us_entries us i)) = Some i" if "i \<in> set ?ev" for i
    using that E(2) udp_okD(2) [OF assms(2)] by fastforce
  note F = fold_udp_forget [OF assms(2) E(1) this]
  have sids: "set (map (\<lambda>i. ue_sessionID (us_entries us i)) ?ev) = silent"
    using E(2) udp_okD(2) [OF assms(2)] by (force simp: silent_def exp)
  have silent_iff: "sid \<in> silent \<longleftrightarrow> (\<exists>i. us_clients us sid = Some i \<and> ue_isExpired (now sid) (us_entries us i))" for sid
    by (simp add: silent_def exp)
  have "i \<in> set ?ev \<longleftrightarrow> sid \<in> silent" if "us_clients us sid = Some i" for sid i
    unfolding E(2) silent_iff using that udp_okD(2) [OF assms(2)] by (metis option.inject)
  moreover have "sid \<notin> silent" if "us_clients us sid = None" for sid using that by (simp add: silent_def)
  ultimately have "us_clients (fold udp_forget ?ev us) = (\<lambda>sid. if sid \<in> silent then None else us_clients us sid)"
    using F by (auto simp: fun_eq_iff split: option.splits)
  moreover have "us' = fold udp_forget ?ev us" using assms(5) by (simp add: udp_evictExpired_def Let_def split: prod.splits)
  moreover obtain b where b: "udp_disconnectAll serverHooks tks clk (map (\<lambda>i. ue_sessionID (us_entries us i)) ?ev) bk = (b, False)"
      "backend_ok b" "sessions (backend_manager b) = (\<lambda>sid. if sid \<in> silent then None else sessions (backend_manager bk) sid)"
      "owners (backend_registry b) \<subseteq> owners (backend_registry bk) - silent"
    using disconnectAll_ok [OF assms(1,4), of clk "map (\<lambda>i. ue_sessionID (us_entries us i)) ?ev"] sids by auto
  moreover have "bk' = b \<and> \<not> panicked" using assms(5) b(1) by (simp add: udp_evictExpired_def Let_def)
  ultimately show ?thesis using F by blast
qed

text \<open>C17. UDP eviction: exactly the clients that have been silent for more than 30 seconds are forgotten, by
  session and by address; their sessions are removed from the manager, no other session is, and none of
  their tasks stays owned.\<close>

theorem udp_evict_exact:
  assumes "backend_ok bk" and "udp_ok us" and "enumerates ks (us_clients us)"
    and "enumerates tks (tasks (backend_registry bk))"
    and "udp_evictExpired serverHooks ks now tks clk us bk = (us', bk', panicked)"
  defines "silent \<equiv> {sid. \<exists>i. us_clients us sid = Some i \<and> now sid - ue_lastSeen (us_entries us i) > 30000000000}"
  shows "us_clients us' = (\<lambda>sid. if sid \<in> silent then None else us_clients us sid) \<and> udp_ok us' \<and>
     sessions (backend_manager bk') = (\<lambda>sid. if sid \<in> silent then None else sessions (backend_manager bk) sid) \<and>
     owners (backend_registry bk') \<inter> silent = {} \<and> owners (backend_registry bk') \<subseteq> owners (backend_registry bk) \<and> \<not> panicked"
  using udp_evict_parts [OF assms(1-5)] unfolding silent_def by blast

lemma exampleBackend_facts:
  "backend_ok \<lparr>bk_disp = exampleDispatcher, bk_proj = projector_New 0\<rparr>"
  "enumerates [''t''] (tasks (backend_registry \<lparr>bk_disp = exampleDispatcher, bk_proj = projector_New 0\<rparr>))"
  using exampleDispatcher_ok
  by (auto simp: backend_ok_def disp_ok_def backend_registry_def exampleDispatcher_def dispatcher_New_def registry_New_def
      world_New_def registry_ok_def task_ok_def world_ok_def quiet_registry_def quiet_world_def enumerates_def)

definition exampleClients :: UDPServer where
  "exampleClients = \<lparr>us_entries = (\<lambda>i. newUDPClientEntry (if i = 0 then 5 else 90000000000) (if i = 0 then ''s'' else ''u'')
       (if i = 0 then ''a'' else ''b'')), us_next = 2, us_clients = [''s'' \<mapsto> 0, ''u'' \<mapsto> 1], us_addrToSess = [''a'' \<mapsto> 0, ''b'' \<mapsto> 1]\<rparr>"

theorem udp_evict_exact_witness:
  "\<exists>us' bk' panicked. udp_evictExpired serverHooks [''u'', ''s''] (\<lambda>_. 100000000000) [''t''] (\<lambda>_. 100000000000) exampleClients
       \<lparr>bk_disp = exampleDispatcher, bk_proj = projector_New 0\<rparr> = (us', bk', panicked) \<and>
     us_clients us' ''s'' = None \<and> us_clients us' ''u'' = Some 1 \<and> ''s'' \<notin> owners (backend_registry bk')"
proof -
  obtain us' bk' panicked where run: "udp_evictExpired serverHooks [''u'', ''s''] (\<lambda>_. 100000000000) [''t''] (\<lambda>_. 100000000000)
      exampleClients \<lparr>bk_disp = exampleDispatcher, bk_proj = projector_New 0\<rparr> = (us', bk', panicked)" by (metis prod_cases3)
  have ok: "udp_ok exampleClients" "enumerates [''u'', ''s''] (us_clients exampleClients)"
    by (auto simp: udp_ok_def exampleClients_def newUDPClientEntry_def enumerates_def)
  note X = udp_evict_exact [OF exampleBackend_facts(1) ok exampleBackend_facts(2) run]
  have "us_clients us' ''s'' = None" "us_clients us' ''u'' = Some 1" "''s'' \<notin> owners (backend_registry bk')"
    using X by (auto simp: exampleClients_def newUDPClientEntry_def)
  with run show ?thesis by blast
qed

end
