(* ===== verification/Peering.thy ===== *)
theory Peering imports Framing Channel begin

text \<open>
  The interface of the peer-to-peer managers, \<open>internal/peering/manager_iface.go\<close>, and the events that a
  manager reports.  The Go interface is the record \<open>PeeringManager\<close> of the operations of a manager with
  state \<open>'s\<close>; \<open>'o\<close> is what an operation learns from outside: the order in which Go ranges over a map, the
  result of a dial, the time.

  The locale \<open>peering_manager\<close> is the contract that gossip and the node rely on: what a broadcast does to
  the outboxes of the peers.  Its lemmas say what a sequence of broadcasts does.
\<close>

section \<open>Channels of a manager\<close>

definition outboxCap :: nat where "outboxCap = 256"
definition eventsCap :: nat where "eventsCap = 1024"

section \<open>Events\<close>

record PeerEvent =
  pe_Kind :: string
  pe_PeerID :: string
  pe_Env :: Envelope
  pe_Err :: "string option"

definition EventPeerConnected :: string where "EventPeerConnected = ''connected''"
definition EventPeerMessage :: string where "EventPeerMessage = ''message''"
definition EventPeerClosed :: string where "EventPeerClosed = ''closed''"

definition connectedEvent :: "string \<Rightarrow> PeerEvent" where
  "connectedEvent pid = \<lparr>pe_Kind = EventPeerConnected, pe_PeerID = pid, pe_Env = zeroEnvelope, pe_Err = None\<rparr>"

definition messageEvent :: "string \<Rightarrow> Envelope \<Rightarrow> PeerEvent" where
  "messageEvent pid env = \<lparr>pe_Kind = EventPeerMessage, pe_PeerID = pid, pe_Env = env, pe_Err = None\<rparr>"

definition closedEvent :: "string \<Rightarrow> PeerEvent" where
  "closedEvent pid = \<lparr>pe_Kind = EventPeerClosed, pe_PeerID = pid, pe_Env = zeroEnvelope, pe_Err = None\<rparr>"

section \<open>The interface\<close>

record ('o, 's) PeeringManager =
  pmi_Listen :: "'o \<Rightarrow> string \<Rightarrow> 's \<Rightarrow> 's \<times> string option"
  pmi_Dial :: "'o \<Rightarrow> string \<Rightarrow> 's \<Rightarrow> 's \<times> string option"
  pmi_Broadcast :: "'o \<Rightarrow> bytes \<Rightarrow> 's \<Rightarrow> 's"
  pmi_BroadcastExcept :: "'o \<Rightarrow> bytes \<Rightarrow> string \<Rightarrow> 's \<Rightarrow> 's"
  pmi_Events :: "'s \<Rightarrow> PeerEvent list"
  pmi_Receive :: "'s \<Rightarrow> (PeerEvent \<times> 's) option"
  pmi_PeerCount :: "'s \<Rightarrow> nat"
  pmi_Addr :: "'s \<Rightarrow> string"
  pmi_Stop :: "'s \<Rightarrow> 's"

text \<open>\<open>pmi_Events\<close> is what waits in the channel that \<open>Events()\<close> returns, \<open>pmi_Receive\<close> a receive from it.\<close>

lemma fold_heap_upd:
  "distinct ps \<Longrightarrow> fold (\<lambda>p h. h(p := f (h p))) ps h q = (if q \<in> set ps then f (h q) else h q)"
  by (induction ps arbitrary: h) auto

lemma fold_heap_other:
  "q \<notin> set ps \<Longrightarrow> fold (\<lambda>p h. h(p := f (h p))) ps h q = h q"
  by (induction ps arbitrary: h) auto

definition pm_send :: "('o, 's) PeeringManager \<Rightarrow> 'o \<Rightarrow> bytes \<times> string option \<Rightarrow> 's \<Rightarrow> 's" where
  \<comment> \<open>a broadcast, with the peer it leaves out, if any\<close>
  "pm_send M orc mx = (case snd mx of None \<Rightarrow> pmi_Broadcast M orc (fst mx) | Some x \<Rightarrow> pmi_BroadcastExcept M orc (fst mx) x)"

definition addressed :: "string \<Rightarrow> (bytes \<times> string option) list \<Rightarrow> bytes list" where
  \<comment> \<open>the messages for a peer\<close>
  "addressed pid ms = map fst (filter (\<lambda>mx. snd mx \<noteq> Some pid) ms)"

section \<open>The contract\<close>

text \<open>The contract of the broadcasts: \<open>outboxes s\<close> are the outboxes of the peers that are registered and
  open, by peer ID.  A broadcast offers its message to each of them once, in whatever order it visits them.\<close>

locale peering_manager =
  fixes M :: "('o, 's) PeeringManager"
    and valid :: "'s \<Rightarrow> bool"
    and orders :: "'o \<Rightarrow> 's \<Rightarrow> bool"
    and outboxes :: "'s \<Rightarrow> string \<rightharpoonup> bytes list"
  assumes Broadcast_outboxes: "valid s \<Longrightarrow> orders orc s \<Longrightarrow>
      outboxes (pmi_Broadcast M orc m s) pid = map_option (\<lambda>q. chan_offer outboxCap q m) (outboxes s pid)"
    and BroadcastExcept_outboxes: "valid s \<Longrightarrow> orders orc s \<Longrightarrow>
      outboxes (pmi_BroadcastExcept M orc m pid' s) pid =
        (if pid = pid' then outboxes s pid else map_option (\<lambda>q. chan_offer outboxCap q m) (outboxes s pid))"
    and Broadcast_valid: "valid s \<Longrightarrow> valid (pmi_Broadcast M orc m s)"
    and BroadcastExcept_valid: "valid s \<Longrightarrow> valid (pmi_BroadcastExcept M orc m pid' s)"
    and Broadcast_orders: "orders orc' (pmi_Broadcast M orc m s) = orders orc' s"
    and BroadcastExcept_orders: "orders orc' (pmi_BroadcastExcept M orc m pid' s) = orders orc' s"
    and Broadcast_events: "pmi_Events M (pmi_Broadcast M orc m s) = pmi_Events M s"
    and BroadcastExcept_events: "pmi_Events M (pmi_BroadcastExcept M orc m pid' s) = pmi_Events M s"
    and Receive_Some: "pmi_Receive M s = Some (evt, s') \<Longrightarrow> pmi_Events M s = evt # pmi_Events M s'"
    and Receive_None: "pmi_Receive M s = None \<longleftrightarrow> pmi_Events M s = []"
    and Receive_valid: "valid s \<Longrightarrow> pmi_Receive M s = Some (evt, s') \<Longrightarrow> valid s'"
    and Receive_outboxes: "pmi_Receive M s = Some (evt, s') \<Longrightarrow> outboxes s' = outboxes s"
    and Receive_orders: "pmi_Receive M s = Some (evt, s') \<Longrightarrow> orders orc s' = orders orc s"
    and outboxes_bounded: "valid s \<Longrightarrow> outboxes s pid = Some q \<Longrightarrow> length q \<le> outboxCap"
begin

lemma send_outboxes:
  assumes "valid s" and "orders orc s"
  shows "outboxes (pm_send M orc mx s) pid =
    map_option (\<lambda>q. if snd mx = Some pid then q else chan_offer outboxCap q (fst mx)) (outboxes s pid)"
  using assms
  by (cases "snd mx") (auto simp: pm_send_def Broadcast_outboxes BroadcastExcept_outboxes option.map_ident)

lemma send_keeps:
  "valid s \<Longrightarrow> valid (pm_send M orc mx s)" "orders orc' (pm_send M orc mx s) = orders orc' s"
  "pmi_Events M (pm_send M orc mx s) = pmi_Events M s"
  by (simp_all add: pm_send_def Broadcast_valid BroadcastExcept_valid Broadcast_orders BroadcastExcept_orders
      Broadcast_events BroadcastExcept_events split: option.splits)

lemma sends_keep:
  "valid s \<Longrightarrow> valid (fold (pm_send M orc) ms s)" "orders orc' (fold (pm_send M orc) ms s) = orders orc' s"
  "pmi_Events M (fold (pm_send M orc) ms s) = pmi_Events M s"
  by (induction ms arbitrary: s) (simp_all add: send_keeps)

lemma sends_outboxes:
  assumes "valid s" and "orders orc s"
  shows "outboxes (fold (pm_send M orc) ms s) pid =
    map_option (\<lambda>q. q @ take (outboxCap - length q) (addressed pid ms)) (outboxes s pid)"
  using assms
proof (induction ms arbitrary: s)
  case Nil
  then show ?case by (simp add: option.map_ident addressed_def)
next
  case (Cons mx ms)
  have "chan_offer outboxCap q m @ take (outboxCap - length (chan_offer outboxCap q m)) l = q @ take (outboxCap - length q) (m # l)"
    for q :: "bytes list" and m l
    using fold_chan_offer [of outboxCap "m # l" q] fold_chan_offer [of outboxCap l "chan_offer outboxCap q m"] by simp
  with Cons show ?case
    by (cases "snd mx = Some pid") (simp_all add: send_outboxes send_keeps option.map_comp o_def addressed_def)
qed

lemma sends_lossless:
  "valid s \<Longrightarrow> orders orc s \<Longrightarrow> outboxes s pid = Some q \<Longrightarrow> length q + length (addressed pid ms) \<le> outboxCap \<Longrightarrow>
   outboxes (fold (pm_send M orc) ms s) pid = Some (q @ addressed pid ms)"
  by (simp add: sends_outboxes)

lemma Broadcast_lossless:
  "valid s \<Longrightarrow> orders orc s \<Longrightarrow> outboxes s pid = Some q \<Longrightarrow> length q < outboxCap \<Longrightarrow>
   outboxes (pmi_Broadcast M orc m s) pid = Some (q @ [m])"
  by (simp add: Broadcast_outboxes chan_offer_def)

lemma Broadcast_full:
  "valid s \<Longrightarrow> orders orc s \<Longrightarrow> outboxes s pid = Some q \<Longrightarrow> outboxCap \<le> length q \<Longrightarrow>
   outboxes (pmi_Broadcast M orc m s) pid = Some q"
  by (simp add: Broadcast_outboxes chan_offer_def)

end

end
