(* ===== verification/Gossip.thy ===== *)
theory Gossip imports Peering begin

text \<open>
  The gossip layer, \<open>internal/gossip/gossip.go\<close>: the set of message IDs seen lately, which decides whether a
  message is new, and the encoding of a message before it is broadcast through the manager.  The manager is
  the interface \<open>PeeringManager\<close>; its state is passed to the broadcasts and returned.

  The lemmas show for how long a message is recognised, that a message keeps its ID when nodes decode and
  encode it again, and which peers a forwarded message reaches.
\<close>

section \<open>State and operations\<close>

record Gossip =
  g_seen :: "string \<rightharpoonup> gotime"
  g_maxAge :: duration
  g_stopped :: bool

datatype gossip_error = EncodeFailed

definition gossip_New :: Gossip where
  "gossip_New = \<lparr>g_seen = Map.empty, g_maxAge = 5 * Minute, g_stopped = False\<rparr>"

definition gossip_Stop :: "Gossip \<Rightarrow> Gossip outcome" where
  \<comment> \<open>closing a closed channel panics\<close>
  "gossip_Stop g = (if g_stopped g then Panics else Returns (g\<lparr>g_stopped := True\<rparr>))"

definition gossip_gc :: "gotime \<Rightarrow> Gossip \<Rightarrow> Gossip" where
  "gossip_gc now g =
     (let cutoff = now - g_maxAge g
      in g\<lparr>g_seen := (\<lambda>mid. case g_seen g mid of None \<Rightarrow> None | Some t \<Rightarrow> if t < cutoff then None else Some t)\<rparr>)"

text \<open>What the \<open>select\<close> of the collector receives: \<open>stopChan\<close>, or a tick.\<close>

datatype gc_event = GcStop | GcTick gotime

fun gossip_gcLoop :: "gc_event list \<Rightarrow> Gossip \<Rightarrow> Gossip \<times> bool" where
  "gossip_gcLoop [] g = (g, True)"
| "gossip_gcLoop (GcStop # evs) g = (g, False)"
| "gossip_gcLoop (GcTick now # evs) g = gossip_gcLoop evs (gossip_gc now g)"

definition messageID :: "Envelope \<Rightarrow> string" where
  "messageID env =
     (if env_RequestID env \<noteq> '''' then env_RequestID env else env_Type env @ '':'' @ elems (env_Payload env))"

definition ShouldForward :: "gotime \<Rightarrow> Envelope \<Rightarrow> Gossip \<Rightarrow> Gossip \<times> bool" where
  "ShouldForward now env g =
     (let mid = messageID env in
      if g_seen g mid \<noteq> None then (g, False)
      else (g\<lparr>g_seen := (g_seen g)(mid \<mapsto> now)\<rparr>, True))"

definition gossip_Broadcast ::
    "('o, 's) PeeringManager \<Rightarrow> 'o \<Rightarrow> string \<Rightarrow> string \<Rightarrow> payload option \<Rightarrow> 's \<Rightarrow> 's \<times> gossip_error option" where
  "gossip_Broadcast M orc msgType requestID pl s =
     (case protocol_Encode msgType requestID pl of
        None \<Rightarrow> (s, Some EncodeFailed)
      | Some msg \<Rightarrow> (pmi_Broadcast M orc msg s, None))"

definition gossip_BroadcastExcept ::
    "('o, 's) PeeringManager \<Rightarrow> 'o \<Rightarrow> string \<Rightarrow> string \<Rightarrow> payload option \<Rightarrow> string \<Rightarrow> 's \<Rightarrow> 's \<times> gossip_error option" where
  "gossip_BroadcastExcept M orc msgType requestID pl exceptPeerID s =
     (case protocol_Encode msgType requestID pl of
        None \<Rightarrow> (s, Some EncodeFailed)
      | Some msg \<Rightarrow> (pmi_BroadcastExcept M orc msg exceptPeerID s, None))"

section \<open>Recognising messages\<close>

datatype gossip_op = GForward gotime Envelope | GCollect gotime

fun gossip_step :: "gossip_op \<Rightarrow> Gossip \<Rightarrow> Gossip" where
  "gossip_step (GForward now env) g = fst (ShouldForward now env g)"
| "gossip_step (GCollect now) g = gossip_gc now g"

fun collectTimes :: "gossip_op list \<Rightarrow> gotime list" where
  "collectTimes [] = []"
| "collectTimes (GForward now env # ops) = collectTimes ops"
| "collectTimes (GCollect now # ops) = now # collectTimes ops"

lemma gossip_step_maxAge [simp]: "g_maxAge (gossip_step op g) = g_maxAge g"
  by (cases op) (simp_all add: ShouldForward_def gossip_gc_def Let_def)

lemma ShouldForward_seen:
  "snd (ShouldForward now env g) \<longleftrightarrow> g_seen g (messageID env) = None"
  "snd (ShouldForward now env g) \<Longrightarrow> g_seen (fst (ShouldForward now env g)) = (g_seen g)(messageID env \<mapsto> now)"
  by (auto simp: ShouldForward_def Let_def split: if_splits)

lemma seen_kept:
  assumes "g_seen g mid = Some t" and "\<forall>now \<in> set (collectTimes ops). now \<le> t + g_maxAge g"
  shows "g_seen (fold gossip_step ops g) mid = Some t"
  using assms
proof (induction ops arbitrary: g)
  case (Cons op ops)
  have "g_seen (gossip_step op g) mid = Some t"
    using Cons.prems by (cases op) (auto simp: ShouldForward_def gossip_gc_def Let_def)
  moreover have "\<forall>now \<in> set (collectTimes ops). now \<le> t + g_maxAge (gossip_step op g)"
    unfolding gossip_step_maxAge using Cons.prems(2) by (cases op) simp_all
  ultimately show ?case using Cons.IH [of "gossip_step op g"] by simp
qed simp

text \<open>C24. A message is taken once: when a node has accepted a message, it refuses every message with the same
  ID, whatever other messages arrive in between, as long as no collection has run more than five minutes
  after the acceptance; a collection that does run later makes it accept such a message again.\<close>

theorem message_taken_once:
  assumes "snd (ShouldForward t env g)" and "messageID env' = messageID env" and "g_maxAge g = g_maxAge gossip_New"
    and "\<forall>now \<in> set (collectTimes ops). now \<le> t + 300000000000"
  defines "g' \<equiv> fold gossip_step ops (fst (ShouldForward t env g))"
  shows "\<not> snd (ShouldForward t' env' g') \<and> (now > t + 300000000000 \<longrightarrow> snd (ShouldForward t' env' (gossip_gc now g')))"
proof -
  let ?g = "fst (ShouldForward t env g)"
  have age: "g_maxAge ?g = 300000000000"
    using assms(3) gossip_step_maxAge [of "GForward t env" g] by (simp add: gossip_New_def Minute_def Second_def)
  have age': "g_maxAge (fold gossip_step ops h) = g_maxAge h" for h by (induction ops arbitrary: h) simp_all
  have "g_seen ?g (messageID env) = Some t" using ShouldForward_seen(2) [OF assms(1)] by simp
  then have "g_seen g' (messageID env) = Some t" unfolding g'_def using assms(4) age by (intro seen_kept) simp_all
  then show ?thesis by (simp add: ShouldForward_seen(1) assms(2) gossip_gc_def g'_def age' age)
qed

definition exampleEnv :: Envelope where
  "exampleEnv = \<lparr>env_Type = MsgSubmitResult, env_RequestID = '''', env_Payload = Some ''{}''\<rparr>"

theorem message_taken_once_witness:
  "\<not> snd (ShouldForward 9 exampleEnv (fold gossip_step [GCollect 60000000000, GCollect 120000000000] (fst (ShouldForward 5 exampleEnv gossip_New)))) \<and>
   snd (ShouldForward 9 exampleEnv (gossip_gc 400000000000
     (fold gossip_step [GCollect 60000000000, GCollect 120000000000] (fst (ShouldForward 5 exampleEnv gossip_New)))))"
proof -
  have new: "snd (ShouldForward 5 exampleEnv gossip_New)" by (simp add: ShouldForward_seen(1) gossip_New_def)
  show ?thesis
    using message_taken_once [OF new refl refl, of "[GCollect 60000000000, GCollect 120000000000]" 9 400000000000] by simp
qed

section \<open>Forwarding keeps the ID\<close>

lemma marshalRaw_again: "marshalRaw m = Some v \<Longrightarrow> marshalRaw (marshalRaw m) = Some v"
  using marshalRaw_jtext [of m v] by (simp add: marshalRaw_def compact_jtext)

lemma jtext_not_empty: "marshalRaw m = Some v \<Longrightarrow> v \<noteq> []"
  using marshalRaw_jtext [of m v] by (auto simp: jtext_def)

lemma marshal_submit_again:
  assumes "\<forall>m \<in> set (raws (PSubmitResult p)). wellNested m" and "toValidUTF8 (srp_TaskID p) = srp_TaskID p"
    and "unmarshal_SubmitResult (json_Marshal (PSubmitResult p)) = Some p'"
  shows "json_Marshal (PSubmitResult p') = json_Marshal (PSubmitResult p)"
proof -
  have p': "p' = \<lparr>srp_TaskID = srp_TaskID p, srp_Data = marshalRaw (srp_Data p),
      srp_Meta = (if elems (srp_Meta p) = [] then None else marshalRaw (srp_Meta p))\<rparr>"
    using unmarshal_submit_json [OF assms(1)] assms(2,3) by simp
  obtain d where d: "marshalRaw (srp_Data p) = Some d"
    using assms(1) marshalRaw_depth2 [of "srp_Data p"] by (auto simp: raws_def)
  show ?thesis
  proof (cases "elems (srp_Meta p) = []")
    case True
    then show ?thesis using d marshalRaw_again [OF d] by (simp add: p' json_Marshal_def omitempty_def)
  next
    case False
    then obtain u where u: "marshalRaw (srp_Meta p) = Some u"
      using assms(1) marshalRaw_depth2 [of "srp_Meta p"] by (auto simp: raws_def)
    then show ?thesis using d marshalRaw_again [OF d] marshalRaw_again [OF u] jtext_not_empty [OF u] False
      by (simp add: p' json_Marshal_def omitempty_def)
  qed
qed

lemma marshal_diff_again:
  assumes "\<forall>m \<in> set (rawsOf d). wellNested m" and "toValidUTF8 (od_ObjectID d) = od_ObjectID d"
  shows "marshal_ObjectDiff (receivedDiff d) = marshal_ObjectDiff d"
proof -
  obtain v where v: "marshalRaw (od_Data d) = Some v"
    using assms(1) marshalRaw_depth [of "od_Data d"] by (auto simp: rawsOf_def)
  show ?thesis
  proof (cases "elems (od_Meta d) = []")
    case True
    then show ?thesis using v marshalRaw_again [OF v] assms(2) by (simp add: receivedDiff_def marshal_ObjectDiff_def omitempty_def)
  next
    case False
    then obtain u where u: "marshalRaw (od_Meta d) = Some u"
      using assms(1) marshalRaw_depth [of "od_Meta d"] by (auto simp: rawsOf_def)
    then show ?thesis using v marshalRaw_again [OF v] marshalRaw_again [OF u] jtext_not_empty [OF u] False assms(2)
      by (simp add: receivedDiff_def marshal_ObjectDiff_def omitempty_def)
  qed
qed


lemma submit_hop:
  assumes "\<forall>m \<in> set (raws (PSubmitResult p)). wellNested m" and "toValidUTF8 (srp_TaskID p) = srp_TaskID p" and "toValidUTF8 rid = rid"
  obtains b env p' where "protocol_Encode MsgSubmitResult rid (Some (PSubmitResult p)) = Some b" and "unmarshal_Envelope b = Some env"
    and "unmarshal_SubmitResult (env_Payload env) = Some p'"
    and "protocol_Encode MsgSubmitResult (env_RequestID env) (Some (PSubmitResult p')) = Some b"
proof -
  let ?q = "(MsgSubmitResult, rid, Some (PSubmitResult p))"
  have q: "encodable ?q" using assms(1) by (simp add: encodable_def)
  obtain b where b: "protocol_Encode MsgSubmitResult rid (Some (PSubmitResult p)) = Some b" "unmarshal_Envelope b = Some (received ?q)"
    using datagram_decodes [OF q] by auto
  obtain p' where p': "unmarshal_SubmitResult (json_Marshal (PSubmitResult p)) = Some p'" using unmarshal_submit_json [OF assms(1)] by blast
  have "protocol_Encode MsgSubmitResult rid (Some (PSubmitResult p')) = Some b"
    using b(1) marshal_submit_again [OF assms(1,2) p'] by (simp add: protocol_Encode_def)
  with b p' that [of b "received ?q" p'] show thesis by (simp add: received_def assms(3))
qed

lemma update_hop:
  assumes "\<forall>m \<in> set (rawsOf d). wellNested m" and "toValidUTF8 (od_ObjectID d) = od_ObjectID d" and "toValidUTF8 rid = rid"
  obtains b env where "protocol_Encode MsgWorldUpdate rid (Some (PWorldUpdate \<lparr>wup_Objects = Some [d]\<rparr>)) = Some b"
    and "unmarshal_Envelope b = Some env"
    and "unmarshal_WorldUpdate (env_Payload env) = Some \<lparr>wup_Objects = Some [receivedDiff d]\<rparr>"
    and "protocol_Encode MsgWorldUpdate (env_RequestID env) (Some (PWorldUpdate \<lparr>wup_Objects = Some [receivedDiff d]\<rparr>)) = Some b"
proof -
  let ?p = "PWorldUpdate \<lparr>wup_Objects = Some [d]\<rparr>"
  let ?q = "(MsgWorldUpdate, rid, Some ?p)"
  have nested: "\<forall>m \<in> set (raws ?p). wellNested m" using assms(1) by (simp add: raws_WorldUpdate)
  then have q: "encodable ?q" by (simp add: encodable_def)
  obtain b where b: "protocol_Encode MsgWorldUpdate rid (Some ?p) = Some b" "unmarshal_Envelope b = Some (received ?q)"
    using datagram_decodes [OF q] by auto
  have "protocol_Encode MsgWorldUpdate rid (Some (PWorldUpdate \<lparr>wup_Objects = Some [receivedDiff d]\<rparr>)) = Some b"
    using b(1) marshal_diff_again [OF assms(1,2)] by (simp add: protocol_Encode_def json_Marshal_def)
  with b that [of b "received ?q"] unmarshal_update_json [OF nested] show thesis by (simp add: received_def assms(3))
qed

text \<open>C20. Forwarding changes nothing on the wire: when a node decodes a submission, or a world update of one object,
  that some node has encoded, and encodes it again with the same request ID, it writes the very bytes it has
  received, so every node computes the same message ID, over any number of hops.  (The IDs of the task, of
  the object and of the request must be valid UTF-8, and the raw messages well-formed JSON or nil.)\<close>

theorem forwarding_is_faithful:
  assumes "\<forall>m \<in> set (raws (PSubmitResult p)). wellNested m" and "toValidUTF8 (srp_TaskID p) = srp_TaskID p"
    and "\<forall>m \<in> set (rawsOf d). wellNested m" and "toValidUTF8 (od_ObjectID d) = od_ObjectID d"
    and "toValidUTF8 rid = rid"
  shows "(\<exists>b env p'. protocol_Encode MsgSubmitResult rid (Some (PSubmitResult p)) = Some b \<and> unmarshal_Envelope b = Some env \<and>
       unmarshal_SubmitResult (env_Payload env) = Some p' \<and>
       protocol_Encode MsgSubmitResult (env_RequestID env) (Some (PSubmitResult p')) = Some b) \<and>
     (\<exists>b env d'. protocol_Encode MsgWorldUpdate rid (Some (PWorldUpdate \<lparr>wup_Objects = Some [d]\<rparr>)) = Some b \<and>
       unmarshal_Envelope b = Some env \<and> unmarshal_WorldUpdate (env_Payload env) = Some \<lparr>wup_Objects = Some [d']\<rparr> \<and>
       protocol_Encode MsgWorldUpdate (env_RequestID env) (Some (PWorldUpdate \<lparr>wup_Objects = Some [d']\<rparr>)) = Some b)"
proof (rule conjI)
  obtain b env p' where "protocol_Encode MsgSubmitResult rid (Some (PSubmitResult p)) = Some b" "unmarshal_Envelope b = Some env"
    "unmarshal_SubmitResult (env_Payload env) = Some p'"
    "protocol_Encode MsgSubmitResult (env_RequestID env) (Some (PSubmitResult p')) = Some b" by (rule submit_hop [OF assms(1,2,5)])
  then show "\<exists>b env p'. protocol_Encode MsgSubmitResult rid (Some (PSubmitResult p)) = Some b \<and> unmarshal_Envelope b = Some env \<and>
       unmarshal_SubmitResult (env_Payload env) = Some p' \<and>
       protocol_Encode MsgSubmitResult (env_RequestID env) (Some (PSubmitResult p')) = Some b" by (intro exI conjI)
next
  obtain b env where "protocol_Encode MsgWorldUpdate rid (Some (PWorldUpdate \<lparr>wup_Objects = Some [d]\<rparr>)) = Some b"
    "unmarshal_Envelope b = Some env" "unmarshal_WorldUpdate (env_Payload env) = Some \<lparr>wup_Objects = Some [receivedDiff d]\<rparr>"
    "protocol_Encode MsgWorldUpdate (env_RequestID env) (Some (PWorldUpdate \<lparr>wup_Objects = Some [receivedDiff d]\<rparr>)) = Some b"
    by (rule update_hop [OF assms(3-5)])
  then show "\<exists>b env d'. protocol_Encode MsgWorldUpdate rid (Some (PWorldUpdate \<lparr>wup_Objects = Some [d]\<rparr>)) = Some b \<and>
       unmarshal_Envelope b = Some env \<and> unmarshal_WorldUpdate (env_Payload env) = Some \<lparr>wup_Objects = Some [d']\<rparr> \<and>
       protocol_Encode MsgWorldUpdate (env_RequestID env) (Some (PWorldUpdate \<lparr>wup_Objects = Some [d']\<rparr>)) = Some b" by (intro exI conjI)
qed

definition exampleDiff :: ObjectDiff where
  "exampleDiff = \<lparr>od_ObjectID = ''door'', od_Data = None, od_Version = 3, od_Meta = None\<rparr>"

theorem forwarding_is_faithful_witness:
  "\<exists>b env p'. protocol_Encode MsgSubmitResult ''r1'' (Some (PSubmitResult exampleSubmit)) = Some b \<and> unmarshal_Envelope b = Some env \<and>
       unmarshal_SubmitResult (env_Payload env) = Some p' \<and>
       protocol_Encode MsgSubmitResult (env_RequestID env) (Some (PSubmitResult p')) = Some b"
proof -
  have valid: "toValidUTF8 ''r1'' = ''r1''" "toValidUTF8 (od_ObjectID exampleDiff) = od_ObjectID exampleDiff"
    "toValidUTF8 (srp_TaskID exampleSubmit) = srp_TaskID exampleSubmit"
    by (rule toValidUTF8_ascii, simp add: code_def exampleDiff_def exampleSubmit_def)+
  have "\<forall>m \<in> set (rawsOf exampleDiff). wellNested m" by (simp add: exampleDiff_def rawsOf_def wellNested_def)
  from forwarding_is_faithful [OF exampleSubmit_nested valid(3) this valid(2,1)] show ?thesis by blast
qed

section \<open>Broadcasts\<close>

context peering_manager
begin

lemma gossip_sends:
  "gossip_Broadcast M orc t rid pl s =
     (case protocol_Encode t rid pl of None \<Rightarrow> (s, Some EncodeFailed) | Some msg \<Rightarrow> (pm_send M orc (msg, None) s, None))"
  "gossip_BroadcastExcept M orc t rid pl x s =
     (case protocol_Encode t rid pl of None \<Rightarrow> (s, Some EncodeFailed) | Some msg \<Rightarrow> (pm_send M orc (msg, Some x) s, None))"
  by (simp_all add: gossip_Broadcast_def gossip_BroadcastExcept_def pm_send_def split: option.split)

lemma gossip_keeps:
  assumes "valid s"
  shows "valid (fst (gossip_Broadcast M orc t rid pl s))" and "valid (fst (gossip_BroadcastExcept M orc t rid pl x s))"
  using assms by (simp_all add: gossip_sends send_keeps split: option.split)

lemma gossip_orders:
  "orders orc' (fst (gossip_BroadcastExcept M orc t rid pl x s)) = orders orc' s"
  "orders orc' (fst (gossip_Broadcast M orc t rid pl s)) = orders orc' s"
  by (simp_all add: gossip_sends send_keeps(2) split: option.split)

lemma gossip_events:
  "pmi_Events M (fst (gossip_BroadcastExcept M orc t rid pl x s)) = pmi_Events M s"
  "pmi_Events M (fst (gossip_Broadcast M orc t rid pl s)) = pmi_Events M s"
  by (simp_all add: gossip_sends pm_send_def Broadcast_events BroadcastExcept_events split: option.split)

lemma gossip_outboxes:
  assumes "valid s" and "orders orc s" and "protocol_Encode t rid pl = Some msg"
  shows "outboxes (fst (gossip_BroadcastExcept M orc t rid pl x s)) pid =
    (if pid = x then outboxes s pid else map_option (\<lambda>q. chan_offer outboxCap q msg) (outboxes s pid))"
  using assms by (simp add: gossip_BroadcastExcept_def BroadcastExcept_outboxes)

end

end
