(* ===== verification/PeeringTcp.thy ===== *)
theory PeeringTcp imports Peering "HOL-Library.AList" begin

text \<open>
  The TCP manager of peers, \<open>internal/peering/peering.go\<close>.

  \<open>Peer\<close>s live in a heap because the goroutines of their connections keep pointers to them.  The map of the
  peers is an association list, whose length is \<open>len(m.peers)\<close>; where the order in which Go ranges over it
  could matter, the order is the argument \<open>ks\<close>.  A connection's input is the list of the bytes that arrive
  before it ends.  Each operation below is one critical section, or a sequence of them without
  interference of other goroutines; \<open>pm_run\<close> interleaves them in any order.

  The lemmas show the invariant of the manager, what a broadcast does to the outboxes (the contract
  \<open>peering_manager\<close>), which events a connection produces, and that what one node broadcasts is what the
  node at the other end reports.
\<close>

section \<open>Peers\<close>

record Peer =
  pr_ID :: string
  pr_Addr :: string
  pr_outbox :: "bytes list"
  pr_connOpen :: bool
  pr_closeOnce :: bool
  pr_closed :: bool

definition newPeer :: "string \<Rightarrow> string \<Rightarrow> Peer" where
  "newPeer pid addr = \<lparr>pr_ID = pid, pr_Addr = addr, pr_outbox = [], pr_connOpen = True, pr_closeOnce = False, pr_closed = False\<rparr>"

definition peer_Send :: "bytes \<Rightarrow> Peer \<Rightarrow> Peer \<times> string option" where
  "peer_Send msg p =
     (if pr_closed p then (p, Some ''peer closed'')
      else (p\<lparr>pr_outbox := chan_offer outboxCap (pr_outbox p) msg\<rparr>, None))"

definition peer_Close :: "Peer \<Rightarrow> Peer" where
  "peer_Close p =
     (if pr_closeOnce p then p else p\<lparr>pr_closeOnce := True, pr_closed := True, pr_connOpen := False\<rparr>)"

definition peer_IsClosed :: "Peer \<Rightarrow> bool" where
  "peer_IsClosed p = pr_closed p"

section \<open>The manager\<close>

type_synonym pptr = nat

record PeerManager =
  pm_heap :: "pptr \<Rightarrow> Peer"
  pm_next :: pptr
  pm_peers :: "(string \<times> pptr) list"
  pm_listener :: "string option"
  pm_events :: "PeerEvent list"
  pm_stopped :: bool

record TcpOracle =
  to_order :: "string list"
  to_error :: "string option"
  to_addr :: string
  to_nanos :: gotime

definition pm_New :: PeerManager where
  "pm_New = \<lparr>pm_heap = (\<lambda>_. newPeer '''' ''''), pm_next = 0, pm_peers = [], pm_listener = None, pm_events = [], pm_stopped = False\<rparr>"

definition pm_at :: "pptr \<Rightarrow> (Peer \<Rightarrow> Peer) \<Rightarrow> PeerManager \<Rightarrow> PeerManager" where
  "pm_at p f m = m\<lparr>pm_heap := (pm_heap m)(p := f (pm_heap m p))\<rparr>"

definition pm_emit :: "PeerEvent \<Rightarrow> PeerManager \<Rightarrow> PeerManager" where
  "pm_emit evt m = m\<lparr>pm_events := chan_offer eventsCap (pm_events m) evt\<rparr>"

definition pm_Listen :: "TcpOracle \<Rightarrow> string \<Rightarrow> PeerManager \<Rightarrow> PeerManager \<times> string option" where
  \<comment> \<open>\<open>to_error\<close>: the error of \<open>net.Listen\<close>; \<open>to_addr\<close>: the address of the listener\<close>
  "pm_Listen orc addr m =
     (case to_error orc of
        Some err \<Rightarrow> (m, Some (''listen '' @ addr @ '': '' @ err))
      | None \<Rightarrow> (m\<lparr>pm_listener := Some (to_addr orc)\<rparr>, None))"

definition pm_Addr :: "PeerManager \<Rightarrow> string" where
  "pm_Addr m = (case pm_listener m of None \<Rightarrow> '''' | Some a \<Rightarrow> a)"

definition pm_PeerCount :: "PeerManager \<Rightarrow> nat" where
  "pm_PeerCount m = length (pm_peers m)"

definition pm_addPeer :: "pptr \<Rightarrow> PeerManager \<Rightarrow> PeerManager" where
  "pm_addPeer p m = m\<lparr>pm_peers := AList.update (pr_ID (pm_heap m p)) p (pm_peers m)\<rparr>"

definition pm_removePeer :: "string \<Rightarrow> PeerManager \<Rightarrow> PeerManager" where
  "pm_removePeer pid m =
     (case map_of (pm_peers m) pid of
        None \<Rightarrow> m
      | Some p \<Rightarrow> pm_at p peer_Close (m\<lparr>pm_peers := AList.delete pid (pm_peers m)\<rparr>))"

definition peerID :: "gotime \<Rightarrow> nat \<Rightarrow> string" where
  \<comment> \<open>the time is \<open>UnixNano\<close>\<close>
  "peerID nanos n = ''peer-'' @ showInt nanos @ ''-'' @ showNat n"

definition pm_open :: "gotime \<Rightarrow> string \<Rightarrow> PeerManager \<Rightarrow> pptr \<times> PeerManager" where
  \<comment> \<open>the start of a connection, inbound or dialed\<close>
  "pm_open nanos addr m =
     (let pid = peerID nanos (length (pm_peers m));
          p = pm_next m;
          m1 = m\<lparr>pm_heap := (pm_heap m)(p := newPeer pid addr), pm_next := Suc p\<rparr>
      in (p, pm_emit (connectedEvent pid) (pm_addPeer p m1)))"

definition pm_line :: "string \<Rightarrow> bytes \<Rightarrow> PeerManager \<Rightarrow> PeerManager" where
  "pm_line pid line m =
     (case unmarshal_Envelope line of
        None \<Rightarrow> m
      | Some env \<Rightarrow> pm_emit (messageEvent pid env) m)"

definition pm_readLoop :: "string \<Rightarrow> bytes \<Rightarrow> PeerManager \<Rightarrow> PeerManager" where
  "pm_readLoop pid input m = fold (pm_line pid) (readLines input) m"

definition pm_finish :: "string \<Rightarrow> PeerManager \<Rightarrow> PeerManager" where
  \<comment> \<open>the deferred function of a connection\<close>
  "pm_finish pid m = pm_emit (closedEvent pid) (pm_removePeer pid m)"

definition pm_handleInbound :: "gotime \<Rightarrow> string \<Rightarrow> bytes \<Rightarrow> PeerManager \<Rightarrow> PeerManager" where
  "pm_handleInbound nanos remoteAddr input m =
     (let (p, m1) = pm_open nanos remoteAddr m;
          pid = pr_ID (pm_heap m1 p)
      in pm_finish pid (pm_readLoop pid input m1))"

definition pm_Dial :: "TcpOracle \<Rightarrow> string \<Rightarrow> PeerManager \<Rightarrow> PeerManager \<times> string option" where
  \<comment> \<open>\<open>to_error\<close>: the error of \<open>net.DialTimeout\<close>; the connection goes on with \<open>pm_handleOutbound\<close>\<close>
  "pm_Dial orc addr m =
     (case to_error orc of
        Some err \<Rightarrow> (m, Some (''dial '' @ addr @ '': '' @ err))
      | None \<Rightarrow> (snd (pm_open (to_nanos orc) addr m), None))"

definition pm_handleOutbound :: "pptr \<Rightarrow> bytes \<Rightarrow> PeerManager \<Rightarrow> PeerManager" where
  "pm_handleOutbound p input m =
     (let pid = pr_ID (pm_heap m p) in pm_finish pid (pm_readLoop pid input m))"

definition pm_snapshot :: "string list \<Rightarrow> PeerManager \<Rightarrow> pptr list" where
  "pm_snapshot ks m = range_values (\<lambda>_ p. Some p) (map_of (pm_peers m)) ks"

definition pm_Broadcast :: "string list \<Rightarrow> bytes \<Rightarrow> PeerManager \<Rightarrow> PeerManager" where
  "pm_Broadcast ks msg m = fold (\<lambda>p. pm_at p (\<lambda>pr. fst (peer_Send msg pr))) (pm_snapshot ks m) m"

definition pm_BroadcastExcept :: "string list \<Rightarrow> bytes \<Rightarrow> string \<Rightarrow> PeerManager \<Rightarrow> PeerManager" where
  "pm_BroadcastExcept ks msg exceptPeerID m =
     fold (\<lambda>p m. if pr_ID (pm_heap m p) = exceptPeerID then m else pm_at p (\<lambda>pr. fst (peer_Send msg pr)) m) (pm_snapshot ks m) m"

definition pm_acceptLoop :: "(bool \<times> 'c option) list \<Rightarrow> 'c list \<times> bool" where
  \<comment> \<open>each accepted connection is given to a goroutine that runs \<open>pm_handleInbound\<close>\<close>
  "pm_acceptLoop = acceptLoop"

definition pm_Stop :: "PeerManager \<Rightarrow> PeerManager" where
  \<comment> \<open>without the wait for the goroutines at the end\<close>
  "pm_Stop m = fold (\<lambda>(_, p). pm_at p peer_Close) (pm_peers m) (m\<lparr>pm_stopped := True\<rparr>)"

definition pm_Receive :: "PeerManager \<Rightarrow> (PeerEvent \<times> PeerManager) option" where
  "pm_Receive m = map_option (\<lambda>(evt, q). (evt, m\<lparr>pm_events := q\<rparr>)) (chan_poll (pm_events m))"

fun pm_writeLoop :: "write_event list \<Rightarrow> pptr \<Rightarrow> PeerManager \<times> bytes \<Rightarrow> (PeerManager \<times> bytes) \<times> bool" where
  \<comment> \<open>the result tells whether the loop still runs; a receive from an empty outbox waits\<close>
  "pm_writeLoop [] p s = (s, True)"
| "pm_writeLoop (WCancel # evs) p s = (s, False)"
| "pm_writeLoop (WMsg ok1 ok2 # evs) p (m, out) =
     (case chan_poll (pr_outbox (pm_heap m p)) of
        None \<Rightarrow> pm_writeLoop evs p (m, out)
      | Some (msg, q) \<Rightarrow>
          let m' = pm_at p (\<lambda>pr. pr\<lparr>pr_outbox := q\<rparr>) m in
          if \<not> ok1 then ((m', out), False)
          else if \<not> ok2 then ((m', out @ msg), False)
          else pm_writeLoop evs p (m', out @ msg @ [NL]))"

definition tcpManager :: "(TcpOracle, PeerManager) PeeringManager" where
  "tcpManager =
     \<lparr>pmi_Listen = pm_Listen, pmi_Dial = pm_Dial, pmi_Broadcast = (\<lambda>orc. pm_Broadcast (to_order orc)),
      pmi_BroadcastExcept = (\<lambda>orc. pm_BroadcastExcept (to_order orc)), pmi_Events = pm_events, pmi_Receive = pm_Receive,
      pmi_PeerCount = pm_PeerCount, pmi_Addr = pm_Addr, pmi_Stop = pm_Stop\<rparr>"


section \<open>Lemmas\<close>

definition pm_outboxes :: "PeerManager \<Rightarrow> string \<rightharpoonup> bytes list" where
  "pm_outboxes m pid =
     (case map_of (pm_peers m) pid of
        None \<Rightarrow> None
      | Some p \<Rightarrow> if pr_closed (pm_heap m p) then None else Some (pr_outbox (pm_heap m p)))"

definition peer_ok :: "Peer \<Rightarrow> bool" where
  "peer_ok pr \<longleftrightarrow> length (pr_outbox pr) \<le> outboxCap \<and> pr_closed pr = pr_closeOnce pr \<and> pr_connOpen pr = (\<not> pr_closed pr)"

definition pm_ok :: "PeerManager \<Rightarrow> bool" where
  "pm_ok m \<longleftrightarrow> distinct (map fst (pm_peers m)) \<and> length (pm_events m) \<le> eventsCap \<and> (\<forall>p. peer_ok (pm_heap m p)) \<and>
     (\<forall>pid p. map_of (pm_peers m) pid = Some p \<longrightarrow> p < pm_next m \<and> pr_ID (pm_heap m p) = pid \<and>
        (pr_closed (pm_heap m p) \<longrightarrow> pm_stopped m))"

lemma peer_Send_sel [simp]:
  "pr_ID (fst (peer_Send msg p)) = pr_ID p"
  "pr_closed (fst (peer_Send msg p)) = pr_closed p"
  "pr_outbox (fst (peer_Send msg p)) = (if pr_closed p then pr_outbox p else chan_offer outboxCap (pr_outbox p) msg)"
  by (simp_all add: peer_Send_def)

interpretation peerchan: lossy_sender "\<lambda>msg p. fst (peer_Send msg p)" pr_outbox "\<lambda>p. \<not> pr_closed p" outboxCap
  by unfold_locales (simp_all add: peer_Send_def)

interpretation eventchan: lossy_sender pm_emit pm_events "\<lambda>_. True" eventsCap
  by unfold_locales (simp_all add: pm_emit_def)

lemma peer_ok_Send: "peer_ok p \<Longrightarrow> peer_ok (fst (peer_Send msg p))"
  by (simp add: peer_ok_def peer_Send_def chan_offer_bound)

lemma peer_ok_Close: "peer_ok p \<Longrightarrow> peer_ok (peer_Close p)"
  by (simp add: peer_ok_def peer_Close_def)

lemma peer_Close_sel [simp]:
  "pr_ID (peer_Close p) = pr_ID p" "pr_outbox (peer_Close p) = pr_outbox p"
  by (simp_all add: peer_Close_def)

lemma peer_Close_closed: "peer_ok p \<Longrightarrow> pr_closed (peer_Close p)"
  by (simp add: peer_ok_def peer_Close_def)

lemma pm_at_sel [simp]:
  "pm_heap (pm_at p f m) = (pm_heap m)(p := f (pm_heap m p))"
  "pm_next (pm_at p f m) = pm_next m" "pm_peers (pm_at p f m) = pm_peers m" "pm_listener (pm_at p f m) = pm_listener m"
  "pm_events (pm_at p f m) = pm_events m" "pm_stopped (pm_at p f m) = pm_stopped m"
  by (simp_all add: pm_at_def)

lemma pm_emit_sel [simp]:
  "pm_heap (pm_emit evt m) = pm_heap m" "pm_next (pm_emit evt m) = pm_next m" "pm_peers (pm_emit evt m) = pm_peers m"
  "pm_listener (pm_emit evt m) = pm_listener m" "pm_stopped (pm_emit evt m) = pm_stopped m"
  by (simp_all add: pm_emit_def)

lemma pm_okD:
  assumes "pm_ok m"
  shows "distinct (map fst (pm_peers m))" and "peer_ok (pm_heap m p)" and "length (pm_events m) \<le> eventsCap"
    and "map_of (pm_peers m) pid = Some p \<Longrightarrow> pr_ID (pm_heap m p) = pid"
    and "map_of (pm_peers m) pid = Some p \<Longrightarrow> p < pm_next m"
  using assms by (simp_all add: pm_ok_def)

lemma pm_ok_inj:
  assumes "pm_ok m" and "map_of (pm_peers m) k = Some p" and "map_of (pm_peers m) k' = Some p"
  shows "k = k'"
  using pm_okD(4) [OF assms(1,2)] pm_okD(4) [OF assms(1,3)] by simp

lemma snapshot_facts:
  assumes "pm_ok m" and "enumerates ks (map_of (pm_peers m))"
  shows "distinct (pm_snapshot ks m)" and "map_of (pm_peers m) k = Some p \<Longrightarrow> p \<in> set (pm_snapshot ks m)"
proof -
  show "distinct (pm_snapshot ks m)"
    unfolding pm_snapshot_def
  proof (rule distinct_range_values)
    show "distinct ks" using assms(2) by blast
  qed (use pm_ok_inj [OF assms(1)] in auto)
  show "p \<in> set (pm_snapshot ks m)" if "map_of (pm_peers m) k = Some p"
    using that by (auto simp: pm_snapshot_def set_range_values_enum [OF assms(2)])
qed

text \<open>A loop over peers that changes the heap at each of them.\<close>

lemma fold_pm_at:
  "pm_heap (fold (\<lambda>p. pm_at p f) ps m) = fold (\<lambda>p h. h(p := f (h p))) ps (pm_heap m)"
  "pm_next (fold (\<lambda>p. pm_at p f) ps m) = pm_next m" "pm_peers (fold (\<lambda>p. pm_at p f) ps m) = pm_peers m"
  "pm_listener (fold (\<lambda>p. pm_at p f) ps m) = pm_listener m" "pm_events (fold (\<lambda>p. pm_at p f) ps m) = pm_events m"
  "pm_stopped (fold (\<lambda>p. pm_at p f) ps m) = pm_stopped m"
  by (induction ps arbitrary: m) simp_all

text \<open>Leaving out a peer by its ID is doing nothing at it.\<close>

lemma Except_eq:
  "pm_BroadcastExcept ks msg pid m =
     fold (\<lambda>p. pm_at p (\<lambda>pr. if pr_ID pr = pid then pr else fst (peer_Send msg pr))) (pm_snapshot ks m) m"
proof -
  have "(\<lambda>p m. if pr_ID (pm_heap m p) = pid then m else pm_at p (\<lambda>pr. fst (peer_Send msg pr)) m) =
      (\<lambda>p. pm_at p (\<lambda>pr. if pr_ID pr = pid then pr else fst (peer_Send msg pr)))"
    by (intro ext) (simp add: pm_at_def)
  then show ?thesis by (simp only: pm_BroadcastExcept_def)
qed

lemma pm_ok_heap:
  assumes "pm_ok m" and "\<And>pr. peer_ok pr \<Longrightarrow> peer_ok (f pr)" and "\<And>pr. pr_ID (f pr) = pr_ID pr" and "\<And>pr. pr_closed (f pr) = pr_closed pr"
  shows "pm_ok (pm_at p f m)"
  using assms by (auto simp: pm_ok_def)

lemma pm_ok_heap_fold:
  assumes "\<And>pr. peer_ok pr \<Longrightarrow> peer_ok (f pr)" and "\<And>pr. pr_ID (f pr) = pr_ID pr" and "\<And>pr. pr_closed (f pr) = pr_closed pr"
  shows "pm_ok m \<Longrightarrow> pm_ok (fold (\<lambda>p. pm_at p f) ps m)"
  by (induction ps arbitrary: m) (simp_all add: pm_ok_heap assms)

lemma pm_ok_Broadcast: "pm_ok m \<Longrightarrow> pm_ok (pm_Broadcast ks msg m)"
  unfolding pm_Broadcast_def by (rule pm_ok_heap_fold) (simp_all add: peer_ok_Send)

lemma pm_ok_BroadcastExcept: "pm_ok m \<Longrightarrow> pm_ok (pm_BroadcastExcept ks msg pid m)"
  unfolding Except_eq by (rule pm_ok_heap_fold) (simp_all add: peer_ok_Send)

lemma outboxes_fold:
  assumes "pm_ok m" and "enumerates ks (map_of (pm_peers m))" and "\<And>pr. pr_closed (f pr) = pr_closed pr"
  shows "pm_outboxes (fold (\<lambda>p. pm_at p f) (pm_snapshot ks m) m) pid =
    (case map_of (pm_peers m) pid of
       None \<Rightarrow> None
     | Some p \<Rightarrow> if pr_closed (pm_heap m p) then None else Some (pr_outbox (f (pm_heap m p))))"
  using snapshot_facts [OF assms(1,2)]
  by (simp add: pm_outboxes_def fold_pm_at fold_heap_upd assms(3) split: option.splits)

lemma pm_Broadcast_outboxes:
  assumes "pm_ok m" and "enumerates ks (map_of (pm_peers m))"
  shows "pm_outboxes (pm_Broadcast ks msg m) pid = map_option (\<lambda>q. chan_offer outboxCap q msg) (pm_outboxes m pid)"
  unfolding pm_Broadcast_def by (subst outboxes_fold [OF assms]) (simp_all add: pm_outboxes_def split: option.splits)

lemma pm_BroadcastExcept_outboxes:
  assumes "pm_ok m" and "enumerates ks (map_of (pm_peers m))"
  shows "pm_outboxes (pm_BroadcastExcept ks msg pid' m) pid =
    (if pid = pid' then pm_outboxes m pid else map_option (\<lambda>q. chan_offer outboxCap q msg) (pm_outboxes m pid))"
  unfolding Except_eq
  by (subst outboxes_fold [OF assms]) (auto simp: pm_outboxes_def pm_okD(4) [OF assms(1)] split: option.splits)

lemma pm_Receive_iff:
  "pm_Receive m = Some (evt, m') \<longleftrightarrow> (\<exists>es. pm_events m = evt # es \<and> m' = m\<lparr>pm_events := es\<rparr>)"
  "pm_Receive m = None \<longleftrightarrow> pm_events m = []"
  by (auto simp: pm_Receive_def chan_poll_def split: list.splits)

interpretation tcp: peering_manager tcpManager pm_ok "\<lambda>orc m. enumerates (to_order orc) (map_of (pm_peers m))" pm_outboxes
proof unfold_locales
  show "length q \<le> outboxCap" if "pm_ok m" "pm_outboxes m pid = Some q" for m pid q
    using that pm_okD(2) [OF that(1)] by (auto simp: pm_outboxes_def peer_ok_def split: option.splits if_splits)
next
  fix m m' :: PeerManager and evt orc
  assume "pmi_Receive tcpManager m = Some (evt, m')"
  then obtain es where m': "pm_events m = evt # es" "m' = m\<lparr>pm_events := es\<rparr>" by (auto simp: tcpManager_def pm_Receive_iff)
  then show "pmi_Events tcpManager m = evt # pmi_Events tcpManager m'" by (simp add: tcpManager_def)
  show "pm_outboxes m' = pm_outboxes m" by (auto simp: m' pm_outboxes_def fun_eq_iff split: option.split)
  show "enumerates (to_order orc) (map_of (pm_peers m')) = enumerates (to_order orc) (map_of (pm_peers m))" by (simp add: m')
  show "pm_ok m \<Longrightarrow> pm_ok m'" by (auto simp: m' pm_ok_def)
qed (simp_all add: tcpManager_def pm_Receive_iff pm_Broadcast_outboxes pm_BroadcastExcept_outboxes pm_ok_Broadcast pm_ok_BroadcastExcept,
  simp_all add: pm_Broadcast_def Except_eq fold_pm_at)

section \<open>The invariant\<close>

lemma pm_ok_emit: "pm_ok m \<Longrightarrow> pm_ok (pm_emit evt m)"
  by (auto simp: pm_ok_def pm_emit_def chan_offer_bound)

lemma pm_ok_New: "pm_ok pm_New"
  by (simp add: pm_ok_def pm_New_def peer_ok_def newPeer_def)

lemma peer_ok_new: "peer_ok (newPeer pid addr)" "\<not> pr_closed (newPeer pid addr)" "pr_ID (newPeer pid addr) = pid"
  by (simp_all add: peer_ok_def newPeer_def)

lemma pm_open_peers: "pm_peers (snd (pm_open nanos addr m)) = AList.update (peerID nanos (length (pm_peers m))) (pm_next m) (pm_peers m)"
  by (simp add: pm_open_def pm_addPeer_def Let_def peer_ok_new)

lemma pm_ok_open: "pm_ok m \<Longrightarrow> pm_ok (snd (pm_open nanos addr m))"
  unfolding pm_open_def Let_def snd_conv
proof (rule pm_ok_emit)
  assume ok: "pm_ok m"
  then have "map_of (pm_peers m) pid \<noteq> Some (pm_next m)" for pid using pm_okD(5) [OF ok, of pid "pm_next m"] by auto
  then show "pm_ok (pm_addPeer (pm_next m) (m\<lparr>pm_heap := (pm_heap m)(pm_next m := newPeer (peerID nanos (length (pm_peers m))) addr),
      pm_next := Suc (pm_next m)\<rparr>))"
    using ok by (simp add: pm_ok_def pm_addPeer_def distinct_update update_conv' peer_ok_new less_Suc_eq del: map_of_eq_Some_iff)
qed

lemma pm_ok_line: "pm_ok m \<Longrightarrow> pm_ok (pm_line pid line m)"
  by (simp add: pm_line_def pm_ok_emit split: option.splits)

lemma pm_ok_close:
  assumes "pm_ok m" and "\<forall>pid. map_of (pm_peers m) pid = Some p \<longrightarrow> pm_stopped m"
  shows "pm_ok (pm_at p peer_Close m)"
  using assms by (auto simp: pm_ok_def peer_ok_Close)

lemma pm_ok_remove:
  assumes "pm_ok m"
  shows "pm_ok (pm_removePeer pid m)"
proof (cases "map_of (pm_peers m) pid")
  case None
  then show ?thesis using assms by (simp add: pm_removePeer_def)
next
  case (Some p)
  let ?m = "m\<lparr>pm_peers := AList.delete pid (pm_peers m)\<rparr>"
  have "pm_ok ?m" using assms by (auto simp: pm_ok_def distinct_delete delete_conv' split: if_splits)
  moreover have "map_of (pm_peers ?m) k \<noteq> Some p" for k
    using pm_ok_inj [OF assms Some, of k] by (auto simp: delete_conv' split: if_splits)
  ultimately show ?thesis using Some by (simp add: pm_removePeer_def pm_ok_close)
qed

lemma pm_ok_finish: "pm_ok m \<Longrightarrow> pm_ok (pm_finish pid m)"
  by (simp add: pm_finish_def pm_ok_emit pm_ok_remove)

lemma pm_ok_Stop:
  assumes "pm_ok m"
  shows "pm_ok (pm_Stop m)"
proof -
  have "pm_ok (fold (\<lambda>(_, p). pm_at p peer_Close) ps m')" if "pm_ok m'" "pm_stopped m'" for ps and m' :: PeerManager
    using that by (induction ps arbitrary: m') (auto simp: pm_ok_close)
  moreover have "pm_ok (m\<lparr>pm_stopped := True\<rparr>)" using assms by (simp add: pm_ok_def)
  ultimately show ?thesis unfolding pm_Stop_def by (elim meta_allE meta_impE) simp_all
qed

lemma pm_ok_poll:
  assumes "pm_ok m" and "chan_poll (pr_outbox (pm_heap m p)) = Some (msg, q)"
  shows "pm_ok (pm_at p (\<lambda>pr. pr\<lparr>pr_outbox := q\<rparr>) m)"
proof -
  have "pr_outbox (pm_heap m p) = msg # q" using assms(2) by (simp add: chan_poll_def split: list.splits)
  with pm_okD(2) [OF assms(1), of p] have "peer_ok ((pm_heap m p)\<lparr>pr_outbox := q\<rparr>)" by (simp add: peer_ok_def)
  with assms(1) show ?thesis by (simp add: pm_ok_def)
qed

lemma pm_ok_write: "pm_ok m \<Longrightarrow> pm_ok (fst (fst (pm_writeLoop evs p (m, out))))"
proof (induction evs arbitrary: m out)
  case (Cons ev evs)
  then show ?case
    by (cases ev) (auto simp: Let_def pm_ok_poll split: option.splits)
qed simp

lemma pm_ok_Receive: "pm_ok m \<Longrightarrow> pm_Receive m = Some (evt, m') \<Longrightarrow> pm_ok m'"
  by (auto simp: pm_Receive_def chan_poll_def pm_ok_def split: list.splits)

text \<open>The operations of the goroutines, in any order.\<close>

datatype pm_op =
    PmListen TcpOracle string
  | PmDial TcpOracle string
  | PmAccept gotime string
  | PmLine string bytes
  | PmFinish string
  | PmWrite pptr "write_event list"
  | PmSend TcpOracle "bytes \<times> string option"
  | PmReceive
  | PmStop

fun pm_step :: "pm_op \<Rightarrow> PeerManager \<Rightarrow> PeerManager" where
  "pm_step (PmListen orc addr) m = fst (pm_Listen orc addr m)"
| "pm_step (PmDial orc addr) m = fst (pm_Dial orc addr m)"
| "pm_step (PmAccept nanos addr) m = snd (pm_open nanos addr m)"
| "pm_step (PmLine pid line) m = pm_line pid line m"
| "pm_step (PmFinish pid) m = pm_finish pid m"
| "pm_step (PmWrite p evs) m = fst (fst (pm_writeLoop evs p (m, [])))"
| "pm_step (PmSend orc mx) m = pm_send tcpManager orc mx m"
| "pm_step PmReceive m = (case pm_Receive m of None \<Rightarrow> m | Some (evt, m') \<Rightarrow> m')"
| "pm_step PmStop m = pm_Stop m"

definition pm_run :: "pm_op list \<Rightarrow> PeerManager \<Rightarrow> PeerManager" where
  "pm_run ops m = fold pm_step ops m"

lemma pm_ok_step:
  assumes "pm_ok m"
  shows "pm_ok (pm_step op m)"
proof (cases op)
  case (PmListen orc addr)
  then show ?thesis using assms by (auto simp: pm_Listen_def pm_ok_def split: option.splits)
next
  case (PmDial orc addr)
  then show ?thesis using assms by (simp add: pm_Dial_def pm_ok_open split: option.splits)
next
  case PmReceive
  then show ?thesis using assms by (auto dest: pm_ok_Receive split: option.splits)
qed (simp_all add: assms pm_ok_open pm_ok_line pm_ok_finish pm_ok_write pm_ok_Stop tcp.send_keeps(1))

lemma pm_ok_run: "pm_ok m \<Longrightarrow> pm_ok (pm_run ops m)"
  unfolding pm_run_def by (induction ops arbitrary: m) (simp_all add: pm_ok_step)


section \<open>Events of a connection\<close>

definition decodable :: "bytes \<Rightarrow> Envelope list" where
  \<comment> \<open>the envelopes in the lines of an input\<close>
  "decodable input = List.map_filter unmarshal_Envelope (readLines input)"

lemma readLoop_emits: "pm_readLoop pid input m = fold pm_emit (map (messageEvent pid) (decodable input)) m"
proof -
  have "fold (pm_line pid) ls m = fold pm_emit (map (messageEvent pid) (List.map_filter unmarshal_Envelope ls)) m" for ls
    by (induction ls arbitrary: m) (simp_all add: List.map_filter_simps pm_line_def split: option.splits)
  then show ?thesis by (simp add: pm_readLoop_def decodable_def)
qed

lemma emits_sel [simp]:
  "pm_heap (fold pm_emit es m) = pm_heap m" "pm_peers (fold pm_emit es m) = pm_peers m" "pm_next (fold pm_emit es m) = pm_next m"
  by (induction es arbitrary: m) simp_all

lemma removePeer_sel [simp]:
  "pm_events (pm_removePeer pid m) = pm_events m"
  "map_of (pm_peers (pm_removePeer pid m)) = (map_of (pm_peers m))(pid := None)"
  by (auto simp: pm_removePeer_def delete_conv' fun_upd_idem split: option.splits)

lemma handleInbound_eq:
  "pm_handleInbound nanos addr input m =
     (let (p, m1) = pm_open nanos addr m; pid = peerID nanos (length (pm_peers m))
      in pm_emit (closedEvent pid) (pm_removePeer pid (fold pm_emit (map (messageEvent pid) (decodable input)) m1)))"
  by (simp add: pm_handleInbound_def pm_open_def pm_addPeer_def Let_def pm_finish_def readLoop_emits peer_ok_new)

text \<open>C25. A connection is reported from its start to its end: while the event queue has room, serving an
  inbound connection appends a connected event, one message event for each line of the input that is an
  envelope, in order, and a closed event, all with the ID of the connection's peer; lines that are not
  envelopes are skipped without ending the connection; afterwards the peer is no longer registered and the
  other peers are as before.\<close>

theorem connection_events:
  fixes addr :: string
  assumes "map_of (pm_peers m) (peerID nanos (length (pm_peers m))) = None"
    and "length (pm_events m) + length (decodable input) + 2 \<le> eventsCap"
  defines "pid \<equiv> peerID nanos (length (pm_peers m))" and "m' \<equiv> pm_handleInbound nanos addr input m"
  shows "pm_events m' = pm_events m @ [connectedEvent pid] @ map (messageEvent pid) (decodable input) @ [closedEvent pid] \<and>
     map_of (pm_peers m') = map_of (pm_peers m)"
proof -
  obtain p m1 where m1: "pm_open nanos addr m = (p, m1)" by fastforce
  then have opened: "pm_events m1 = pm_events m @ [connectedEvent pid]" "map_of (pm_peers m1) = (map_of (pm_peers m))(pid \<mapsto> p)"
    using assms(2) by (auto simp: pm_open_def pm_addPeer_def Let_def pm_emit_def chan_offer_def update_conv' peer_ok_new pid_def)
  have read: "pm_events (fold pm_emit (map (messageEvent pid) (decodable input)) m1) =
      pm_events m1 @ map (messageEvent pid) (decodable input)"
    using eventchan.offers_lossless [of m1 "map (messageEvent pid) (decodable input)"] assms(2) by (simp add: opened)
  have m': "m' = pm_emit (closedEvent pid) (pm_removePeer pid (fold pm_emit (map (messageEvent pid) (decodable input)) m1))"
    by (simp add: m'_def handleInbound_eq m1 Let_def pid_def)
  have "pm_events m' = pm_events m @ [connectedEvent pid] @ map (messageEvent pid) (decodable input) @ [closedEvent pid]"
    using assms(2) by (simp add: m' pm_emit_def chan_offer_def read opened)
  moreover have "map_of (pm_peers m') = map_of (pm_peers m)"
    using assms(1) by (simp add: m' opened fun_upd_idem pid_def)
  ultimately show ?thesis by simp
qed

theorem connection_events_witness:
  "pm_events (pm_handleInbound 7 ''10.0.0.1:5'' (frame (MsgPing, ''r1'', None) @ ''half'') pm_New) =
     [connectedEvent ''peer-7-0'', messageEvent ''peer-7-0'' (received (MsgPing, ''r1'', None)), closedEvent ''peer-7-0'']"
proof -
  have "map unmarshal_Envelope (readLines (concat (map frame [(MsgPing, ''r1'', None)]) @ ''half'')) = [Some (received (MsgPing, ''r1'', None))]"
    by (subst frames_decode) (simp_all add: encodable_def NL_def)
  then obtain l where "readLines (frame (MsgPing, ''r1'', None) @ ''half'') = [l]" "unmarshal_Envelope l = Some (received (MsgPing, ''r1'', None))"
    by auto
  then have d: "decodable (frame (MsgPing, ''r1'', None) @ ''half'') = [received (MsgPing, ''r1'', None)]"
    by (simp add: decodable_def List.map_filter_simps)
  have pid: "peerID 7 0 = ''peer-7-0''" by (simp add: peerID_def showInt_def showNat.simps digitChar_numeral)
  show ?thesis
    using connection_events [of pm_New 7 "frame (MsgPing, ''r1'', None) @ ''half''" "''10.0.0.1:5''"]
    by (simp add: d pid pm_New_def eventsCap_def)
qed


section \<open>From one node to another\<close>

lemma pm_writeLoop_drains:
  assumes "pr_outbox (pm_heap m p) = ms" and "length ms \<le> n"
  shows "pm_writeLoop (replicate n (WMsg True True)) p (m, out) =
    ((pm_at p (\<lambda>pr. pr\<lparr>pr_outbox := []\<rparr>) m, out @ concat (map (\<lambda>b. b @ [NL]) ms)), True)"
  using assms
proof (induction n arbitrary: m ms out)
  case 0
  then show ?case by (simp add: pm_at_def fun_upd_idem)
next
  case (Suc n)
  show ?case
  proof (cases ms)
    case Nil
    then have "pm_at p (\<lambda>pr. pr\<lparr>pr_outbox := []\<rparr>) m = m" using Suc.prems(1) by (simp add: pm_at_def fun_upd_idem)
    then show ?thesis using Suc.IH [of m "[]" out] Suc.prems(1) Nil by (simp add: chan_poll_def)
  next
    case (Cons x xs)
    let ?m = "pm_at p (\<lambda>pr. pr\<lparr>pr_outbox := xs\<rparr>) m"
    have "pm_at p (\<lambda>pr. pr\<lparr>pr_outbox := []\<rparr>) ?m = pm_at p (\<lambda>pr. pr\<lparr>pr_outbox := []\<rparr>) m" by (simp add: pm_at_def)
    then show ?thesis
      using Suc.IH [of ?m xs "out @ x @ [NL]"] Suc.prems Cons by (simp add: chan_poll_def)
  qed
qed

definition wire :: "request \<Rightarrow> bytes" where
  \<comment> \<open>the bytes that are broadcast for a message\<close>
  "wire q = elems (protocol_Encode (fst q) (fst (snd q)) (snd (snd q)))"

lemma frame_wire: "encodable q \<Longrightarrow> frame q = wire q @ [NL]"
  by (simp add: frame_elems wire_def)

lemma decodable_frames: "\<forall>q \<in> set qs. encodable q \<Longrightarrow> decodable (concat (map frame qs)) = map received qs"
proof -
  assume "\<forall>q \<in> set qs. encodable q"
  from frames_decode [OF this, of "[]"]
  have "map unmarshal_Envelope (readLines (concat (map frame qs))) = map Some (map received qs)" by simp
  then have "List.map_filter id (map unmarshal_Envelope (readLines (concat (map frame qs)))) = List.map_filter id (map Some (map received qs))"
    by simp
  then show ?thesis by (simp add: decodable_def List.map_filter_def filter_map o_def)
qed

text \<open>C7. What one node broadcasts is what the other reports: when a manager broadcasts messages that can be
  encoded, at most as many as fit into the peer's empty outbox, the peer's write loop writes, and the node at
  the other end reads what was written, then that node reports exactly these messages, decoded, in order, as
  events of its peer, provided its queue has room.\<close>

theorem tcp_link_delivers:
  fixes orc :: TcpOracle and a b :: PeerManager
  assumes "pm_ok a" and "enumerates (to_order orc) (map_of (pm_peers a))"
    and "map_of (pm_peers a) pid = Some p" and "\<not> pr_closed (pm_heap a p)" and "pr_outbox (pm_heap a p) = []"
    and "\<forall>q \<in> set qs. encodable q" and "length qs \<le> 256" and "length (pm_events b) + length qs \<le> 1024"
  shows "\<exists>a' out. pm_writeLoop (replicate (length qs) (WMsg True True)) p
        (fold (\<lambda>q. pm_Broadcast (to_order orc) (wire q)) qs a, []) = ((a', out), True) \<and>
      pm_outboxes a' pid = Some [] \<and> pm_events (pm_readLoop bid out b) = pm_events b @ map (\<lambda>q. messageEvent bid (received q)) qs"
proof -
  let ?ms = "map (\<lambda>q. (wire q, None :: string option)) qs"
  let ?a = "fold (pm_send tcpManager orc) ?ms a"
  have same: "fold (\<lambda>q. pm_Broadcast (to_order orc) (wire q)) qs a = ?a"
    by (simp add: fold_map o_def pm_send_def tcpManager_def)
  have out: "pm_outboxes a pid = Some []" using assms(3-5) by (simp add: pm_outboxes_def)
  have addr: "addressed pid ?ms = map wire qs" by (simp add: addressed_def filter_map o_def)
  have "pm_outboxes ?a pid = Some (map wire qs)"
    using tcp.sends_lossless [OF assms(1,2) out, of ?ms] assms(7) by (simp add: addr outboxCap_def)
  moreover have "pm_peers ?a = pm_peers a"
  proof -
    have "pm_peers (pm_send tcpManager orc mx m) = pm_peers m" for mx m
      by (simp add: pm_send_def tcpManager_def pm_Broadcast_def Except_eq fold_pm_at split: option.splits)
    then have "pm_peers (fold (pm_send tcpManager orc) ms m) = pm_peers m" for ms m
      by (induction ms arbitrary: m) simp_all
    then show ?thesis .
  qed
  ultimately have p: "pr_outbox (pm_heap ?a p) = map wire qs" "\<not> pr_closed (pm_heap ?a p)" "map_of (pm_peers ?a) pid = Some p"
    using assms(3) by (auto simp: pm_outboxes_def split: if_splits)
  have frames: "concat (map (\<lambda>b. b @ [NL]) (map wire qs)) = concat (map frame qs)"
    using assms(6) by (intro arg_cong [where f = concat]) (simp add: frame_wire)
  have "pm_events (pm_readLoop bid (concat (map frame qs)) b) = pm_events b @ map (\<lambda>q. messageEvent bid (received q)) qs"
    using eventchan.offers_lossless [of b "map (messageEvent bid) (map received qs)"] assms(8)
    by (simp add: readLoop_emits decodable_frames [OF assms(6)] eventsCap_def o_def)
  with p show ?thesis
    unfolding same using pm_writeLoop_drains [OF p(1), of "length qs" "[]"] by (simp only: frames) (simp add: pm_outboxes_def)
qed

definition exampleTcp :: PeerManager where
  "exampleTcp = snd (pm_open 7 ''10.0.0.1:5'' pm_New)"

lemma exampleTcp_facts:
  "pm_ok exampleTcp" "pm_peers exampleTcp = [(''peer-7-0'', 0)]" "pm_heap exampleTcp 0 = newPeer ''peer-7-0'' ''10.0.0.1:5''"
proof -
  show "pm_ok exampleTcp" by (simp add: exampleTcp_def pm_ok_open pm_ok_New)
  have "peerID 7 0 = ''peer-7-0''" by (simp add: peerID_def showInt_def showNat.simps)
  then show "pm_peers exampleTcp = [(''peer-7-0'', 0)]" "pm_heap exampleTcp 0 = newPeer ''peer-7-0'' ''10.0.0.1:5''"
    by (simp_all add: exampleTcp_def pm_open_def pm_New_def pm_addPeer_def Let_def peer_ok_new)
qed

definition exampleTcpOracle :: TcpOracle where
  "exampleTcpOracle = \<lparr>to_order = [''peer-7-0''], to_error = None, to_addr = '''', to_nanos = 9\<rparr>"

theorem tcp_link_delivers_witness:
  "\<exists>a' out. pm_writeLoop (replicate 2 (WMsg True True)) 0
        (fold (\<lambda>q. pm_Broadcast [''peer-7-0''] (wire q)) [(MsgPing, ''r1'', None), (MsgPong, ''r2'', None)] exampleTcp, []) = ((a', out), True) \<and>
      pm_events (pm_readLoop ''b'' out pm_New) =
        [messageEvent ''b'' (received (MsgPing, ''r1'', None)), messageEvent ''b'' (received (MsgPong, ''r2'', None))]"
proof -
  have enum: "enumerates (to_order exampleTcpOracle) (map_of (pm_peers exampleTcp))"
    by (simp add: exampleTcpOracle_def enumerates_def exampleTcp_facts)
  have enc: "\<forall>q \<in> set [(MsgPing, ''r1'', None), (MsgPong, ''r2'', None)]. encodable q" by (simp add: encodable_def)
  have p: "map_of (pm_peers exampleTcp) ''peer-7-0'' = Some 0" "\<not> pr_closed (pm_heap exampleTcp 0)" "pr_outbox (pm_heap exampleTcp 0) = []"
    by (simp_all add: exampleTcp_facts newPeer_def)
  have room: "length (pm_events pm_New) + length [(MsgPing, ''r1'', None :: payload option), (MsgPong, ''r2'', None)] \<le> 1024"
    by (simp add: pm_New_def)
  have [simp]: "pm_events pm_New = []" by (simp add: pm_New_def)
  from tcp_link_delivers [OF exampleTcp_facts(1) enum p enc _ room, where bid = "''b''"]
  show ?thesis by (simp add: exampleTcpOracle_def numeral_2_eq_2) blast
qed


section \<open>Properties of the manager\<close>

text \<open>C15. Whatever the goroutines of the manager do, in any order: an outbox holds at most 256 messages and
  the event queue at most 1024; each registered peer is filed under its own ID, no ID occurs twice, and,
  until the manager is stopped, the connection of every registered peer is open.\<close>

theorem tcp_manager_invariant:
  fixes ops :: "pm_op list"
  defines "m \<equiv> pm_run ops pm_New"
  shows "distinct (map fst (pm_peers m)) \<and> length (pm_events m) \<le> 1024 \<and> (\<forall>p. length (pr_outbox (pm_heap m p)) \<le> 256) \<and>
     (\<forall>pid p. map_of (pm_peers m) pid = Some p \<longrightarrow>
        pr_ID (pm_heap m p) = pid \<and> (pm_stopped m \<or> pr_connOpen (pm_heap m p) \<and> \<not> peer_IsClosed (pm_heap m p)))"
proof -
  have "pm_ok m" by (simp add: m_def pm_ok_run pm_ok_New)
  then show ?thesis by (auto simp: pm_ok_def peer_ok_def peer_IsClosed_def outboxCap_def eventsCap_def)
qed

theorem tcp_manager_invariant_witness:
  "pr_connOpen (pm_heap (pm_run [PmAccept 7 ''10.0.0.1:5''] pm_New) 0)"
proof -
  have "pm_run [PmAccept 7 ''10.0.0.1:5''] pm_New = exampleTcp" by (simp add: pm_run_def exampleTcp_def)
  moreover have "map_of (pm_peers exampleTcp) ''peer-7-0'' = Some 0" "\<not> pm_stopped exampleTcp"
    by (simp_all add: exampleTcp_facts) (simp add: exampleTcp_def pm_open_def pm_New_def pm_addPeer_def Let_def)
  ultimately show ?thesis using tcp_manager_invariant [of "[PmAccept 7 ''10.0.0.1:5'']"] by simp
qed

text \<open>Peer IDs can collide: an ID is the time and the number of the registered peers, and that number
  falls again when a peer leaves.  When a second connection is open, the first one ends, and a third starts
  at the clock reading of the second, then the third takes the ID of the second, whose connection stays open
  but is in no map any more: no broadcast reaches it, and the count is one too small.\<close>

theorem peer_ids_collide:
  fixes t :: gotime and a b c :: string
  defines "m2 \<equiv> snd (pm_open t b (snd (pm_open t a pm_New)))"
  defines "m \<equiv> snd (pm_open t c (pm_finish (peerID t 0) m2))"
  shows "pr_ID (pm_heap m 1) = peerID t 1 \<and> pr_connOpen (pm_heap m 1) \<and> pr_ID (pm_heap m 2) = peerID t 1 \<and>
     pm_peers m = [(peerID t 1, 2)] \<and> pm_PeerCount m = 1 \<and>
     pr_outbox (pm_heap (pm_Broadcast ks msg m) 1) = []"
proof -
  have ids: "peerID t 0 \<noteq> peerID t 1" "peerID t 1 \<noteq> peerID t 0"
    by (auto simp: peerID_def dest: showNat_inject [THEN iffD1])
  have m2: "pm_peers m2 = [(peerID t 0, 0), (peerID t 1, 1)]" "pm_next m2 = 2"
    "pm_heap m2 = (pm_heap pm_New)(0 := newPeer (peerID t 0) a, 1 := newPeer (peerID t 1) b)"
    using ids by (simp_all add: m2_def pm_open_def pm_New_def pm_addPeer_def Let_def newPeer_def eval_nat_numeral)
  have m: "pm_peers m = [(peerID t 1, 2)]"
    "pm_heap m = (pm_heap pm_New)(0 := peer_Close (newPeer (peerID t 0) a), 1 := newPeer (peerID t 1) b, 2 := newPeer (peerID t 1) c)"
    using ids m2 by (auto simp: m_def pm_open_def pm_finish_def pm_removePeer_def pm_addPeer_def Let_def newPeer_def fun_upd_twist)
  have "pm_snapshot ks m = replicate (length (pm_snapshot ks m)) 2"
    by (intro replicate_eqI) (auto simp: pm_snapshot_def m set_range_values split: if_splits)
  then have "1 \<notin> set (pm_snapshot ks m)" by (metis in_set_replicate numeral_eq_one_iff semiring_norm(85))
  then have "pm_heap (pm_Broadcast ks msg m) 1 = pm_heap m 1"
    unfolding pm_Broadcast_def fold_pm_at by (rule fold_heap_other)
  then show ?thesis by (simp add: m pm_PeerCount_def newPeer_def)
qed

text \<open>A failed write silences a peer for good: after the first write error its write loop has ended, but
  the peer stays registered and open, no closed event is reported, and the broadcasts that follow fill its
  outbox and then drop their messages, without an error.\<close>

theorem failed_write_silences_peer:
  fixes orc :: TcpOracle and m :: PeerManager
  assumes "pm_ok m" and "enumerates (to_order orc) (map_of (pm_peers m))"
    and "map_of (pm_peers m) pid = Some p" and "\<not> pr_closed (pm_heap m p)" and "pr_outbox (pm_heap m p) = msg # q"
  shows "\<exists>m'. pm_writeLoop (WMsg False ok # evs) p (m, out) = ((m', out), False) \<and>
     pm_peers m' = pm_peers m \<and> pm_events m' = pm_events m \<and>
     (\<forall>msgs. pm_outboxes (fold (\<lambda>b. pm_Broadcast (to_order orc) b) msgs m') pid = Some (q @ take (256 - length q) msgs))"
proof -
  let ?m = "pm_at p (\<lambda>pr. pr\<lparr>pr_outbox := q\<rparr>) m"
  have poll: "chan_poll (pr_outbox (pm_heap m p)) = Some (msg, q)" using assms(5) by (simp add: chan_poll_def)
  have out: "pm_outboxes ?m pid = Some q" using assms(3,4) by (simp add: pm_outboxes_def)
  have "pm_outboxes (fold (\<lambda>b. pm_Broadcast (to_order orc) b) msgs ?m) pid = Some (q @ take (256 - length q) msgs)" for msgs
    using tcp.sends_outboxes [OF pm_ok_poll [OF assms(1) poll], of orc "map (\<lambda>b. (b, None)) msgs" pid] assms(2)
    by (simp add: out fold_map o_def pm_send_def tcpManager_def addressed_def filter_map outboxCap_def)
  then show ?thesis using poll by (intro exI [of _ ?m]) (simp add: Let_def)
qed

theorem failed_write_silences_peer_witness:
  "\<exists>m'. pm_writeLoop [WMsg False False] 0 (pm_Broadcast [''peer-7-0''] ''{}'' exampleTcp, []) = ((m', []), False) \<and>
     pm_outboxes (fold (\<lambda>b. pm_Broadcast [''peer-7-0''] b) [''x'', ''y''] m') ''peer-7-0'' = Some [''x'', ''y'']"
proof -
  let ?m = "pm_Broadcast [''peer-7-0''] ''{}'' exampleTcp"
  have m: "pm_peers ?m = [(''peer-7-0'', 0)]" "\<not> pr_closed (pm_heap ?m 0)" "pr_outbox (pm_heap ?m 0) = [''{}'']"
    by (simp_all add: pm_Broadcast_def pm_snapshot_def exampleTcp_facts newPeer_def peer_Send_def chan_offer_def outboxCap_def)
  have ok: "pm_ok ?m" "enumerates (to_order exampleTcpOracle) (map_of (pm_peers ?m))" "map_of (pm_peers ?m) ''peer-7-0'' = Some 0"
    by (simp_all add: pm_ok_Broadcast exampleTcp_facts(1) exampleTcpOracle_def enumerates_def m)
  from failed_write_silences_peer [OF ok m(2,3), of False "[]" "[]"]
  obtain m' where m': "pm_writeLoop [WMsg False False] 0 (?m, []) = ((m', []), False)"
    "\<And>msgs. pm_outboxes (fold (\<lambda>b. pm_Broadcast (to_order exampleTcpOracle) b) msgs m') ''peer-7-0'' = Some (take 256 msgs)"
    by auto
  have "pm_outboxes (fold (\<lambda>b. pm_Broadcast [''peer-7-0''] b) [''x'', ''y''] m') ''peer-7-0'' = Some [''x'', ''y'']"
    using m'(2) [of "[''x'', ''y'']"] by (simp add: exampleTcpOracle_def)
  with m'(1) show ?thesis by blast
qed

end
