(* ===== verification/PeeringUdp.thy ===== *)
theory PeeringUdp imports Peering Ids "HOL-Library.AList" begin

text \<open>
  The UDP manager of peers, \<open>internal/peering/udp.go\<close>.  A peer is known by its ID and by its address; both
  maps lead to the same entry, which lives in a heap because the entry is changed through either of them.
  An address stands for \<open>net.UDPAddr\<close> by its \<open>String()\<close>.  What the manager writes to the socket is returned
  as pairs of an address and a datagram.

  The lemmas show the invariant of the two maps, the contract \<open>peering_manager\<close>, that datagrams keep exactly
  the peers alive that send some, and that the eviction removes exactly the silent ones.
\<close>

section \<open>State\<close>

definition udpMaxDatagramSize :: nat where "udpMaxDatagramSize = 65507"
definition udpPeerTimeout :: duration where "udpPeerTimeout = 30 * Second"

record udpPeer =
  up_id :: string
  up_addr :: string
  up_lastSeen :: gotime
  up_outbox :: "bytes list"
  up_closed :: bool

type_synonym uptr = nat

record UDPManager =
  um_heap :: "uptr \<Rightarrow> udpPeer"
  um_next :: uptr
  um_conn :: "string option"
  um_peers :: "(string \<times> uptr) list"
  um_addrToPeer :: "string \<rightharpoonup> uptr"
  um_events :: "PeerEvent list"
  um_stopped :: bool
  um_counter :: uint64

record UdpOracle =
  uo_order :: "string list"
  uo_resolve :: "string + string"
  uo_error :: "string option"
  uo_addr :: string
  uo_nanos :: gotime
  uo_now :: gotime

type_synonym datagrams = "(string \<times> bytes) list"

definition newUDPPeer :: "gotime \<Rightarrow> string \<Rightarrow> string \<Rightarrow> udpPeer" where
  "newUDPPeer now pid addr = \<lparr>up_id = pid, up_addr = addr, up_lastSeen = now, up_outbox = [], up_closed = False\<rparr>"

definition up_touch :: "gotime \<Rightarrow> udpPeer \<Rightarrow> udpPeer" where
  "up_touch now p = p\<lparr>up_lastSeen := now\<rparr>"

definition up_isExpired :: "gotime \<Rightarrow> udpPeer \<Rightarrow> bool" where
  "up_isExpired now p \<longleftrightarrow> now - up_lastSeen p > udpPeerTimeout"

definition um_New :: UDPManager where
  "um_New = \<lparr>um_heap = (\<lambda>_. newUDPPeer 0 '''' ''''), um_next = 0, um_conn = None, um_peers = [], um_addrToPeer = Map.empty,
     um_events = [], um_stopped = False, um_counter = 0\<rparr>"

definition um_at :: "uptr \<Rightarrow> (udpPeer \<Rightarrow> udpPeer) \<Rightarrow> UDPManager \<Rightarrow> UDPManager" where
  "um_at p f m = m\<lparr>um_heap := (um_heap m)(p := f (um_heap m p))\<rparr>"

definition um_emit :: "PeerEvent \<Rightarrow> UDPManager \<Rightarrow> UDPManager" where
  "um_emit evt m = m\<lparr>um_events := chan_offer eventsCap (um_events m) evt\<rparr>"

section \<open>Operations\<close>

definition um_PeerCount :: "UDPManager \<Rightarrow> nat" where
  "um_PeerCount m = length (um_peers m)"

definition um_Listen :: "UdpOracle \<Rightarrow> string \<Rightarrow> UDPManager \<Rightarrow> UDPManager \<times> string option" where
  "um_Listen orc addr m =
     (case uo_resolve orc of
        Inl err \<Rightarrow> (m, Some (''resolve '' @ addr @ '': '' @ err))
      | Inr _ \<Rightarrow>
          (case uo_error orc of
             Some err \<Rightarrow> (m, Some (''listen udp '' @ addr @ '': '' @ err))
           | None \<Rightarrow> (m\<lparr>um_conn := Some (uo_addr orc)\<rparr>, None)))"

definition um_Addr :: "UDPManager \<Rightarrow> string" where
  "um_Addr m = (case um_conn m of None \<Rightarrow> '''' | Some a \<Rightarrow> a)"

definition um_newPeer :: "gotime \<Rightarrow> gotime \<Rightarrow> string \<Rightarrow> UDPManager \<Rightarrow> uptr \<times> UDPManager" where
  "um_newPeer nanos now addr m =
     (let c = um_counter m + 1; pid = ''udp-peer-'' @ showInt nanos @ ''-'' @ showNat (unat c); p = um_next m
      in (p, m\<lparr>um_counter := c, um_heap := (um_heap m)(p := newUDPPeer now pid addr), um_next := Suc p,
               um_peers := AList.update pid p (um_peers m), um_addrToPeer := (um_addrToPeer m)(addr \<mapsto> p)\<rparr>))"

definition um_Dial :: "UdpOracle \<Rightarrow> string \<Rightarrow> UDPManager \<Rightarrow> UDPManager \<times> string option" where
  "um_Dial orc addr m =
     (case uo_resolve orc of
        Inl err \<Rightarrow> (m, Some (''resolve '' @ addr @ '': '' @ err))
      | Inr key \<Rightarrow>
          (case um_addrToPeer m key of
             Some _ \<Rightarrow> (m, None)
           | None \<Rightarrow>
               let (p, m1) = um_newPeer (uo_nanos orc) (uo_now orc) key m
               in (um_emit (connectedEvent (up_id (um_heap m1 p))) m1, None)))"

definition um_client :: "gotime \<Rightarrow> gotime \<Rightarrow> string \<Rightarrow> UDPManager \<Rightarrow> uptr \<times> UDPManager" where
  \<comment> \<open>the peer at an address, made if there is none\<close>
  "um_client nanos now key m =
     (case um_addrToPeer m key of
        Some p \<Rightarrow> (p, m)
      | None \<Rightarrow>
          let (p, m1) = um_newPeer nanos now key m
          in (p, um_emit (connectedEvent (up_id (um_heap m1 p))) m1))"

definition um_message :: "uptr \<Rightarrow> string \<Rightarrow> bytes \<Rightarrow> UDPManager \<Rightarrow> UDPManager \<times> datagrams" where
  "um_message p addr data m =
     (case unmarshal_Envelope data of
        None \<Rightarrow> (m, [])
      | Some env \<Rightarrow>
          if env_Type env = MsgPong then (m, [])
          else if env_Type env = MsgPing then
            (case protocol_Encode MsgPong (env_RequestID env) None of
               None \<Rightarrow> (m, [])
             | Some pong \<Rightarrow> (m, [(addr, pong)]))
          else (um_emit (messageEvent (up_id (um_heap m p)) env) m, []))"

definition um_handleDatagram ::
    "gotime \<Rightarrow> gotime \<Rightarrow> gotime \<Rightarrow> string \<Rightarrow> bytes \<Rightarrow> UDPManager \<Rightarrow> UDPManager \<times> datagrams" where
  "um_handleDatagram nanos now nowTouch addr data m =
     (let (p, m1) = um_client nanos now addr m;
          m2 = um_at p (up_touch nowTouch) m1
      in um_message p addr data m2)"

definition um_receive :: "bytes \<Rightarrow> bytes" where
  \<comment> \<open>a datagram as the buffer of the read loop takes it\<close>
  "um_receive data = take udpMaxDatagramSize data"

definition um_readLoop :: "(UDPManager \<times> datagrams) udp_read list \<Rightarrow> UDPManager \<times> datagrams \<Rightarrow> (UDPManager \<times> datagrams) \<times> bool" where
  "um_readLoop = udp_readLoop"

definition um_snapshot :: "string list \<Rightarrow> UDPManager \<Rightarrow> uptr list" where
  "um_snapshot ks m = range_values (\<lambda>_ p. Some p) (map_of (um_peers m)) ks"

function um_drain :: "udpPeer \<Rightarrow> udpPeer \<times> bytes list" where
  \<comment> \<open>the inner loop of \<open>flushOutboxes\<close>\<close>
  "um_drain p =
     (case chan_poll (up_outbox p) of
        None \<Rightarrow> (p, [])
      | Some (msg, q) \<Rightarrow> (let (p', msgs) = um_drain (p\<lparr>up_outbox := q\<rparr>) in (p', msg # msgs)))"
  by auto
termination
  by (relation "measure (\<lambda>p. length (up_outbox p))") (auto simp: chan_poll_def split: list.splits)

declare um_drain.simps [simp del]

definition um_flush :: "uptr \<Rightarrow> UDPManager \<Rightarrow> UDPManager \<times> datagrams" where
  "um_flush p m =
     (let (pr, msgs) = um_drain (um_heap m p)
      in (um_at p (\<lambda>_. pr) m, if um_conn m = None then [] else map (\<lambda>msg. (up_addr pr, msg)) msgs))"

definition um_flushOutboxes :: "string list \<Rightarrow> UDPManager \<Rightarrow> UDPManager \<times> datagrams" where
  "um_flushOutboxes ks m = (let (m', out) = thread um_flush (um_snapshot ks m) m in (m', concat out))"

definition um_writeLoop :: "(UDPManager \<times> datagrams) udp_timer list \<Rightarrow> UDPManager \<times> datagrams \<Rightarrow> (UDPManager \<times> datagrams) \<times> bool" where
  "um_writeLoop = udp_writeLoop"

definition um_timeoutLoop :: "(UDPManager \<times> datagrams) udp_timer list \<Rightarrow> UDPManager \<times> datagrams \<Rightarrow> (UDPManager \<times> datagrams) \<times> bool" where
  "um_timeoutLoop = udp_timeoutLoop"

definition um_forget :: "uptr \<Rightarrow> UDPManager \<Rightarrow> UDPManager" where
  "um_forget p m = m\<lparr>um_peers := AList.delete (up_id (um_heap m p)) (um_peers m),
     um_addrToPeer := (um_addrToPeer m)(up_addr (um_heap m p) := None)\<rparr>"

definition um_evictExpired :: "string list \<Rightarrow> (string \<Rightarrow> gotime) \<Rightarrow> UDPManager \<Rightarrow> UDPManager" where
  \<comment> \<open>\<open>now\<close>: the clock reading taken for each peer\<close>
  "um_evictExpired ks now m =
     (let evicted = range_values (\<lambda>pid p. if up_isExpired (now pid) (um_heap m p) then Some p else None) (map_of (um_peers m)) ks;
          m1 = fold um_forget evicted m
      in fold (\<lambda>p. um_emit (closedEvent (up_id (um_heap m p)))) evicted m1)"

definition um_sendHeartbeats :: "string list \<Rightarrow> UDPManager \<Rightarrow> datagrams" where
  "um_sendHeartbeats ks m =
     (case protocol_Encode MsgPing '''' None of
        None \<Rightarrow> []
      | Some ping \<Rightarrow> if um_conn m = None then [] else map (\<lambda>p. (up_addr (um_heap m p), ping)) (um_snapshot ks m))"

definition up_offer :: "bytes \<Rightarrow> udpPeer \<Rightarrow> udpPeer" where
  "up_offer msg p = p\<lparr>up_outbox := chan_offer outboxCap (up_outbox p) msg\<rparr>"

definition um_Broadcast :: "string list \<Rightarrow> bytes \<Rightarrow> UDPManager \<Rightarrow> UDPManager" where
  "um_Broadcast ks msg m = fold (\<lambda>p. um_at p (up_offer msg)) (um_snapshot ks m) m"

definition um_BroadcastExcept :: "string list \<Rightarrow> bytes \<Rightarrow> string \<Rightarrow> UDPManager \<Rightarrow> UDPManager" where
  "um_BroadcastExcept ks msg exceptPeerID m =
     fold (\<lambda>p m. if up_id (um_heap m p) = exceptPeerID then m else um_at p (up_offer msg) m) (um_snapshot ks m) m"

definition um_Stop :: "UDPManager \<Rightarrow> UDPManager" where
  \<comment> \<open>without the wait for the goroutines; the socket is closed\<close>
  "um_Stop m = m\<lparr>um_stopped := True\<rparr>"

definition um_Receive :: "UDPManager \<Rightarrow> (PeerEvent \<times> UDPManager) option" where
  "um_Receive m = map_option (\<lambda>(evt, q). (evt, m\<lparr>um_events := q\<rparr>)) (chan_poll (um_events m))"

definition udpManager :: "(UdpOracle, UDPManager) PeeringManager" where
  "udpManager =
     \<lparr>pmi_Listen = um_Listen, pmi_Dial = um_Dial, pmi_Broadcast = (\<lambda>orc. um_Broadcast (uo_order orc)),
      pmi_BroadcastExcept = (\<lambda>orc. um_BroadcastExcept (uo_order orc)), pmi_Events = um_events, pmi_Receive = um_Receive,
      pmi_PeerCount = um_PeerCount, pmi_Addr = um_Addr, pmi_Stop = um_Stop\<rparr>"


section \<open>Lemmas\<close>

definition um_outboxes :: "UDPManager \<Rightarrow> string \<rightharpoonup> bytes list" where
  "um_outboxes m pid = map_option (\<lambda>p. up_outbox (um_heap m p)) (map_of (um_peers m) pid)"

definition um_ok :: "nat \<Rightarrow> UDPManager \<Rightarrow> bool" where
  \<comment> \<open>the number counts the IDs made so far; the two maps lead to the same peers, by ID and by address\<close>
  "um_ok n m \<longleftrightarrow> distinct (map fst (um_peers m)) \<and> length (um_events m) \<le> eventsCap \<and>
     (\<forall>p. length (up_outbox (um_heap m p)) \<le> outboxCap) \<and> um_counter m = word_of_nat n \<and>
     (\<forall>pid p. map_of (um_peers m) pid = Some p \<longrightarrow> p < um_next m \<and> minted ''udp-peer-'' n pid \<and>
        up_id (um_heap m p) = pid \<and> um_addrToPeer m (up_addr (um_heap m p)) = Some p) \<and>
     (\<forall>a p. um_addrToPeer m a = Some p \<longrightarrow> up_addr (um_heap m p) = a \<and> map_of (um_peers m) (up_id (um_heap m p)) = Some p)"

lemma um_okD:
  assumes "um_ok n m"
  shows "distinct (map fst (um_peers m))" and "length (um_events m) \<le> eventsCap" and "length (up_outbox (um_heap m p)) \<le> outboxCap"
    and "um_counter m = word_of_nat n"
    and "map_of (um_peers m) pid = Some p \<Longrightarrow> up_id (um_heap m p) = pid"
    and "map_of (um_peers m) pid = Some p \<Longrightarrow> p < um_next m"
    and "map_of (um_peers m) pid = Some p \<Longrightarrow> minted ''udp-peer-'' n pid"
    and "map_of (um_peers m) pid = Some p \<Longrightarrow> um_addrToPeer m (up_addr (um_heap m p)) = Some p"
    and "um_addrToPeer m a = Some p \<Longrightarrow> up_addr (um_heap m p) = a"
    and "um_addrToPeer m a = Some p \<Longrightarrow> map_of (um_peers m) (up_id (um_heap m p)) = Some p"
  using assms unfolding um_ok_def by blast+

interpretation udpchan: lossy_sender up_offer up_outbox "\<lambda>_. True" outboxCap
  by unfold_locales (simp_all add: up_offer_def)

interpretation udpevents: lossy_sender um_emit um_events "\<lambda>_. True" eventsCap
  by unfold_locales (simp_all add: um_emit_def)

lemma up_sel [simp]:
  "up_id (up_offer msg p) = up_id p" "up_addr (up_offer msg p) = up_addr p"
  "up_outbox (up_offer msg p) = chan_offer outboxCap (up_outbox p) msg"
  "up_id (up_touch now p) = up_id p" "up_addr (up_touch now p) = up_addr p" "up_outbox (up_touch now p) = up_outbox p"
  by (simp_all add: up_offer_def up_touch_def)

lemma um_at_sel [simp]:
  "um_heap (um_at p f m) = (um_heap m)(p := f (um_heap m p))" "um_next (um_at p f m) = um_next m" "um_conn (um_at p f m) = um_conn m"
  "um_peers (um_at p f m) = um_peers m" "um_addrToPeer (um_at p f m) = um_addrToPeer m" "um_events (um_at p f m) = um_events m"
  "um_stopped (um_at p f m) = um_stopped m" "um_counter (um_at p f m) = um_counter m"
  by (simp_all add: um_at_def)

lemma um_emit_sel [simp]:
  "um_heap (um_emit evt m) = um_heap m" "um_next (um_emit evt m) = um_next m" "um_conn (um_emit evt m) = um_conn m"
  "um_peers (um_emit evt m) = um_peers m" "um_addrToPeer (um_emit evt m) = um_addrToPeer m"
  "um_stopped (um_emit evt m) = um_stopped m" "um_counter (um_emit evt m) = um_counter m"
  by (simp_all add: um_emit_def)

lemma um_ok_New: "um_ok 0 um_New"
  by (simp add: um_ok_def um_New_def newUDPPeer_def)

lemma um_ok_emit: "um_ok n m \<Longrightarrow> um_ok n (um_emit evt m)"
  by (simp add: um_ok_def) (simp add: um_emit_def chan_offer_bound)

lemma um_ok_at:
  assumes "um_ok n m" and "up_id (f (um_heap m p)) = up_id (um_heap m p)" and "up_addr (f (um_heap m p)) = up_addr (um_heap m p)"
    and "length (up_outbox (f (um_heap m p))) \<le> outboxCap"
  shows "um_ok n (um_at p f m)"
  using assms by (simp add: um_ok_def del: map_of_eq_Some_iff)

lemma um_ok_offer: "um_ok n m \<Longrightarrow> um_ok n (um_at p (up_offer msg) m)"
  by (rule um_ok_at) (simp_all add: chan_offer_bound um_okD(3))

lemma um_ok_touch: "um_ok n m \<Longrightarrow> um_ok n (um_at p (up_touch now) m)"
  by (rule um_ok_at) (simp_all add: um_okD(3))

lemma newPeer_eq:
  "um_newPeer nanos now addr m =
     (let pid = stampedID ''udp-peer-'' nanos (um_counter m + 1); p = um_next m
      in (p, m\<lparr>um_counter := um_counter m + 1, um_heap := (um_heap m)(p := newUDPPeer now pid addr), um_next := Suc p,
               um_peers := AList.update pid p (um_peers m), um_addrToPeer := (um_addrToPeer m)(addr \<mapsto> p)\<rparr>))"
  by (simp add: um_newPeer_def stampedID_def Let_def)

lemma um_ok_newPeer:
  assumes "um_ok n m" and "n < 2 ^ 64" and "um_addrToPeer m addr = None"
  shows "um_ok (Suc n) (snd (um_newPeer nanos now addr m))"
proof -
  let ?pid = "stampedID ''udp-peer-'' nanos (word_of_nat n + 1)"
  have fresh: "map_of (um_peers m) ?pid = None"
    using minted_fresh [OF assms(2)] um_okD(7) [OF assms(1)] by (metis not_Some_eq)
  have ptr: "map_of (um_peers m) k \<noteq> Some (um_next m)" for k using um_okD(6) [OF assms(1), of k "um_next m"] by auto
  have ptr': "um_addrToPeer m a \<noteq> Some (um_next m)" for a using um_okD(10) [OF assms(1), of a "um_next m"] ptr by auto
  have addr: "up_addr (um_heap m p) \<noteq> addr" if "map_of (um_peers m) k = Some p" for k p
    using um_okD(8) [OF assms(1) that] assms(3) by auto
  show ?thesis
    using assms(1) fresh ptr ptr' addr minted_new [of "''udp-peer-''" n nanos]
    unfolding um_ok_def newPeer_eq Let_def um_okD(4) [OF assms(1)]
    by (simp add: distinct_update update_conv' newUDPPeer_def del: map_of_eq_Some_iff map_of_eq_None_iff)
      (smt (verit, ccfv_SIG) less_Suc_eq minted_Suc option.distinct(1))
qed

lemma um_forget_sel [simp]:
  "um_heap (um_forget p m) = um_heap m" "um_events (um_forget p m) = um_events m" "um_counter (um_forget p m) = um_counter m"
  "um_next (um_forget p m) = um_next m" "um_conn (um_forget p m) = um_conn m"
  "map_of (um_peers (um_forget p m)) = (map_of (um_peers m))(up_id (um_heap m p) := None)"
  "um_addrToPeer (um_forget p m) = (um_addrToPeer m)(up_addr (um_heap m p) := None)"
  by (simp_all add: um_forget_def delete_conv')

lemma um_ok_forget:
  assumes "um_ok n m" and "map_of (um_peers m) (up_id (um_heap m p)) \<in> {None, Some p}" 
    and "um_addrToPeer m (up_addr (um_heap m p)) \<in> {None, Some p}"
  shows "um_ok n (um_forget p m)"
proof -
  have "distinct (map fst (um_peers (um_forget p m)))" using um_okD(1) [OF assms(1)] by (simp add: um_forget_def distinct_delete)
  moreover have "up_addr (um_heap m q) \<noteq> up_addr (um_heap m p)" if "map_of (um_peers m) k = Some q" "k \<noteq> up_id (um_heap m p)" for k q
    using um_okD(8,5) [OF assms(1) that(1)] assms(3) that by auto
  moreover have "up_id (um_heap m q) \<noteq> up_id (um_heap m p)" if "um_addrToPeer m a = Some q" "a \<noteq> up_addr (um_heap m p)" for a q
    using um_okD(10,9) [OF assms(1) that(1)] assms(2) that by auto
  ultimately show ?thesis
    using assms(1) unfolding um_ok_def um_forget_sel by (simp del: map_of_eq_Some_iff map_of_eq_None_iff)
qed


lemma um_ok_inj:
  assumes "um_ok n m" and "map_of (um_peers m) k = Some p" and "map_of (um_peers m) k' = Some p"
  shows "k = k'"
  using um_okD(5) [OF assms(1,2)] um_okD(5) [OF assms(1,3)] by simp

lemma um_snapshot_facts:
  assumes "um_ok n m" and "enumerates ks (map_of (um_peers m))"
  shows "distinct (um_snapshot ks m)" and "map_of (um_peers m) k = Some p \<Longrightarrow> p \<in> set (um_snapshot ks m)"
proof -
  show "distinct (um_snapshot ks m)"
    unfolding um_snapshot_def
  proof (rule distinct_range_values)
    show "distinct ks" using assms(2) by blast
  qed (use um_ok_inj [OF assms(1)] in auto)
  show "p \<in> set (um_snapshot ks m)" if "map_of (um_peers m) k = Some p"
    using that by (auto simp: um_snapshot_def set_range_values_enum [OF assms(2)])
qed

lemma fold_um_at:
  "um_heap (fold (\<lambda>p. um_at p f) ps m) = fold (\<lambda>p h. h(p := f (h p))) ps (um_heap m)"
  "um_peers (fold (\<lambda>p. um_at p f) ps m) = um_peers m" "um_events (fold (\<lambda>p. um_at p f) ps m) = um_events m"
  by (induction ps arbitrary: m) simp_all

lemma um_Except_eq:
  "um_BroadcastExcept ks msg pid m =
     fold (\<lambda>p. um_at p (\<lambda>pr. if up_id pr = pid then pr else up_offer msg pr)) (um_snapshot ks m) m"
proof -
  have "(\<lambda>p m. if up_id (um_heap m p) = pid then m else um_at p (up_offer msg) m) =
      (\<lambda>p. um_at p (\<lambda>pr. if up_id pr = pid then pr else up_offer msg pr))"
    by (intro ext) (simp add: um_at_def)
  then show ?thesis by (simp only: um_BroadcastExcept_def)
qed

lemma um_ok_sends:
  "um_ok n m \<Longrightarrow> um_ok n (um_Broadcast ks msg m)" "um_ok n m \<Longrightarrow> um_ok n (um_BroadcastExcept ks msg pid m)"
proof -
  have "um_ok n m \<Longrightarrow> um_ok n (fold (\<lambda>p. um_at p (\<lambda>pr. if up_id pr = pid \<and> b then pr else up_offer msg pr)) ps m)" for b ps
    by (induction ps arbitrary: m) (simp_all add: um_ok_at um_okD(3) chan_offer_bound)
  from this [of False] this [of True]
  show "um_ok n m \<Longrightarrow> um_ok n (um_Broadcast ks msg m)" "um_ok n m \<Longrightarrow> um_ok n (um_BroadcastExcept ks msg pid m)"
    by (simp_all add: um_Broadcast_def um_Except_eq)
qed

lemma um_outboxes_fold:
  assumes "um_ok n m" and "enumerates ks (map_of (um_peers m))"
  shows "um_outboxes (fold (\<lambda>p. um_at p f) (um_snapshot ks m) m) pid =
    map_option (\<lambda>p. up_outbox (f (um_heap m p))) (map_of (um_peers m) pid)"
  using um_snapshot_facts [OF assms]
  by (cases "map_of (um_peers m) pid") (simp_all add: um_outboxes_def fold_um_at fold_heap_upd del: map_of_eq_Some_iff)

lemma um_Broadcast_outboxes:
  assumes "um_ok n m" and "enumerates ks (map_of (um_peers m))"
  shows "um_outboxes (um_Broadcast ks msg m) pid = map_option (\<lambda>q. chan_offer outboxCap q msg) (um_outboxes m pid)"
  unfolding um_Broadcast_def um_outboxes_fold [OF assms] by (simp add: um_outboxes_def option.map_comp o_def)

lemma um_BroadcastExcept_outboxes:
  assumes "um_ok n m" and "enumerates ks (map_of (um_peers m))"
  shows "um_outboxes (um_BroadcastExcept ks msg pid' m) pid =
    (if pid = pid' then um_outboxes m pid else map_option (\<lambda>q. chan_offer outboxCap q msg) (um_outboxes m pid))"
  unfolding um_Except_eq um_outboxes_fold [OF assms]
  by (auto simp: um_outboxes_def option.map_comp o_def um_okD(5) [OF assms(1)] intro!: option.map_cong
      simp del: map_of_eq_Some_iff)

lemma um_Receive_iff:
  "um_Receive m = Some (evt, m') \<longleftrightarrow> (\<exists>es. um_events m = evt # es \<and> m' = m\<lparr>um_events := es\<rparr>)"
  "um_Receive m = None \<longleftrightarrow> um_events m = []"
  by (auto simp: um_Receive_def chan_poll_def split: list.splits)

interpretation udp: peering_manager udpManager "um_ok n" "\<lambda>orc m. enumerates (uo_order orc) (map_of (um_peers m))" um_outboxes
proof unfold_locales
  show "length q \<le> outboxCap" if "um_ok n m" "um_outboxes m pid = Some q" for m pid q
    using that um_okD(3) [OF that(1)] by (auto simp: um_outboxes_def)
next
  fix m m' :: UDPManager and evt orc
  assume "pmi_Receive udpManager m = Some (evt, m')"
  then obtain es where m': "um_events m = evt # es" "m' = m\<lparr>um_events := es\<rparr>" by (auto simp: udpManager_def um_Receive_iff)
  then show "pmi_Events udpManager m = evt # pmi_Events udpManager m'" by (simp add: udpManager_def)
  show "um_outboxes m' = um_outboxes m" by (simp add: m' um_outboxes_def fun_eq_iff)
  show "enumerates (uo_order orc) (map_of (um_peers m')) = enumerates (uo_order orc) (map_of (um_peers m))" by (simp add: m')
  show "um_ok n m \<Longrightarrow> um_ok n m'" by (simp add: m' um_ok_def del: map_of_eq_Some_iff)
qed (simp_all add: udpManager_def um_Receive_iff um_Broadcast_outboxes um_BroadcastExcept_outboxes um_ok_sends,
  simp_all add: um_Broadcast_def um_Except_eq fold_um_at)

section \<open>Datagrams\<close>

lemma um_newPeer_sel [simp]:
  "um_heap (snd (um_newPeer nanos now addr m)) = (um_heap m)(um_next m := newUDPPeer now (stampedID ''udp-peer-'' nanos (um_counter m + 1)) addr)"
  "um_addrToPeer (snd (um_newPeer nanos now addr m)) = (um_addrToPeer m)(addr \<mapsto> um_next m)"
  "um_events (snd (um_newPeer nanos now addr m)) = um_events m" "um_conn (snd (um_newPeer nanos now addr m)) = um_conn m"
  "fst (um_newPeer nanos now addr m) = um_next m"
  by (simp_all add: newPeer_eq Let_def)

lemma um_client_eq:
  "um_client nanos now key m =
     (case um_addrToPeer m key of
        Some p \<Rightarrow> (p, m)
      | None \<Rightarrow> (um_next m, um_emit (connectedEvent (stampedID ''udp-peer-'' nanos (um_counter m + 1))) (snd (um_newPeer nanos now key m))))"
  by (simp add: um_client_def split_def newUDPPeer_def split: option.splits)

lemma um_client_ok:
  assumes "um_ok n m" and "n < 2 ^ 64"
  shows "um_ok (if um_addrToPeer m key = None then Suc n else n) (snd (um_client nanos now key m))"
    and "um_addrToPeer (snd (um_client nanos now key m)) key = Some (fst (um_client nanos now key m))"
  using assms by (auto simp: um_client_eq um_ok_emit um_ok_newPeer split: option.splits)

lemma um_message_sel [simp]:
  "um_heap (fst (um_message p addr data m)) = um_heap m" "um_addrToPeer (fst (um_message p addr data m)) = um_addrToPeer m"
  "um_peers (fst (um_message p addr data m)) = um_peers m" "um_conn (fst (um_message p addr data m)) = um_conn m"
  by (simp_all add: um_message_def split: option.splits)

lemma um_ok_message: "um_ok n m \<Longrightarrow> um_ok n (fst (um_message p addr data m))"
  by (simp add: um_message_def um_ok_emit split: option.splits)

lemma um_ok_handleDatagram:
  assumes "um_ok n m" and "n < 2 ^ 64"
  shows "um_ok (if um_addrToPeer m addr = None then Suc n else n) (fst (um_handleDatagram nanos now nowTouch addr data m))"
  using um_client_ok [OF assms, where key = addr and nanos = nanos and now = now]
  by (auto simp: um_handleDatagram_def split_def Let_def um_ok_message um_ok_touch split: if_splits)

text \<open>The ping of a heartbeat and the pong that answers it.\<close>

lemma bare_messages:
  "protocol_Encode t '''' None \<noteq> None"
  "unmarshal_Envelope (elems (protocol_Encode t '''' None)) = Some (received (t, '''', None))"
  using datagram_decodes [of "(t, '''', None)"] by (simp_all add: encodable_def)

lemma received_types:
  "env_Type (received (MsgPing, rid, pl)) = MsgPing" "env_Type (received (MsgPong, rid, pl)) = MsgPong"
  "env_RequestID (received (t, '''', pl)) = ''''"
  by (simp_all add: received_def toValidUTF8_ascii MsgPing_def MsgPong_def code_def)

lemma um_message_ping:
  "um_message p addr (elems (protocol_Encode MsgPing '''' None)) m = (m, [(addr, elems (protocol_Encode MsgPong '''' None))])"
  "um_message p addr (elems (protocol_Encode MsgPong '''' None)) m = (m, [])"
  using bare_messages(1) [of MsgPong]
  by (auto simp: um_message_def bare_messages(2) received_types) (simp_all add: MsgPing_def MsgPong_def)

text \<open>C26. A heartbeat keeps both ends alive and ends there: the heartbeat sends a ping to the address of every
  registered peer; the manager that receives it has the sender as a peer afterwards, just seen, and answers
  with exactly one pong; the manager that receives the pong has just seen its peer and answers nothing, and
  neither of them reports a message event.\<close>

theorem heartbeat_round_trip:
  fixes a b :: UDPManager
  assumes "um_ok k a" and "um_ok n b" and "n < 2 ^ 64" and "um_conn a \<noteq> None"
    and "enumerates ks (map_of (um_peers a))" and "um_addrToPeer a addrB = Some p"
    and "um_handleDatagram nanos now t addrA (elems (protocol_Encode MsgPing '''' None)) b = (b', out)"
    and "um_handleDatagram nanos' now' t' addrB (snd (hd out)) a = (a', out')"
  shows "(addrB, elems (protocol_Encode MsgPing '''' None)) \<in> set (um_sendHeartbeats ks a) \<and>
     out = [(addrA, elems (protocol_Encode MsgPong '''' None))] \<and> out' = [] \<and>
     (\<exists>q. um_addrToPeer b' addrA = Some q \<and> up_lastSeen (um_heap b' q) = t) \<and> up_lastSeen (um_heap a' p) = t' \<and>
     um_events a' = um_events a \<and> (um_addrToPeer b addrA \<noteq> None \<longrightarrow> um_events b' = um_events b)"
proof -
  obtain q b1 where cl: "um_client nanos now addrA b = (q, b1)" by fastforce
  from assms(7) have b': "b' = um_at q (up_touch t) b1" and out: "out = [(addrA, elems (protocol_Encode MsgPong '''' None))]"
    by (simp_all add: um_handleDatagram_def cl um_message_ping)
  have "um_addrToPeer b' addrA = Some q" using um_client_ok(2) [OF assms(2,3), where key = addrA and nanos = nanos and now = now] by (simp add: cl b')
  moreover have "up_lastSeen (um_heap b' q) = t" by (simp add: b' up_touch_def)
  moreover have "um_events b' = um_events b" if "um_addrToPeer b addrA \<noteq> None"
    using that cl by (auto simp: b' um_client_eq)
  moreover have "a' = um_at p (up_touch t') a" "out' = []"
    using assms(8) by (simp_all add: out um_handleDatagram_def um_client_eq assms(6) um_message_ping)
  moreover have "(addrB, elems (protocol_Encode MsgPing '''' None)) \<in> set (um_sendHeartbeats ks a)"
  proof -
    have "p \<in> set (um_snapshot ks a)" by (rule um_snapshot_facts(2) [OF assms(1,5) um_okD(10) [OF assms(1,6)]])
    then show ?thesis
      using bare_messages(1) [of MsgPing] assms(4) um_okD(9) [OF assms(1,6)] by (auto simp: um_sendHeartbeats_def)
  qed
  ultimately show ?thesis by (auto simp: up_touch_def out)
qed


definition exampleUdpOracle :: UdpOracle where
  "exampleUdpOracle = \<lparr>uo_order = [''udp-peer-5-1''], uo_resolve = Inr ''10.0.0.2:7'', uo_error = None, uo_addr = ''10.0.0.1:7'',
     uo_nanos = 5, uo_now = 5\<rparr>"

definition exampleUdp :: UDPManager where
  \<comment> \<open>a manager that listens and has dialed one peer\<close>
  "exampleUdp = fst (um_Dial exampleUdpOracle ''b:7'' (fst (um_Listen exampleUdpOracle '':7'' um_New)))"

lemma exampleUdp_facts:
  "um_ok 1 exampleUdp" "um_conn exampleUdp = Some ''10.0.0.1:7''" "um_peers exampleUdp = [(''udp-peer-5-1'', 0)]"
  "um_addrToPeer exampleUdp = [''10.0.0.2:7'' \<mapsto> 0]" "up_lastSeen (um_heap exampleUdp 0) = 5"
  "um_events exampleUdp = [connectedEvent ''udp-peer-5-1'']" "up_id (um_heap exampleUdp 0) = ''udp-peer-5-1''"
proof -
  let ?m = "fst (um_Listen exampleUdpOracle '':7'' um_New)"
  have m: "?m = um_New\<lparr>um_conn := Some ''10.0.0.1:7''\<rparr>" by (simp add: um_Listen_def exampleUdpOracle_def)
  then have ok: "um_ok 0 ?m" by (simp add: um_ok_def um_New_def newUDPPeer_def)
  have pid: "stampedID ''udp-peer-'' 5 1 = ''udp-peer-5-1''" by (simp add: stampedID_def showInt_def showNat.simps)
  have ex: "exampleUdp = um_emit (connectedEvent ''udp-peer-5-1'') (snd (um_newPeer 5 5 ''10.0.0.2:7'' ?m))"
  proof -
    have orc: "uo_resolve exampleUdpOracle = Inr ''10.0.0.2:7''" "uo_nanos exampleUdpOracle = 5" "uo_now exampleUdpOracle = 5"
      by (simp_all add: exampleUdpOracle_def)
    have free: "um_addrToPeer ?m ''10.0.0.2:7'' = None" "um_counter ?m = 0" unfolding m by (simp_all add: um_New_def)
    have "up_id (um_heap (snd (um_newPeer 5 5 ''10.0.0.2:7'' ?m)) (fst (um_newPeer 5 5 ''10.0.0.2:7'' ?m))) = ''udp-peer-5-1''"
      by (simp add: newUDPPeer_def free pid)
    then show ?thesis by (simp add: exampleUdp_def um_Dial_def orc free split_def)
  qed
  show "um_ok 1 exampleUdp"
    unfolding ex
  proof (rule um_ok_emit)
    have "um_addrToPeer ?m ''10.0.0.2:7'' = None" unfolding m by (simp add: um_New_def)
    from um_ok_newPeer [OF ok _ this] show "um_ok 1 (snd (um_newPeer 5 5 ''10.0.0.2:7'' ?m))" by simp
  qed
  show "um_conn exampleUdp = Some ''10.0.0.1:7''" "um_peers exampleUdp = [(''udp-peer-5-1'', 0)]"
    "um_addrToPeer exampleUdp = [''10.0.0.2:7'' \<mapsto> 0]" "up_lastSeen (um_heap exampleUdp 0) = 5"
    "um_events exampleUdp = [connectedEvent ''udp-peer-5-1'']" "up_id (um_heap exampleUdp 0) = ''udp-peer-5-1''"
    unfolding ex m by (simp_all add: newPeer_eq Let_def um_New_def pid newUDPPeer_def um_emit_def chan_offer_def eventsCap_def)
qed

theorem heartbeat_round_trip_witness:
  "\<exists>b' a' out'. um_handleDatagram 6 6 7 ''10.0.0.1:7'' (elems (protocol_Encode MsgPing '''' None)) um_New =
       (b', [(''10.0.0.1:7'', elems (protocol_Encode MsgPong '''' None))]) \<and>
     um_handleDatagram 8 8 9 ''10.0.0.2:7'' (elems (protocol_Encode MsgPong '''' None)) exampleUdp = (a', out') \<and>
     out' = [] \<and> up_lastSeen (um_heap a' 0) = 9"
proof -
  obtain b' out where b: "um_handleDatagram 6 6 7 ''10.0.0.1:7'' (elems (protocol_Encode MsgPing '''' None)) um_New = (b', out)"
    by fastforce
  obtain a' out' where a: "um_handleDatagram 8 8 9 ''10.0.0.2:7'' (snd (hd out)) exampleUdp = (a', out')" by fastforce
  have e: "enumerates [''udp-peer-5-1''] (map_of (um_peers exampleUdp))" by (simp add: exampleUdp_facts enumerates_def)
  have p: "um_addrToPeer exampleUdp ''10.0.0.2:7'' = Some 0" "um_conn exampleUdp \<noteq> None" by (simp_all add: exampleUdp_facts)
  from heartbeat_round_trip [OF exampleUdp_facts(1) um_ok_New _ p(2) e p(1) b a] b a show ?thesis by simp
qed

section \<open>Eviction\<close>

definition silentPeers :: "(string \<Rightarrow> gotime) \<Rightarrow> UDPManager \<Rightarrow> string set" where
  "silentPeers now m = {pid. \<exists>p. map_of (um_peers m) pid = Some p \<and> now pid - up_lastSeen (um_heap m p) > 30000000000}"

lemma fold_um_forget:
  assumes "um_ok n m" and "\<forall>p \<in> set ps. \<exists>pid. map_of (um_peers m) pid = Some p"
  shows "um_ok n (fold um_forget ps m) \<and>
     map_of (um_peers (fold um_forget ps m)) = (\<lambda>pid. if pid \<in> (\<lambda>p. up_id (um_heap m p)) ` set ps then None else map_of (um_peers m) pid) \<and>
     um_addrToPeer (fold um_forget ps m) = (\<lambda>a. if a \<in> (\<lambda>p. up_addr (um_heap m p)) ` set ps then None else um_addrToPeer m a) \<and>
     um_heap (fold um_forget ps m) = um_heap m \<and> um_events (fold um_forget ps m) = um_events m"
  using assms(2)
proof (induction ps rule: rev_induct)
  case Nil
  then show ?case using assms(1) by simp
next
  case (snoc p ps)
  then have IH: "um_ok n (fold um_forget ps m)"
    "map_of (um_peers (fold um_forget ps m)) = (\<lambda>pid. if pid \<in> (\<lambda>p. up_id (um_heap m p)) ` set ps then None else map_of (um_peers m) pid)"
    "um_addrToPeer (fold um_forget ps m) = (\<lambda>a. if a \<in> (\<lambda>p. up_addr (um_heap m p)) ` set ps then None else um_addrToPeer m a)"
    "um_heap (fold um_forget ps m) = um_heap m" "um_events (fold um_forget ps m) = um_events m" by simp_all
  obtain pid where pid: "map_of (um_peers m) pid = Some p" using snoc.prems by auto
  have "map_of (um_peers m) (up_id (um_heap m p)) = Some p" "um_addrToPeer m (up_addr (um_heap m p)) = Some p"
    using um_okD(5,8) [OF assms(1) pid] pid by simp_all
  then have "um_ok n (um_forget p (fold um_forget ps m))" by (intro um_ok_forget [OF IH(1)]) (simp_all add: IH(2-4))
  moreover have "map_of (um_peers (um_forget p (fold um_forget ps m))) =
      (\<lambda>k. if k \<in> (\<lambda>p. up_id (um_heap m p)) ` set (ps @ [p]) then None else map_of (um_peers m) k)"
    "um_addrToPeer (um_forget p (fold um_forget ps m)) =
      (\<lambda>a. if a \<in> (\<lambda>p. up_addr (um_heap m p)) ` set (ps @ [p]) then None else um_addrToPeer m a)"
    by (auto simp: IH(2-4))
  ultimately show ?case by (simp add: IH(4,5))
qed

lemma um_emits_sel [simp]:
  "um_heap (fold um_emit es m) = um_heap m" "um_peers (fold um_emit es m) = um_peers m"
  "um_addrToPeer (fold um_emit es m) = um_addrToPeer m"
  by (induction es arbitrary: m) simp_all

lemma um_ok_emits: "um_ok n m \<Longrightarrow> um_ok n (fold um_emit es m)"
  by (induction es arbitrary: m) (simp_all add: um_ok_emit)

lemma um_evict_eq:
  assumes "um_ok n m"
  shows "um_evictExpired ks now m =
     (let evicted = range_values (\<lambda>pid p. if up_isExpired (now pid) (um_heap m p) then Some p else None) (map_of (um_peers m)) ks
      in fold um_emit (map closedEvent (filter (\<lambda>pid. pid \<in> silentPeers now m) ks)) (fold um_forget evicted m))"
proof -
  have "map (\<lambda>p. up_id (um_heap m p)) (range_values (\<lambda>pid p. if up_isExpired (now pid) (um_heap m p) then Some p else None) (map_of (um_peers m)) ks) =
      filter (\<lambda>pid. pid \<in> silentPeers now m) ks"
    by (induction ks) (auto simp: silentPeers_def up_isExpired_def udpPeerTimeout_def Second_def um_okD(5) [OF assms] split: option.splits
        simp del: map_of_eq_Some_iff map_of_eq_None_iff)
  moreover have "fold (\<lambda>p. um_emit (closedEvent (up_id (um_heap m p)))) ps x = fold um_emit (map closedEvent (map (\<lambda>p. up_id (um_heap m p)) ps)) x"
    for ps x by (simp add: fold_map o_def)
  ultimately show ?thesis by (simp only: um_evictExpired_def Let_def)
qed

lemma udp_peer_evict_ok:
  assumes "um_ok n m" and "enumerates ks (map_of (um_peers m))"
  shows "um_ok n (um_evictExpired ks now m)"
proof -
  let ?ev = "range_values (\<lambda>pid p. if up_isExpired (now pid) (um_heap m p) then Some p else None) (map_of (um_peers m)) ks"
  have "\<forall>p \<in> set ?ev. \<exists>pid. map_of (um_peers m) pid = Some p" unfolding set_range_values_enum [OF assms(2)]
    by (auto split: if_splits simp del: map_of_eq_Some_iff)
  from fold_um_forget [OF assms(1) this] show ?thesis by (simp add: um_evict_eq [OF assms(1)] um_ok_emits)
qed

text \<open>C27. The eviction removes exactly the peers that have been silent for more than 30 seconds, from both
  maps, keeps all others, and reports each removed peer as closed, once, as long as the event queue has
  room.\<close>

theorem udp_peer_eviction_exact:
  assumes "um_ok n m" and "enumerates ks (map_of (um_peers m))"
  shows "map_of (um_peers (um_evictExpired ks now m)) = (\<lambda>pid. if pid \<in> silentPeers now m then None else map_of (um_peers m) pid) \<and>
     (\<forall>a p. um_addrToPeer (um_evictExpired ks now m) a = Some p \<longleftrightarrow> um_addrToPeer m a = Some p \<and> up_id (um_heap m p) \<notin> silentPeers now m) \<and>
     um_ok n (um_evictExpired ks now m) \<and>
     (length (um_events m) + card (silentPeers now m) \<le> 1024 \<longrightarrow>
        (\<exists>pids. um_events (um_evictExpired ks now m) = um_events m @ map closedEvent pids \<and> distinct pids \<and> set pids = silentPeers now m))"
proof -
  let ?ev = "range_values (\<lambda>pid p. if up_isExpired (now pid) (um_heap m p) then Some p else None) (map_of (um_peers m)) ks"
  let ?pids = "filter (\<lambda>pid. pid \<in> silentPeers now m) ks"
  have set_ev: "set ?ev = {p. \<exists>pid. map_of (um_peers m) pid = Some p \<and> pid \<in> silentPeers now m}"
  proof -
    have iff: "(if c then Some p else None) = Some r \<longleftrightarrow> c \<and> p = r" for c and p r :: uptr by simp
    show ?thesis
      unfolding set_range_values_enum [OF assms(2)] iff silentPeers_def up_isExpired_def udpPeerTimeout_def Second_def
      by (auto simp del: map_of_eq_Some_iff)
  qed
  then have reg: "\<forall>p \<in> set ?ev. \<exists>pid. map_of (um_peers m) pid = Some p" by blast
  note F = fold_um_forget [OF assms(1) reg]
  have silent_dom: "silentPeers now m \<subseteq> dom (map_of (um_peers m))" by (auto simp: silentPeers_def simp del: map_of_eq_Some_iff)
  have ids: "(\<lambda>p. up_id (um_heap m p)) ` set ?ev = silentPeers now m"
    using um_okD(5) [OF assms(1)] silent_dom by (force simp: set_ev image_iff simp del: map_of_eq_Some_iff)
  have addrs: "a \<in> (\<lambda>p. up_addr (um_heap m p)) ` set ?ev \<longleftrightarrow> up_id (um_heap m p) \<in> silentPeers now m" if "um_addrToPeer m a = Some p" for a p
  proof
    assume "a \<in> (\<lambda>p. up_addr (um_heap m p)) ` set ?ev"
    then obtain q pid where q: "up_addr (um_heap m q) = a" "map_of (um_peers m) pid = Some q" "pid \<in> silentPeers now m"
      unfolding set_ev by blast
    then have "q = p" using um_okD(8) [OF assms(1) q(2)] that by simp
    then show "up_id (um_heap m p) \<in> silentPeers now m" using um_okD(5) [OF assms(1) q(2)] q(3) by simp
  next
    assume "up_id (um_heap m p) \<in> silentPeers now m"
    then show "a \<in> (\<lambda>p. up_addr (um_heap m p)) ` set ?ev"
      unfolding set_ev using um_okD(9,10) [OF assms(1) that] by (intro image_eqI [of _ _ p]) auto
  qed
  have pids: "distinct ?pids" "set ?pids = silentPeers now m"
    using enumeratesD [OF assms(2)] silent_dom by auto
  then have len: "length ?pids = card (silentPeers now m)" by (metis distinct_card)
  have "\<exists>pids. um_events (um_evictExpired ks now m) = um_events m @ map closedEvent pids \<and> distinct pids \<and> set pids = silentPeers now m"
    if "length (um_events m) + card (silentPeers now m) \<le> 1024"
    using udpevents.offers_lossless [of "fold um_forget ?ev m" "map closedEvent ?pids"] that pids len F
    by (intro exI [of _ ?pids]) (simp add: um_evict_eq [OF assms(1)] eventsCap_def)
  moreover have "um_ok n (um_evictExpired ks now m)" using assms by (rule udp_peer_evict_ok)
  moreover have "map_of (um_peers (um_evictExpired ks now m)) = (\<lambda>pid. if pid \<in> silentPeers now m then None else map_of (um_peers m) pid)"
    unfolding um_evict_eq [OF assms(1)] Let_def um_emits_sel F [THEN conjunct2, THEN conjunct1] ids ..
  moreover have "um_addrToPeer (um_evictExpired ks now m) a = Some p \<longleftrightarrow>
      um_addrToPeer m a = Some p \<and> up_id (um_heap m p) \<notin> silentPeers now m" for a p
    unfolding um_evict_eq [OF assms(1)] Let_def um_emits_sel F [THEN conjunct2, THEN conjunct2, THEN conjunct1]
    using addrs [of a p] by (cases "um_addrToPeer m a = Some p") auto
  ultimately show ?thesis by blast
qed


theorem udp_peer_eviction_exact_witness:
  "map_of (um_peers (um_evictExpired [''udp-peer-5-1''] (\<lambda>_. 40000000000) exampleUdp)) = Map.empty \<and>
   um_events (um_evictExpired [''udp-peer-5-1''] (\<lambda>_. 40000000000) exampleUdp) = [connectedEvent ''udp-peer-5-1'', closedEvent ''udp-peer-5-1'']"
proof -
  let ?m = "um_evictExpired [''udp-peer-5-1''] (\<lambda>_. 40000000000) exampleUdp"
  have e: "enumerates [''udp-peer-5-1''] (map_of (um_peers exampleUdp))" by (simp add: exampleUdp_facts enumerates_def)
  have s: "silentPeers (\<lambda>_. 40000000000) exampleUdp = {''udp-peer-5-1''}"
    by (auto simp: silentPeers_def exampleUdp_facts split: if_splits)
  note E = udp_peer_eviction_exact [OF exampleUdp_facts(1) e, of "\<lambda>_. 40000000000", unfolded s]
  from E obtain pids where "um_events ?m = um_events exampleUdp @ map closedEvent pids" "distinct pids" "set pids = {''udp-peer-5-1''}"
    by (auto simp: exampleUdp_facts)
  then have "um_events ?m = [connectedEvent ''udp-peer-5-1'', closedEvent ''udp-peer-5-1'']"
    using set_singleton_distinct [of pids "''udp-peer-5-1''"] by (simp add: exampleUdp_facts)
  moreover have "map_of (um_peers ?m) = Map.empty" using E by (auto simp: exampleUdp_facts)
  ultimately show ?thesis by simp
qed

section \<open>The invariant\<close>

lemma um_drain_eq: "um_drain p = (p\<lparr>up_outbox := []\<rparr>, up_outbox p)"
proof (induction p rule: um_drain.induct)
  case (1 p)
  show ?case
  proof (cases "up_outbox p")
    case Nil
    then show ?thesis by (subst um_drain.simps) (simp add: chan_poll_def)
  next
    case (Cons m ms)
    then have "chan_poll (up_outbox p) = Some (m, ms)" by (simp add: chan_poll_def)
    with 1 [OF this refl] Cons show ?thesis by (subst um_drain.simps) simp
  qed
qed

lemma um_ok_flushOutboxes: "um_ok n m \<Longrightarrow> um_ok n (fst (um_flushOutboxes ks m))"
proof -
  assume "um_ok n m"
  then have "um_ok n (fst (thread um_flush ps m))" for ps
    by (rule thread_invariant [rotated]) (simp add: um_flush_def um_drain_eq um_ok_at)
  then show ?thesis by (simp add: um_flushOutboxes_def split_def Let_def)
qed

text \<open>The operations of the goroutines, in any order; the number counts the IDs made so far.\<close>

datatype um_op =
    UmListen UdpOracle string
  | UmDial UdpOracle string
  | UmDatagram gotime gotime gotime string bytes
  | UmFlush "string list"
  | UmEvict "string list" "string \<Rightarrow> gotime"
  | UmSend UdpOracle "bytes \<times> string option"
  | UmReceive
  | UmStop

definition um_known :: "UDPManager \<Rightarrow> string \<Rightarrow> bool" where
  "um_known m key \<longleftrightarrow> um_addrToPeer m key \<noteq> None"

fun um_step :: "um_op \<Rightarrow> nat \<times> UDPManager \<Rightarrow> nat \<times> UDPManager" where
  "um_step (UmListen orc addr) (n, m) = (n, fst (um_Listen orc addr m))"
| "um_step (UmDial orc addr) (n, m) =
     (case uo_resolve orc of
        Inl _ \<Rightarrow> (n, fst (um_Dial orc addr m))
      | Inr key \<Rightarrow> (if um_known m key then n else Suc n, fst (um_Dial orc addr m)))"
| "um_step (UmDatagram nanos now touch addr data) (n, m) =
     (if um_known m addr then n else Suc n, fst (um_handleDatagram nanos now touch addr (um_receive data) m))"
| "um_step (UmFlush ks) (n, m) = (n, fst (um_flushOutboxes ks m))"
| "um_step (UmEvict ks now) (n, m) = (n, if enumerates ks (map_of (um_peers m)) then um_evictExpired ks now m else m)"
| "um_step (UmSend orc mx) (n, m) = (n, pm_send udpManager orc mx m)"
| "um_step UmReceive (n, m) = (n, case um_Receive m of None \<Rightarrow> m | Some (evt, m') \<Rightarrow> m')"
| "um_step UmStop (n, m) = (n, um_Stop m)"

lemma um_ok_Dial:
  assumes "um_ok n m" and "n < 2 ^ 64"
  shows "um_ok (case uo_resolve orc of Inl _ \<Rightarrow> n | Inr key \<Rightarrow> if um_known m key then n else Suc n) (fst (um_Dial orc addr m))"
proof (cases "uo_resolve orc")
  case (Inr key)
  show ?thesis
  proof (cases "um_addrToPeer m key")
    case None
    then show ?thesis using um_ok_newPeer [OF assms None] by (simp add: um_Dial_def Inr um_known_def split_def um_ok_emit)
  qed (use assms(1) Inr in \<open>simp add: um_Dial_def um_known_def\<close>)
qed (use assms(1) in \<open>simp add: um_Dial_def\<close>)

lemma um_step_mono: "fst s \<le> fst (um_step op s)"
  by (cases "(op, s)" rule: um_step.cases) (auto split: sum.split)

lemma um_ok_step:
  assumes "um_ok n m" and "fst (um_step op (n, m)) < 2 ^ 64"
  shows "um_ok (fst (um_step op (n, m))) (snd (um_step op (n, m)))"
proof -
  have small: "n < 2 ^ 64" using um_step_mono [of "(n, m)" op] assms(2) by simp
  show ?thesis
  proof (cases op)
    case (UmListen orc addr)
    then show ?thesis using assms(1) by (simp add: um_Listen_def um_ok_def del: map_of_eq_Some_iff split: sum.splits option.splits)
  next
    case (UmDial orc addr)
    then show ?thesis using um_ok_Dial [OF assms(1) small, of orc addr] by (cases "uo_resolve orc") simp_all
  next
    case (UmDatagram nanos now touch addr data)
    then show ?thesis using um_ok_handleDatagram [OF assms(1) small, where addr = addr] by (auto simp: um_known_def split: if_splits)
  next
    case (UmEvict ks now)
    then show ?thesis using udp_peer_evict_ok [OF assms(1)] assms(1) by simp
  next
    case UmReceive
    then show ?thesis using assms(1) by (auto simp: um_Receive_def chan_poll_def um_ok_def split: list.splits option.splits)
  next
    case UmStop
    then show ?thesis using assms(1) by (simp add: um_Stop_def um_ok_def)
  qed (simp_all add: assms(1) um_ok_flushOutboxes udp.send_keeps(1))
qed

definition um_run :: "um_op list \<Rightarrow> nat \<times> UDPManager" where
  "um_run ops = fold um_step ops (0, um_New)"

lemma um_ok_run: "fst (um_run ops) < 2 ^ 64 \<Longrightarrow> um_ok (fst (um_run ops)) (snd (um_run ops))"
proof (induction ops rule: rev_induct)
  case Nil
  then show ?case by (simp add: um_run_def um_ok_New)
next
  case (snoc op ops)
  obtain n m where nm: "um_run ops = (n, m)" by fastforce
  then have run: "um_run (ops @ [op]) = um_step op (n, m)" by (simp add: um_run_def)
  have "n < 2 ^ 64" using um_step_mono [of "(n, m)" op] snoc.prems by (simp add: run)
  then have "um_ok n m" using snoc.IH by (simp add: nm)
  from um_ok_step [OF this] snoc.prems show ?case by (simp add: run)
qed

text \<open>C16. Whatever datagrams arrive and whatever the other goroutines do, in any order and for as long as the
  ID counter has not wrapped: no two peers share an ID or an address, the map by address leads to exactly
  the peers of the map by ID, an outbox holds at most 256 messages and the event queue at most 1024.\<close>

theorem udp_manager_invariant:
  assumes "fst (um_run ops) < 2 ^ 64"
  defines "m \<equiv> snd (um_run ops)"
  shows "distinct (map fst (um_peers m)) \<and>
     (\<forall>a p. um_addrToPeer m a = Some p \<longleftrightarrow> up_addr (um_heap m p) = a \<and> map_of (um_peers m) (up_id (um_heap m p)) = Some p) \<and>
     (\<forall>pid p. map_of (um_peers m) pid = Some p \<longrightarrow> up_id (um_heap m p) = pid) \<and>
     (\<forall>p. length (up_outbox (um_heap m p)) \<le> 256) \<and> length (um_events m) \<le> 1024"
proof -
  have "um_ok (fst (um_run ops)) m" using um_ok_run [OF assms(1)] by (simp add: m_def)
  note ok = um_okD [OF this]
  show ?thesis
  proof (intro conjI allI iffI impI)
    show "um_addrToPeer m a = Some p" if "up_addr (um_heap m p) = a \<and> map_of (um_peers m) (up_id (um_heap m p)) = Some p" for a p
      using that ok(8) by blast
  qed (use ok in \<open>simp_all add: outboxCap_def eventsCap_def del: map_of_eq_Some_iff\<close>)
qed

theorem udp_manager_invariant_witness:
  "let m = snd (um_run [UmListen exampleUdpOracle '':7'', UmDial exampleUdpOracle ''b:7'']) in
     um_addrToPeer m ''10.0.0.2:7'' = Some 0 \<and> map_of (um_peers m) (up_id (um_heap m 0)) = Some 0"
proof -
  let ?ops = "[UmListen exampleUdpOracle '':7'', UmDial exampleUdpOracle ''b:7'']"
  have run: "snd (um_run ?ops) = exampleUdp" "fst (um_run ?ops) \<le> 1"
    by (simp_all add: um_run_def exampleUdp_def split: sum.split)
  then have "fst (um_run ?ops) < 2 ^ 64" by simp
  from udp_manager_invariant [OF this] have "um_addrToPeer exampleUdp a = Some p \<longrightarrow> map_of (um_peers exampleUdp) (up_id (um_heap exampleUdp p)) = Some p" for a p
    unfolding run(1) by blast
  from this [of "''10.0.0.2:7''" 0] show ?thesis by (simp add: run(1) exampleUdp_facts)
qed

end
