(* ===== verification/FanIn.thy ===== *)
theory FanIn imports PeeringTcp PeeringUdp begin

text \<open>
  The manager that joins two others, \<open>internal/peering/fanin.go\<close>, over any two managers \<open>A\<close> and \<open>B\<close>.  The
  two goroutines that forward events are \<open>fan_loop\<close> with the channel they receive from.

  \<open>two_managers\<close> are two managers that keep the contract \<open>peering_manager\<close>; the joined one keeps it too, and
  what it reports is an interleaving of what the two report.
\<close>

section \<open>Operations\<close>

record ('s, 't) FanIn =
  fi_a :: 's
  fi_b :: 't
  fi_merged :: "PeerEvent list"
  fi_stopped :: bool

definition mergedCap :: nat where "mergedCap = 2048"

definition fan_New :: "'s \<Rightarrow> 't \<Rightarrow> ('s, 't) FanIn" where
  "fan_New a b = \<lparr>fi_a = a, fi_b = b, fi_merged = [], fi_stopped = False\<rparr>"

definition receive_a :: "('o, 's) PeeringManager \<Rightarrow> ('s, 't) FanIn \<Rightarrow> (PeerEvent \<times> ('s, 't) FanIn) option" where
  "receive_a A m = map_option (\<lambda>(evt, a). (evt, m\<lparr>fi_a := a\<rparr>)) (pmi_Receive A (fi_a m))"

definition receive_b :: "('o, 't) PeeringManager \<Rightarrow> ('s, 't) FanIn \<Rightarrow> (PeerEvent \<times> ('s, 't) FanIn) option" where
  "receive_b B m = map_option (\<lambda>(evt, b). (evt, m\<lparr>fi_b := b\<rparr>)) (pmi_Receive B (fi_b m))"

definition fan_forward :: "(('s, 't) FanIn \<Rightarrow> (PeerEvent \<times> ('s, 't) FanIn) option) \<Rightarrow> ('s, 't) FanIn \<Rightarrow> ('s, 't) FanIn" where
  \<comment> \<open>a receive from an empty channel waits\<close>
  "fan_forward receive m =
     (case receive m of
        None \<Rightarrow> m
      | Some (evt, m') \<Rightarrow> m'\<lparr>fi_merged := chan_offer mergedCap (fi_merged m') evt\<rparr>)"

text \<open>What the \<open>select\<close> of the loop chooses: \<open>stopChan\<close>, an event, or that the channel is closed.\<close>

datatype fan_choice = FanStop | FanEvent | FanClosed

fun fan_loop :: "(('s, 't) FanIn \<Rightarrow> (PeerEvent \<times> ('s, 't) FanIn) option) \<Rightarrow> fan_choice list \<Rightarrow> ('s, 't) FanIn \<Rightarrow> ('s, 't) FanIn \<times> bool" where
  "fan_loop receive [] m = (m, True)"
| "fan_loop receive (FanStop # cs) m = (m, False)"
| "fan_loop receive (FanClosed # cs) m = (m, False)"
| "fan_loop receive (FanEvent # cs) m = fan_loop receive cs (fan_forward receive m)"

definition fan_Listen :: "'o \<times> 'p \<Rightarrow> string \<Rightarrow> ('s, 't) FanIn \<Rightarrow> ('s, 't) FanIn \<times> string option" where
  "fan_Listen orc addr m = (m, None)"

definition fan_Dial :: "('o, 's) PeeringManager \<Rightarrow> ('p, 't) PeeringManager \<Rightarrow> 'o \<times> 'p \<Rightarrow> string \<Rightarrow> ('s, 't) FanIn \<Rightarrow> ('s, 't) FanIn \<times> string option" where
  "fan_Dial A B orc addr m =
     (let (a, errA) = pmi_Dial A (fst orc) addr (fi_a m);
          (b, errB) = pmi_Dial B (snd orc) addr (fi_b m);
          m' = m\<lparr>fi_a := a, fi_b := b\<rparr>
      in if errA \<noteq> None then (m', errA) else (m', errB))"

definition fan_Broadcast :: "('o, 's) PeeringManager \<Rightarrow> ('p, 't) PeeringManager \<Rightarrow> 'o \<times> 'p \<Rightarrow> bytes \<Rightarrow> ('s, 't) FanIn \<Rightarrow> ('s, 't) FanIn" where
  "fan_Broadcast A B orc msg m =
     (let m1 = m\<lparr>fi_a := pmi_Broadcast A (fst orc) msg (fi_a m)\<rparr> in m1\<lparr>fi_b := pmi_Broadcast B (snd orc) msg (fi_b m1)\<rparr>)"

definition fan_BroadcastExcept ::
    "('o, 's) PeeringManager \<Rightarrow> ('p, 't) PeeringManager \<Rightarrow> 'o \<times> 'p \<Rightarrow> bytes \<Rightarrow> string \<Rightarrow> ('s, 't) FanIn \<Rightarrow> ('s, 't) FanIn" where
  "fan_BroadcastExcept A B orc msg x m =
     (let m1 = m\<lparr>fi_a := pmi_BroadcastExcept A (fst orc) msg x (fi_a m)\<rparr>
      in m1\<lparr>fi_b := pmi_BroadcastExcept B (snd orc) msg x (fi_b m1)\<rparr>)"

definition fan_Receive :: "('s, 't) FanIn \<Rightarrow> (PeerEvent \<times> ('s, 't) FanIn) option" where
  "fan_Receive m = map_option (\<lambda>(evt, q). (evt, m\<lparr>fi_merged := q\<rparr>)) (chan_poll (fi_merged m))"

definition fan_PeerCount :: "('o, 's) PeeringManager \<Rightarrow> ('p, 't) PeeringManager \<Rightarrow> ('s, 't) FanIn \<Rightarrow> nat" where
  "fan_PeerCount A B m = pmi_PeerCount A (fi_a m) + pmi_PeerCount B (fi_b m)"

definition fan_Addr :: "('o, 's) PeeringManager \<Rightarrow> ('p, 't) PeeringManager \<Rightarrow> ('s, 't) FanIn \<Rightarrow> string" where
  "fan_Addr A B m = (let a = pmi_Addr A (fi_a m) in if a \<noteq> '''' then a else pmi_Addr B (fi_b m))"

definition fan_Stop :: "('o, 's) PeeringManager \<Rightarrow> ('p, 't) PeeringManager \<Rightarrow> ('s, 't) FanIn \<Rightarrow> ('s, 't) FanIn" where
  "fan_Stop A B m =
     (if fi_stopped m then m
      else m\<lparr>fi_stopped := True, fi_a := pmi_Stop A (fi_a m), fi_b := pmi_Stop B (fi_b m)\<rparr>)"

definition fanInManager :: "('o, 's) PeeringManager \<Rightarrow> ('p, 't) PeeringManager \<Rightarrow> ('o \<times> 'p, ('s, 't) FanIn) PeeringManager" where
  "fanInManager A B =
     \<lparr>pmi_Listen = fan_Listen, pmi_Dial = fan_Dial A B, pmi_Broadcast = fan_Broadcast A B,
      pmi_BroadcastExcept = fan_BroadcastExcept A B, pmi_Events = fi_merged, pmi_Receive = fan_Receive,
      pmi_PeerCount = fan_PeerCount A B, pmi_Addr = fan_Addr A B, pmi_Stop = fan_Stop A B\<rparr>"

text \<open>The two goroutines together: one event at a time, in the order \<open>True\<close> for \<open>A\<close> and \<open>False\<close> for \<open>B\<close>.\<close>

definition fan_forwards :: "('o, 's) PeeringManager \<Rightarrow> ('p, 't) PeeringManager \<Rightarrow> bool list \<Rightarrow> ('s, 't) FanIn \<Rightarrow> ('s, 't) FanIn" where
  "fan_forwards A B cs m = fold (\<lambda>c. if c then fan_forward (receive_a A) else fan_forward (receive_b B)) cs m"

section \<open>The joined manager keeps the contract\<close>

definition fan_outboxes :: "('s \<Rightarrow> string \<rightharpoonup> bytes list) \<Rightarrow> ('t \<Rightarrow> string \<rightharpoonup> bytes list) \<Rightarrow> ('s, 't) FanIn \<Rightarrow> string \<rightharpoonup> bytes list" where
  "fan_outboxes outA outB m pid = (case outA (fi_a m) pid of Some q \<Rightarrow> Some q | None \<Rightarrow> outB (fi_b m) pid)"

lemma fan_Receive_iff:
  "fan_Receive m = Some (evt, m') \<longleftrightarrow> (\<exists>es. fi_merged m = evt # es \<and> m' = m\<lparr>fi_merged := es\<rparr>)"
  "fan_Receive m = None \<longleftrightarrow> fi_merged m = []"
  by (auto simp: fan_Receive_def chan_poll_def split: list.splits)

locale two_managers =
  A: peering_manager A validA ordersA outA + B: peering_manager B validB ordersB outB
  for A :: "('o, 's) PeeringManager" and validA ordersA outA
    and B :: "('p, 't) PeeringManager" and validB ordersB outB
begin

lemma fan_sends:
  "fi_a (fan_Broadcast A B orc msg m) = pmi_Broadcast A (fst orc) msg (fi_a m)"
  "fi_b (fan_Broadcast A B orc msg m) = pmi_Broadcast B (snd orc) msg (fi_b m)"
  "fi_merged (fan_Broadcast A B orc msg m) = fi_merged m"
  "fi_a (fan_BroadcastExcept A B orc msg x m) = pmi_BroadcastExcept A (fst orc) msg x (fi_a m)"
  "fi_b (fan_BroadcastExcept A B orc msg x m) = pmi_BroadcastExcept B (snd orc) msg x (fi_b m)"
  "fi_merged (fan_BroadcastExcept A B orc msg x m) = fi_merged m"
  by (simp_all add: fan_Broadcast_def fan_BroadcastExcept_def Let_def)

lemma forward_a:
  "pmi_Events A (fi_a m) = [] \<and> fan_forward (receive_a A) m = m \<or>
   (\<exists>evt a. pmi_Events A (fi_a m) = evt # pmi_Events A a \<and>
      fan_forward (receive_a A) m = m\<lparr>fi_a := a, fi_merged := chan_offer mergedCap (fi_merged m) evt\<rparr>)"
proof (cases "pmi_Receive A (fi_a m)")
  case None
  then show ?thesis using A.Receive_None [of "fi_a m"] by (simp add: fan_forward_def receive_a_def)
next
  case (Some r)
  obtain evt a where "r = (evt, a)" by (cases r)
  with Some A.Receive_Some [of "fi_a m" evt a] show ?thesis by (simp add: fan_forward_def receive_a_def) blast
qed

lemma forward_b:
  "pmi_Events B (fi_b m) = [] \<and> fan_forward (receive_b B) m = m \<or>
   (\<exists>evt b. pmi_Events B (fi_b m) = evt # pmi_Events B b \<and>
      fan_forward (receive_b B) m = m\<lparr>fi_b := b, fi_merged := chan_offer mergedCap (fi_merged m) evt\<rparr>)"
proof (cases "pmi_Receive B (fi_b m)")
  case None
  then show ?thesis using B.Receive_None [of "fi_b m"] by (simp add: fan_forward_def receive_b_def)
next
  case (Some r)
  obtain evt b where "r = (evt, b)" by (cases r)
  with Some B.Receive_Some [of "fi_b m" evt b] show ?thesis by (simp add: fan_forward_def receive_b_def) blast
qed

lemma forwards_interleave:
  "length (fi_merged m) + length cs \<le> mergedCap \<Longrightarrow>
   \<exists>xs ys zs. pmi_Events A (fi_a m) = xs @ pmi_Events A (fi_a (fan_forwards A B cs m)) \<and>
     pmi_Events B (fi_b m) = ys @ pmi_Events B (fi_b (fan_forwards A B cs m)) \<and>
     zs \<in> shuffles xs ys \<and> fi_merged (fan_forwards A B cs m) = fi_merged m @ zs"
proof (induction cs arbitrary: m)
  case Nil
  then show ?case by (intro exI [of _ "[]"]) (simp add: fan_forwards_def)
next
  case (Cons c cs)
  have step: "fan_forwards A B (c # cs) m = fan_forwards A B cs (if c then fan_forward (receive_a A) m else fan_forward (receive_b B) m)"
    by (simp add: fan_forwards_def)
  show ?case
  proof (cases c)
    case True
    from forward_a [of m] show ?thesis
    proof (elim disjE conjE exE)
      assume "fan_forward (receive_a A) m = m"
      then have m: "fan_forwards A B (c # cs) m = fan_forwards A B cs m" unfolding step by (simp add: True)
      show ?thesis unfolding m using Cons.IH [of m] Cons.prems by simp
    next
      fix evt a
      assume E: "pmi_Events A (fi_a m) = evt # pmi_Events A a"
        "fan_forward (receive_a A) m = m\<lparr>fi_a := a, fi_merged := chan_offer mergedCap (fi_merged m) evt\<rparr>"
      let ?m = "m\<lparr>fi_a := a, fi_merged := fi_merged m @ [evt]\<rparr>"
      have m: "fan_forwards A B (c # cs) m = fan_forwards A B cs ?m" unfolding step using Cons.prems by (simp add: True E chan_offer_def)
      from Cons.IH [of ?m] Cons.prems obtain xs ys zs where
        "pmi_Events A a = xs @ pmi_Events A (fi_a (fan_forwards A B cs ?m))" "pmi_Events B (fi_b m) = ys @ pmi_Events B (fi_b (fan_forwards A B cs ?m))"
        "zs \<in> shuffles xs ys" "fi_merged (fan_forwards A B cs ?m) = fi_merged m @ evt # zs" by auto
      with E(1) show ?thesis
        unfolding m by (intro exI [of _ "evt # xs"] exI [of _ ys] exI [of _ "evt # zs"]) (simp add: Cons_in_shuffles_leftI)
    qed
  next
    case False
    from forward_b [of m] show ?thesis
    proof (elim disjE conjE exE)
      assume "fan_forward (receive_b B) m = m"
      then have m: "fan_forwards A B (c # cs) m = fan_forwards A B cs m" unfolding step by (simp add: False)
      show ?thesis unfolding m using Cons.IH [of m] Cons.prems by simp
    next
      fix evt b
      assume E: "pmi_Events B (fi_b m) = evt # pmi_Events B b"
        "fan_forward (receive_b B) m = m\<lparr>fi_b := b, fi_merged := chan_offer mergedCap (fi_merged m) evt\<rparr>"
      let ?m = "m\<lparr>fi_b := b, fi_merged := fi_merged m @ [evt]\<rparr>"
      have m: "fan_forwards A B (c # cs) m = fan_forwards A B cs ?m" unfolding step using Cons.prems by (simp add: False E chan_offer_def)
      from Cons.IH [of ?m] Cons.prems obtain xs ys zs where
        "pmi_Events A (fi_a m) = xs @ pmi_Events A (fi_a (fan_forwards A B cs ?m))" "pmi_Events B b = ys @ pmi_Events B (fi_b (fan_forwards A B cs ?m))"
        "zs \<in> shuffles xs ys" "fi_merged (fan_forwards A B cs ?m) = fi_merged m @ evt # zs" by auto
      with E(1) show ?thesis
        unfolding m by (intro exI [of _ xs] exI [of _ "evt # ys"] exI [of _ "evt # zs"]) (simp add: Cons_in_shuffles_rightI)
    qed
  qed
qed

end

sublocale two_managers \<subseteq> fan: peering_manager "fanInManager A B" "\<lambda>m. validA (fi_a m) \<and> validB (fi_b m)"
  "\<lambda>orc m. ordersA (fst orc) (fi_a m) \<and> ordersB (snd orc) (fi_b m)" "fan_outboxes outA outB"
proof unfold_locales
  show "length q \<le> outboxCap" if "validA (fi_a m) \<and> validB (fi_b m)" "fan_outboxes outA outB m pid = Some q" for m pid q
    using that A.outboxes_bounded B.outboxes_bounded by (auto simp: fan_outboxes_def split: option.splits)
qed (auto simp: fanInManager_def fan_Receive_iff fan_sends fan_outboxes_def fun_eq_iff A.Broadcast_outboxes B.Broadcast_outboxes
    A.BroadcastExcept_outboxes B.BroadcastExcept_outboxes A.Broadcast_valid B.Broadcast_valid A.BroadcastExcept_valid
    B.BroadcastExcept_valid A.Broadcast_orders B.Broadcast_orders A.BroadcastExcept_orders B.BroadcastExcept_orders split: option.splits)

interpretation both: two_managers tcpManager pm_ok "\<lambda>orc m. enumerates (to_order orc) (map_of (pm_peers m))" pm_outboxes
  udpManager "um_ok n" "\<lambda>orc m. enumerates (uo_order orc) (map_of (um_peers m))" um_outboxes
  for n :: nat
  by unfold_locales

section \<open>Properties\<close>

text \<open>C14. Both transports behave as one: after any sequence of broadcasts through the joined manager, each with a
  peer to leave out or none, the outbox of every open TCP peer and of every UDP peer has grown by the
  messages that did not leave this peer out, in order, as far as they fit into its 256 places.\<close>

theorem joined_broadcasts:
  fixes m :: "(PeerManager, UDPManager) FanIn"
  assumes "pm_ok (fi_a m)" and "um_ok n (fi_b m)"
    and "enumerates (to_order o1) (map_of (pm_peers (fi_a m)))" and "enumerates (uo_order o2) (map_of (um_peers (fi_b m)))"
  shows "fan_outboxes pm_outboxes um_outboxes (fold (pm_send (fanInManager tcpManager udpManager) (o1, o2)) ms m) pid =
     map_option (\<lambda>q. q @ take (256 - length q) (addressed pid ms)) (fan_outboxes pm_outboxes um_outboxes m pid)"
  using both.fan.sends_outboxes [of m n "(o1, o2)" ms pid] assms by (simp add: outboxCap_def)

definition exampleJoined :: "(PeerManager, UDPManager) FanIn" where
  "exampleJoined = fan_New exampleTcp exampleUdp"

theorem joined_broadcasts_witness:
  "fan_outboxes pm_outboxes um_outboxes
     (fold (pm_send (fanInManager tcpManager udpManager) (exampleTcpOracle, exampleUdpOracle)) [(''a'', None), (''b'', Some ''peer-7-0'')] exampleJoined)
     ''peer-7-0'' = Some [''a''] \<and>
   fan_outboxes pm_outboxes um_outboxes
     (fold (pm_send (fanInManager tcpManager udpManager) (exampleTcpOracle, exampleUdpOracle)) [(''a'', None), (''b'', Some ''peer-7-0'')] exampleJoined)
     ''udp-peer-5-1'' = Some [''a'', ''b'']"
proof -
  have ok: "pm_ok (fi_a exampleJoined)" "um_ok 1 (fi_b exampleJoined)"
    "enumerates (to_order exampleTcpOracle) (map_of (pm_peers (fi_a exampleJoined)))"
    "enumerates (uo_order exampleUdpOracle) (map_of (um_peers (fi_b exampleJoined)))"
    by (simp_all add: exampleJoined_def fan_New_def exampleTcp_facts exampleUdp_facts exampleUdp_facts(1) [simplified]
        exampleTcpOracle_def exampleUdpOracle_def enumerates_def)
  have "up_outbox (um_heap exampleUdp 0) = []"
    by (simp add: exampleUdp_def um_Dial_def um_Listen_def exampleUdpOracle_def split_def um_New_def newUDPPeer_def)
  then have out: "fan_outboxes pm_outboxes um_outboxes exampleJoined ''peer-7-0'' = Some []"
    "fan_outboxes pm_outboxes um_outboxes exampleJoined ''udp-peer-5-1'' = Some []"
    by (simp_all add: fan_outboxes_def exampleJoined_def fan_New_def pm_outboxes_def um_outboxes_def exampleTcp_facts exampleUdp_facts newPeer_def)
  show ?thesis
    unfolding joined_broadcasts [OF ok] out by (simp add: addressed_def)
qed

text \<open>Joining loses and reorders no events while the merged queue has room: what the joined manager has
  reported is an interleaving of what has been taken from the TCP manager and from the UDP manager, each in
  its order.\<close>

theorem joined_events:
  fixes m :: "(PeerManager, UDPManager) FanIn"
  assumes "length (fi_merged m) + length cs \<le> 2048"
  shows "\<exists>xs ys zs. pm_events (fi_a m) = xs @ pm_events (fi_a (fan_forwards tcpManager udpManager cs m)) \<and>
     um_events (fi_b m) = ys @ um_events (fi_b (fan_forwards tcpManager udpManager cs m)) \<and>
     zs \<in> shuffles xs ys \<and> fi_merged (fan_forwards tcpManager udpManager cs m) = fi_merged m @ zs"
  using both.forwards_interleave [of m cs] assms by (simp add: mergedCap_def tcpManager_def udpManager_def)

theorem joined_events_witness:
  "\<exists>xs ys zs. pm_events exampleTcp = xs @ pm_events (fi_a (fan_forwards tcpManager udpManager [True, False] exampleJoined)) \<and>
     um_events exampleUdp = ys @ um_events (fi_b (fan_forwards tcpManager udpManager [True, False] exampleJoined)) \<and>
     zs \<in> shuffles xs ys \<and> fi_merged (fan_forwards tcpManager udpManager [True, False] exampleJoined) = zs"
  using joined_events [of exampleJoined "[True, False]"] by (simp add: exampleJoined_def fan_New_def)

end
