(* ===== verification/PeerNode.thy ===== *)
theory PeerNode imports Gossip FanIn Merge Metrics begin

text \<open>
  A peer-to-peer node, \<open>internal/peer/peer.go\<close>, over any manager \<open>M\<close>: the callback that announces local
  changes of the world, and the handling of world updates and submissions from other nodes.

  The callback runs inside the operations of the world, so the manager and the metrics, which it changes,
  are the environment \<open>NodeFx\<close> of the world's callbacks.  \<open>ord\<close> gives what a broadcast needs from outside
  for every state of the manager.  The node ignores the errors of its broadcasts, as the code does.

  The lemmas say what a remote update does to an object, that versions never exceed the highest announced
  one, when a node follows a single writer, and in which cases nodes do not converge.
\<close>

section \<open>State\<close>

record 's NodeFx =
  nf_mgr :: 's
  nf_metrics :: "Recorder option"
  nf_metricsLog :: "string list"

datatype node_log = LogConnected string | LogClosed string | LogApplied string uint64 string

record 's Node =
  nd_fx :: "'s NodeFx"
  nd_world :: "'s NodeFx World"
  nd_coord :: Coordinator
  nd_gossip :: Gossip
  nd_tags :: "string slice"
  nd_log :: "node_log list"

record NodeOracle =
  no_seen :: gotime
  no_world :: "nat \<Rightarrow> gotime"
  no_metrics :: gotime

definition node_New ::
    "'s NodeFx World \<Rightarrow> Coordinator \<Rightarrow> 's \<Rightarrow> Gossip \<Rightarrow> Recorder option \<Rightarrow> string slice \<Rightarrow> 's Node" where
  "node_New w c mgr g mr tags =
     \<lparr>nd_fx = \<lparr>nf_mgr = mgr, nf_metrics = mr, nf_metricsLog = []\<rparr>, nd_world = w, nd_coord = c, nd_gossip = g,
      nd_tags = tags, nd_log = []\<rparr>"

definition fx_metric :: "(Recorder option \<Rightarrow> Recorder option \<times> string list) \<Rightarrow> 's NodeFx \<Rightarrow> 's NodeFx" where
  "fx_metric f e = (case f (nf_metrics e) of (r, ls) \<Rightarrow> e\<lparr>nf_metrics := r, nf_metricsLog := nf_metricsLog e @ ls\<rparr>)"

definition fx_gossip ::
    "('o, 's) PeeringManager \<Rightarrow> ('s \<Rightarrow> 'o) \<Rightarrow> string \<Rightarrow> string \<Rightarrow> payload \<Rightarrow> string \<Rightarrow> 's NodeFx \<Rightarrow> 's NodeFx" where
  \<comment> \<open>\<open>n.gossip.BroadcastExcept(...)\<close>\<close>
  "fx_gossip M ord msgType requestID pl x e =
     e\<lparr>nf_mgr := fst (gossip_BroadcastExcept M (ord (nf_mgr e)) msgType requestID (Some pl) x (nf_mgr e))\<rparr>"

section \<open>Announcing changes\<close>

definition announced :: "Object \<Rightarrow> ObjectDiff" where
  "announced ob = \<lparr>od_ObjectID = obj_ID ob, od_Data = obj_Data ob, od_Version = obj_Version ob, od_Meta = obj_Meta ob\<rparr>"

definition node_on_change :: "('o, 's) PeeringManager \<Rightarrow> ('s \<Rightarrow> 'o) \<Rightarrow> (ChangeEvent, 's NodeFx) handler" where
  "node_on_change M ord evt e = Returned
     (if chg_Kind evt = ChangeCreated \<or> chg_Kind evt = ChangeUpdated then
        fx_gossip M ord MsgWorldUpdate '''' (PWorldUpdate \<lparr>wup_Objects = Some [announced (chg_Object evt)]\<rparr>) ''''
          (fx_metric (WorldUpdated (obj_ID (chg_Object evt)) (chg_PrevVersion evt) (obj_Version (chg_Object evt))) e)
      else e)"

definition node_Run :: "('o, 's) PeeringManager \<Rightarrow> ('s \<Rightarrow> 'o) \<Rightarrow> 's Node \<Rightarrow> 's Node" where
  \<comment> \<open>the event loop, which it starts, is \<open>node_event\<close>\<close>
  "node_Run M ord n = n\<lparr>nd_world := world_OnChange (nd_world n) (node_on_change M ord)\<rparr>"

section \<open>Messages of other nodes\<close>

definition node_applyDiff ::
    "('o, 's) PeeringManager \<Rightarrow> ('s \<Rightarrow> 'o) \<Rightarrow> gotime \<Rightarrow> string \<Rightarrow> string \<Rightarrow> ObjectDiff \<Rightarrow> 's Node \<Rightarrow> 's Node" where
  \<comment> \<open>the body of the loop over \<open>p.Objects\<close>\<close>
  "node_applyDiff M ord now src rid d n =
     (if (case world_Get (nd_world n) (od_ObjectID d) of Inl _ \<Rightarrow> False | Inr existing \<Rightarrow> obj_Version existing \<ge> od_Version d) then n
      else
        let (w, e, _) = world_Apply now (nd_world n)
              \<lparr>req_ObjectID = od_ObjectID d, req_Data = od_Data d, req_ExpectedVersion = 0, req_Tags = nd_tags n, req_Meta = od_Meta d\<rparr>
              (nd_fx n)
        in n\<lparr>nd_world := w, nd_log := nd_log n @ [LogApplied (od_ObjectID d) (od_Version d) src],
             nd_fx := fx_gossip M ord MsgWorldUpdate rid (PWorldUpdate \<lparr>wup_Objects = Some [d]\<rparr>) src e\<rparr>)"

primrec node_applyDiffs ::
    "('o, 's) PeeringManager \<Rightarrow> ('s \<Rightarrow> 'o) \<Rightarrow> (nat \<Rightarrow> gotime) \<Rightarrow> string \<Rightarrow> string \<Rightarrow> nat \<Rightarrow> ObjectDiff list \<Rightarrow> 's Node \<Rightarrow> 's Node" where
  "node_applyDiffs M ord clk src rid i [] n = n"
| "node_applyDiffs M ord clk src rid i (d # ds) n =
     node_applyDiffs M ord clk src rid (Suc i) ds (node_applyDiff M ord (clk i) src rid d n)"

definition node_handleWorldUpdate ::
    "('o, 's) PeeringManager \<Rightarrow> ('s \<Rightarrow> 'o) \<Rightarrow> (nat \<Rightarrow> gotime) \<Rightarrow> string \<Rightarrow> Envelope \<Rightarrow> 's Node \<Rightarrow> 's Node" where
  "node_handleWorldUpdate M ord clk src env n =
     (case unmarshal_WorldUpdate (env_Payload env) of
        None \<Rightarrow> n
      | Some p \<Rightarrow> node_applyDiffs M ord clk src (env_RequestID env) 0 (elems (wup_Objects p)) n)"

definition node_submit :: "NodeOracle \<Rightarrow> Submission \<Rightarrow> 's Node \<Rightarrow> 's Node" where
  \<comment> \<open>what \<open>handleRemoteSubmit\<close> and \<open>SubmitLocalResult\<close> have in common\<close>
  "node_submit orc sub n =
     (let (w, e, result) = coordinator_Submit (no_world orc) (nd_coord n) (nd_world n) (nd_fx n) sub;
          e' = (if res_Accepted result then fx_metric (TaskCompleted (no_metrics orc) (sub_TaskID sub) (sub_OwnerID sub)) e else e)
      in n\<lparr>nd_world := w, nd_fx := e'\<rparr>)"

definition node_handleRemoteSubmit ::
    "('o, 's) PeeringManager \<Rightarrow> ('s \<Rightarrow> 'o) \<Rightarrow> NodeOracle \<Rightarrow> string \<Rightarrow> Envelope \<Rightarrow> 's Node \<Rightarrow> 's Node" where
  "node_handleRemoteSubmit M ord orc src env n =
     (case unmarshal_SubmitResult (env_Payload env) of
        None \<Rightarrow> n
      | Some p \<Rightarrow>
          let n1 = node_submit orc \<lparr>sub_TaskID = srp_TaskID p, sub_OwnerID = src, sub_Data = srp_Data p, sub_Meta = srp_Meta p\<rparr> n
          in n1\<lparr>nd_fx := fx_gossip M ord MsgSubmitResult (env_RequestID env) (PSubmitResult p) src (nd_fx n1)\<rparr>)"

definition node_SubmitLocalResult :: "NodeOracle \<Rightarrow> string \<Rightarrow> char slice \<Rightarrow> 's Node \<Rightarrow> 's Node" where
  "node_SubmitLocalResult orc taskID data n =
     node_submit orc \<lparr>sub_TaskID = taskID, sub_OwnerID = ''local'', sub_Data = data, sub_Meta = None\<rparr> n"

definition node_handlePeerMessage ::
    "('o, 's) PeeringManager \<Rightarrow> ('s \<Rightarrow> 'o) \<Rightarrow> NodeOracle \<Rightarrow> string \<Rightarrow> Envelope \<Rightarrow> 's Node \<Rightarrow> 's Node" where
  "node_handlePeerMessage M ord orc src env n =
     (let (g, new) = ShouldForward (no_seen orc) env (nd_gossip n); n1 = n\<lparr>nd_gossip := g\<rparr> in
      if \<not> new then n1
      else if env_Type env = MsgWorldUpdate then node_handleWorldUpdate M ord (no_world orc) src env n1
      else if env_Type env = MsgSubmitResult then node_handleRemoteSubmit M ord orc src env n1
      else n1)"

definition node_event :: "('o, 's) PeeringManager \<Rightarrow> ('s \<Rightarrow> 'o) \<Rightarrow> NodeOracle \<Rightarrow> 's Node \<Rightarrow> 's Node" where
  \<comment> \<open>one round of the event loop; a receive from an empty channel waits\<close>
  "node_event M ord orc n =
     (case pmi_Receive M (nf_mgr (nd_fx n)) of
        None \<Rightarrow> n
      | Some (evt, s) \<Rightarrow>
          let n1 = n\<lparr>nd_fx := (nd_fx n)\<lparr>nf_mgr := s\<rparr>\<rparr> in
          if pe_Kind evt = EventPeerConnected then n1\<lparr>nd_log := nd_log n1 @ [LogConnected (pe_PeerID evt)]\<rparr>
          else if pe_Kind evt = EventPeerClosed then n1\<lparr>nd_log := nd_log n1 @ [LogClosed (pe_PeerID evt)]\<rparr>
          else if pe_Kind evt = EventPeerMessage then node_handlePeerMessage M ord orc (pe_PeerID evt) (pe_Env evt) n1
          else n1)"

section \<open>Remote updates\<close>

definition remoteRequest :: "string slice \<Rightarrow> ObjectDiff \<Rightarrow> UpdateRequest" where
  "remoteRequest tags d =
     \<lparr>req_ObjectID = od_ObjectID d, req_Data = od_Data d, req_ExpectedVersion = 0, req_Tags = tags, req_Meta = od_Meta d\<rparr>"

definition newer :: "ObjectDiff \<Rightarrow> 'e World \<Rightarrow> bool" where
  "newer d w \<longleftrightarrow> (case objects w (od_ObjectID d) of None \<Rightarrow> True | Some ob \<Rightarrow> obj_Version ob < od_Version d)"

lemma applyDiff_eq:
  "node_applyDiff M ord now src rid d n =
     (if newer d (nd_world n) then
        let old = objects (nd_world n) (od_ObjectID d); ob = appliedObject now old (remoteRequest (nd_tags n) d) in
        n\<lparr>nd_world := (nd_world n)\<lparr>objects := (objects (nd_world n))(od_ObjectID d \<mapsto> ob)\<rparr>,
          nd_log := nd_log n @ [LogApplied (od_ObjectID d) (od_Version d) src],
          nd_fx := fx_gossip M ord MsgWorldUpdate rid (PWorldUpdate \<lparr>wup_Objects = Some [d]\<rparr>) src
            (fire_recover (handlers (nd_world n)) (appliedEvent old ob) (nd_fx n))\<rparr>
      else n)"
proof -
  have "admissible (nd_world n) (remoteRequest (nd_tags n) d)" by (simp add: admissible_def remoteRequest_def)
  from world_Apply_accepts [OF this] show ?thesis
    by (cases "objects (nd_world n) (od_ObjectID d)")
      (auto simp: node_applyDiff_def newer_def remoteRequest_def Let_def not_le not_less)
qed

lemma applyDiff_objects:
  "objects (nd_world (node_applyDiff M ord now src rid d n)) =
     (if newer d (nd_world n)
      then (objects (nd_world n))(od_ObjectID d \<mapsto> appliedObject now (objects (nd_world n) (od_ObjectID d)) (remoteRequest (nd_tags n) d))
      else objects (nd_world n))"
  by (simp add: applyDiff_eq Let_def)

lemma applyDiff_same [simp]:
  "nd_tags (node_applyDiff M ord now src rid d n) = nd_tags n" "nd_coord (node_applyDiff M ord now src rid d n) = nd_coord n"
  "nd_gossip (node_applyDiff M ord now src rid d n) = nd_gossip n"
  "handlers (nd_world (node_applyDiff M ord now src rid d n)) = handlers (nd_world n)"
  by (simp_all add: applyDiff_eq Let_def)

lemma fire_on_change:
  "fire_recover [node_on_change M ord] (appliedEvent old ob) e =
     fx_gossip M ord MsgWorldUpdate '''' (PWorldUpdate \<lparr>wup_Objects = Some [announced ob]\<rparr>) ''''
       (fx_metric (WorldUpdated (obj_ID ob) (case old of None \<Rightarrow> 0 | Some o' \<Rightarrow> obj_Version o') (obj_Version ob)) e)"
  by (simp add: node_on_change_def appliedEvent_def)


section \<open>What the peers are sent\<close>

lemma fx_metric_mgr [simp]: "nf_mgr (fx_metric f e) = nf_mgr e"
  by (simp add: fx_metric_def split_def)

context peering_manager
begin

lemma fx_gossip_outboxes:
  assumes "valid (nf_mgr e)" and "orders (ord (nf_mgr e)) (nf_mgr e)" and "protocol_Encode t rid (Some pl) = Some msg"
  shows "outboxes (nf_mgr (fx_gossip M ord t rid pl x e)) pid =
    (if pid = x then outboxes (nf_mgr e) pid else map_option (\<lambda>q. chan_offer outboxCap q msg) (outboxes (nf_mgr e) pid))"
  using gossip_outboxes [OF assms] by (simp add: fx_gossip_def)

lemma fx_gossip_valid: "valid (nf_mgr e) \<Longrightarrow> valid (nf_mgr (fx_gossip M ord t rid pl x e))"
  by (simp add: fx_gossip_def gossip_keeps)

end

text \<open>C5. A world update from another node, for every manager that keeps its contract.  An update that is not
  newer than the node's object changes nothing and is not passed on.  A newer one replaces the object's data
  and metadata (those it has), gives it the node's own tags, and raises the local version by one, whatever
  version was announced; the node announces the result with its own version to every peer, and passes the
  update on to every peer but the sender.\<close>

theorem remote_update_exact:
  fixes n :: "'s Node"
  assumes "peering_manager M valid orders outboxes" and "valid (nf_mgr (nd_fx n))" and "\<forall>s. valid s \<longrightarrow> orders (ord s) s"
    and "handlers (nd_world n) = [node_on_change M ord]" and "objects (nd_world n) (od_ObjectID d) = old"
    and "ob = \<lparr>obj_ID = od_ObjectID d, obj_Data = orExisting (od_Data d) (map_option obj_Data old), obj_Version = currentVersion old + 1,
       obj_Tags = orExisting (nd_tags n) (map_option obj_Tags old), obj_Meta = orExisting (od_Meta d) (map_option obj_Meta old),
       obj_UpdatedAt = now\<rparr>"
    and "protocol_Encode MsgWorldUpdate '''' (Some (PWorldUpdate \<lparr>wup_Objects = Some [announced ob]\<rparr>)) = Some own"
    and "protocol_Encode MsgWorldUpdate rid (Some (PWorldUpdate \<lparr>wup_Objects = Some [d]\<rparr>)) = Some passed"
    and "src \<noteq> ''''"
  shows "if \<exists>ob'. old = Some ob' \<and> obj_Version ob' \<ge> od_Version d then node_applyDiff M ord now src rid d n = n
     else objects (nd_world (node_applyDiff M ord now src rid d n)) = (objects (nd_world n))(od_ObjectID d \<mapsto> ob) \<and>
       (\<forall>pid. pid \<noteq> '''' \<longrightarrow> outboxes (nf_mgr (nd_fx (node_applyDiff M ord now src rid d n))) pid =
          map_option (\<lambda>q. let q1 = chan_offer 256 q own in if pid = src then q1 else chan_offer 256 q1 passed)
            (outboxes (nf_mgr (nd_fx n)) pid))"

proof -
  have own_msg: "fire_recover (handlers (nd_world n)) (appliedEvent old ob) (nd_fx n) =
      fx_gossip M ord MsgWorldUpdate '''' (PWorldUpdate \<lparr>wup_Objects = Some [announced ob]\<rparr>) ''''
        (fx_metric (WorldUpdated (obj_ID ob) (case old of None \<Rightarrow> 0 | Some o' \<Rightarrow> obj_Version o') (obj_Version ob)) (nd_fx n))"
    (is "_ = ?own") unfolding assms(4) by (rule fire_on_change)
  have ob: "appliedObject now old (remoteRequest (nd_tags n) d) = ob"
    by (simp add: assms(6) appliedObject_def remoteRequest_def currentVersion_def split: option.split)
  have own: "valid (nf_mgr ?own)" "\<And>pid. pid \<noteq> '''' \<Longrightarrow> outboxes (nf_mgr ?own) pid = map_option (\<lambda>q. chan_offer 256 q own) (outboxes (nf_mgr (nd_fx n)) pid)"
    using peering_manager.fx_gossip_valid [OF assms(1)] peering_manager.fx_gossip_outboxes [OF assms(1) _ _ assms(7)] assms(2,3)
    by (simp_all add: outboxCap_def)
  have passed: "outboxes (nf_mgr (fx_gossip M ord MsgWorldUpdate rid (PWorldUpdate \<lparr>wup_Objects = Some [d]\<rparr>) src ?own)) pid =
      (if pid = src then outboxes (nf_mgr ?own) pid else map_option (\<lambda>q. chan_offer 256 q passed) (outboxes (nf_mgr ?own) pid))" for pid
    using peering_manager.fx_gossip_outboxes [OF assms(1) own(1) _ assms(8)] own(1) assms(3) by (simp add: outboxCap_def)
  show ?thesis
  proof (cases "newer d (nd_world n)")
    case False
    then have "\<exists>ob'. old = Some ob' \<and> obj_Version ob' \<ge> od_Version d" using assms(5) by (auto simp: newer_def not_less split: option.splits)
    with False show ?thesis by (simp add: applyDiff_eq)
  next
    case True
    then have no: "\<not> (\<exists>ob'. old = Some ob' \<and> obj_Version ob' \<ge> od_Version d)" using assms(5) by (auto simp: newer_def)
    have "nf_mgr (nd_fx (node_applyDiff M ord now src rid d n)) =
        nf_mgr (fx_gossip M ord MsgWorldUpdate rid (PWorldUpdate \<lparr>wup_Objects = Some [d]\<rparr>) src ?own)"
      using True by (simp add: applyDiff_eq Let_def assms(5) ob own_msg)
    moreover have "objects (nd_world (node_applyDiff M ord now src rid d n)) = (objects (nd_world n))(od_ObjectID d \<mapsto> ob)"
      using True by (simp add: applyDiff_objects assms(5) ob)
    ultimately show ?thesis unfolding if_not_P [OF no] by (simp add: passed own(2) option.map_comp o_def Let_def)
  qed
qed


definition exampleOrder :: "PeerManager \<Rightarrow> TcpOracle" where
  \<comment> \<open>a range over the map in the order in which the peers were added\<close>
  "exampleOrder m = \<lparr>to_order = map fst (pm_peers m), to_error = None, to_addr = '''', to_nanos = 9\<rparr>"

definition exampleUpdate1 :: "uint64 \<Rightarrow> string \<Rightarrow> ObjectDiff" where
  "exampleUpdate1 v data = \<lparr>od_ObjectID = ''door'', od_Data = Some data, od_Version = v, od_Meta = None\<rparr>"

definition exampleNodeTcp :: "PeerManager Node" where
  "exampleNodeTcp = node_Run tcpManager exampleOrder (node_New world_New (coordinator_New None) exampleTcp gossip_New None (Some [''*'']))"

lemma exampleUpdate1_encodes:
  assumes "od_Data d = Some ''1''" and "od_Meta d = None"
  shows "protocol_Encode MsgWorldUpdate '''' (Some (PWorldUpdate \<lparr>wup_Objects = Some [d]\<rparr>)) \<noteq> None"
proof -
  have "jsonValue 4 ''1'' \<noteq> None" by code_simp
  then have "encodable (MsgWorldUpdate, '''', Some (PWorldUpdate \<lparr>wup_Objects = Some [d]\<rparr>))"
    using assms by (simp add: encodable_def raws_WorldUpdate rawsOf_def wellNested_def)
  from datagram_decodes(2) [OF this] show ?thesis by simp
qed

theorem remote_update_exact_witness:
  "\<exists>own passed. pm_outboxes (nf_mgr (nd_fx (node_applyDiff tcpManager exampleOrder 5 ''elsewhere'' '''' (exampleUpdate1 4 ''1'') exampleNodeTcp)))
     ''peer-7-0'' = Some [own, passed]"
proof -
  let ?ob = "\<lparr>obj_ID = ''door'', obj_Data = Some ''1'', obj_Version = 1, obj_Tags = Some [''*''], obj_Meta = None, obj_UpdatedAt = 5\<rparr>"
  obtain own where own: "protocol_Encode MsgWorldUpdate '''' (Some (PWorldUpdate \<lparr>wup_Objects = Some [announced ?ob]\<rparr>)) = Some own"
    using exampleUpdate1_encodes [of "announced ?ob"] by (auto simp: announced_def)
  obtain passed where passed: "protocol_Encode MsgWorldUpdate '''' (Some (PWorldUpdate \<lparr>wup_Objects = Some [exampleUpdate1 4 ''1'']\<rparr>)) = Some passed"
    using exampleUpdate1_encodes [of "exampleUpdate1 4 ''1''"] by (auto simp: exampleUpdate1_def)
  have node: "handlers (nd_world exampleNodeTcp) = [node_on_change tcpManager exampleOrder]" "nf_mgr (nd_fx exampleNodeTcp) = exampleTcp"
    "objects (nd_world exampleNodeTcp) = Map.empty" "nd_tags exampleNodeTcp = Some [''*'']"
    by (simp_all add: exampleNodeTcp_def node_Run_def node_New_def world_New_def world_OnChange_def)
  have orders: "\<forall>m. pm_ok m \<longrightarrow> enumerates (to_order (exampleOrder m)) (map_of (pm_peers m))"
    by (auto simp: exampleOrder_def enumerates_def pm_okD(1) dom_map_of_conv_image_fst)
  have old: "objects (nd_world exampleNodeTcp) (od_ObjectID (exampleUpdate1 4 ''1'')) = None" by (simp add: node)
  have ob: "?ob = \<lparr>obj_ID = od_ObjectID (exampleUpdate1 4 ''1''), obj_Data = orExisting (od_Data (exampleUpdate1 4 ''1'')) (map_option obj_Data None),
      obj_Version = currentVersion None + 1, obj_Tags = orExisting (nd_tags exampleNodeTcp) (map_option obj_Tags None),
      obj_Meta = orExisting (od_Meta (exampleUpdate1 4 ''1'')) (map_option obj_Meta None), obj_UpdatedAt = 5\<rparr>"
    by (simp add: exampleUpdate1_def node currentVersion_def)
  have "pm_outboxes exampleTcp ''peer-7-0'' = Some []" by (simp add: pm_outboxes_def exampleTcp_facts newPeer_def)
  with remote_update_exact [where M = tcpManager and ord = exampleOrder and src = "''elsewhere''",
      OF tcp.peering_manager_axioms _ orders node(1) old ob own passed] exampleTcp_facts(1)
  show ?thesis by (simp add: node(2) chan_offer_def Let_def)
qed

section \<open>Versions\<close>

record Delivery =
  dl_now :: gotime
  dl_from :: string
  dl_rid :: string
  dl_diff :: ObjectDiff

definition node_deliver :: "('o, 's) PeeringManager \<Rightarrow> ('s \<Rightarrow> 'o) \<Rightarrow> Delivery list \<Rightarrow> 's Node \<Rightarrow> 's Node" where
  \<comment> \<open>updates from other nodes, one after the other\<close>
  "node_deliver M ord ds n = fold (\<lambda>dl. node_applyDiff M ord (dl_now dl) (dl_from dl) (dl_rid dl) (dl_diff dl)) ds n"

definition appliedTo :: "string \<Rightarrow> node_log list \<Rightarrow> nat" where
  \<comment> \<open>how often the log says that an update of the object was applied\<close>
  "appliedTo x ls = length (filter (\<lambda>l. \<exists>v src. l = LogApplied x v src) ls)"

definition versionOf :: "string \<Rightarrow> 's Node \<Rightarrow> uint64" where
  "versionOf x n = currentVersion (objects (nd_world n) x)"

lemma newer_version: "newer d w \<Longrightarrow> currentVersion (objects w (od_ObjectID d)) < od_Version d \<or> objects w (od_ObjectID d) = None"
  by (auto simp: newer_def split: option.splits)

lemma applyDiff_version:
  "versionOf x (node_applyDiff M ord now src rid d n) =
     (if newer d (nd_world n) \<and> od_ObjectID d = x then versionOf x n + 1 else versionOf x n)"
  by (simp add: versionOf_def applyDiff_objects appliedObject_def currentVersion_def split: option.split)

lemma applyDiff_log:
  "appliedTo x (nd_log (node_applyDiff M ord now src rid d n)) =
     appliedTo x (nd_log n) + (if newer d (nd_world n) \<and> od_ObjectID d = x then 1 else 0)"
  by (simp add: applyDiff_eq Let_def appliedTo_def)

lemma applyDiff_bound:
  assumes "1 \<le> od_Version d" and "od_Version d \<le> V" and "versionOf x n \<le> V"
  shows "versionOf x (node_applyDiff M ord now src rid d n) \<le> V \<and>
     unat (versionOf x (node_applyDiff M ord now src rid d n)) =
       unat (versionOf x n) + (if newer d (nd_world n) \<and> od_ObjectID d = x then 1 else 0)"
proof (cases "newer d (nd_world n) \<and> od_ObjectID d = x")
  case True
  have "versionOf x n < od_Version d"
    using newer_version [of d "nd_world n"] True assms(1) by (auto simp: versionOf_def currentVersion_def word_less_nat_alt word_le_nat_alt)
  then have less: "unat (versionOf x n) < unat V" using assms(2) by (simp add: word_less_nat_alt word_le_nat_alt)
  then have "unat (versionOf x n + 1) = Suc (unat (versionOf x n))" proof (intro unat_Suc_no_wrap)
    have "unat V < 2 ^ LENGTH(64)" by (rule unsigned_less)
    with less show "unat (versionOf x n) < 2 ^ 64 - 1" by simp
  qed
  then show ?thesis using True less by (simp add: applyDiff_version word_le_nat_alt)
next
  case False
  then show ?thesis using assms(3) by (auto simp: applyDiff_version)
qed

text \<open>C10. Gossip storms end: if no announced version exceeds \<open>V\<close>, then however many updates a node receives,
  in whatever order and from whomever, the version of an object never exceeds \<open>V\<close>, it grows by exactly one
  for each update that is applied, and so at most \<open>V\<close> updates of the object are ever applied and passed on,
  however long the peers go on sending.\<close>

theorem gossip_storms_end:
  fixes n :: "'s Node"
  assumes "\<forall>dl \<in> set ds. 1 \<le> od_Version (dl_diff dl) \<and> od_Version (dl_diff dl) \<le> V" and "versionOf x n \<le> V"
  shows "versionOf x (node_deliver M ord ds n) \<le> V \<and>
     appliedTo x (nd_log (node_deliver M ord ds n)) + unat (versionOf x n) =
       appliedTo x (nd_log n) + unat (versionOf x (node_deliver M ord ds n)) \<and>
     appliedTo x (nd_log (node_deliver M ord ds n)) \<le> appliedTo x (nd_log n) + unat V"
proof -
  have "versionOf x (node_deliver M ord ds n) \<le> V \<and>
      appliedTo x (nd_log (node_deliver M ord ds n)) + unat (versionOf x n) =
        appliedTo x (nd_log n) + unat (versionOf x (node_deliver M ord ds n))"
    using assms(1)
  proof (induction ds rule: rev_induct)
    case Nil
    then show ?case using assms(2) by (simp add: node_deliver_def)
  next
    case (snoc dl ds)
    let ?n = "node_deliver M ord ds n"
    have step: "node_deliver M ord (ds @ [dl]) n = node_applyDiff M ord (dl_now dl) (dl_from dl) (dl_rid dl) (dl_diff dl) ?n"
      by (simp add: node_deliver_def)
    have IH: "versionOf x ?n \<le> V" "appliedTo x (nd_log ?n) + unat (versionOf x n) = appliedTo x (nd_log n) + unat (versionOf x ?n)"
      using snoc by simp_all
    have "1 \<le> od_Version (dl_diff dl)" "od_Version (dl_diff dl) \<le> V" using snoc.prems by simp_all
    from applyDiff_bound [where M = M and ord = ord and now = "dl_now dl" and src = "dl_from dl" and rid = "dl_rid dl", OF this IH(1)] IH(2)
    show ?case by (simp add: step applyDiff_log)
  qed
  moreover from this have "unat (versionOf x (node_deliver M ord ds n)) \<le> unat V" by (simp add: word_le_nat_alt)
  ultimately show ?thesis by linarith
qed

definition exampleNode :: "PeerManager Node" where
  "exampleNode = node_New world_New (coordinator_New None) pm_New gossip_New None (Some [''*''])"


definition exampleDelivery :: "uint64 \<Rightarrow> string \<Rightarrow> Delivery" where
  "exampleDelivery v data = \<lparr>dl_now = 5, dl_from = ''peer-1'', dl_rid = '''', dl_diff = exampleUpdate1 v data\<rparr>"

lemma exampleNode_facts:
  "objects (nd_world exampleNode) = Map.empty" "nd_log exampleNode = []" "versionOf x exampleNode = 0"
  by (simp_all add: exampleNode_def node_New_def world_New_def versionOf_def currentVersion_def)

theorem gossip_storms_end_witness:
  "appliedTo ''door'' (nd_log (node_deliver tcpManager (\<lambda>_. exampleTcpOracle)
     [exampleDelivery 3 ''1'', exampleDelivery 2 ''2'', exampleDelivery 3 ''3'', exampleDelivery 3 ''4'', exampleDelivery 3 ''5''] exampleNode)) \<le> 3"
proof -
  let ?ds = "[exampleDelivery 3 ''1'', exampleDelivery 2 ''2'', exampleDelivery 3 ''3'', exampleDelivery 3 ''4'', exampleDelivery 3 ''5'']"
  have "\<forall>dl \<in> set ?ds. 1 \<le> od_Version (dl_diff dl) \<and> od_Version (dl_diff dl) \<le> 3"
    by (simp add: exampleDelivery_def exampleUpdate1_def)
  moreover have "versionOf ''door'' exampleNode \<le> 3" by (simp add: exampleNode_facts)
  note gossip_storms_end [OF calculation this, of tcpManager "\<lambda>_. exampleTcpOracle"]
  moreover have "appliedTo ''door'' (nd_log exampleNode) = 0" by (simp add: exampleNode_facts appliedTo_def)
  ultimately show ?thesis by simp
qed

section \<open>Following a writer\<close>

text \<open>C21. A node follows a single writer: if all updates of an object come from one writer, which announces
  its versions 1, 2, 3, ... and they arrive in this order without gaps, then the node holds exactly the
  writer's version and its data, as compacted by the wire.\<close>

theorem follows_single_writer:
  fixes n :: "'s Node"
  assumes "objects (nd_world n) x = None" and "obs \<noteq> []" and "length obs < 2 ^ 64" and "toValidUTF8 x = x"
    and "\<forall>i < length obs. obj_ID (obs ! i) = x \<and> obj_Version (obs ! i) = word_of_nat (Suc i) \<and> wellNested (obj_Data (obs ! i))"
  shows "\<exists>ob. objects (nd_world (fold (\<lambda>ob. node_applyDiff M ord now src rid (receivedDiff (announced ob))) obs n)) x = Some ob \<and>
     obj_Version ob = obj_Version (last obs) \<and> obj_Data ob = marshalRaw (obj_Data (last obs))"
  using assms(2,3,5)
proof (induction obs rule: rev_induct)
  case Nil
  then show ?case by simp
next
  case (snoc ob obs)
  let ?n = "fold (\<lambda>ob. node_applyDiff M ord now src rid (receivedDiff (announced ob))) obs n"
  let ?d = "receivedDiff (announced ob)"
  have ob: "obj_ID ob = x" "obj_Version ob = word_of_nat (Suc (length obs))" "wellNested (obj_Data ob)"
    using snoc.prems(3) [rule_format, of "length obs"] by simp_all
  have d: "od_ObjectID ?d = x" "od_Version ?d = word_of_nat (Suc (length obs))" "od_Data ?d = marshalRaw (obj_Data ob)"
    using ob assms(4) by (simp_all add: receivedDiff_def announced_def)
  have data: "orExisting (marshalRaw (obj_Data ob)) old = marshalRaw (obj_Data ob)" for old
    using marshalRaw_depth [OF ob(3)] by (metis orExisting_simps(2))
  have "currentVersion (objects (nd_world ?n) x) = word_of_nat (length obs)"
  proof (cases "obs = []")
    case True
    then show ?thesis using assms(1) by (simp add: currentVersion_def)
  next
    case False
    have "\<forall>i < length obs. obj_ID (obs ! i) = x \<and> obj_Version (obs ! i) = word_of_nat (Suc i) \<and> wellNested (obj_Data (obs ! i))"
    proof (intro allI impI)
      fix i
      assume "i < length obs"
      then show "obj_ID (obs ! i) = x \<and> obj_Version (obs ! i) = word_of_nat (Suc i) \<and> wellNested (obj_Data (obs ! i))"
        using snoc.prems(3) [rule_format, of i] by (simp add: nth_append)
    qed
    moreover from this [rule_format, of "length obs - 1"] False have "obj_Version (last obs) = word_of_nat (length obs)"
      by (simp add: last_conv_nth del: of_nat_Suc)
    ultimately show ?thesis using snoc.IH False snoc.prems(2) by (auto simp: currentVersion_def)
  qed
  moreover have "(word_of_nat (length obs) :: uint64) < word_of_nat (Suc (length obs))"
    using snoc.prems(2) by (simp add: word_less_nat_alt unat_of_nat del: of_nat_Suc)
  ultimately have "newer ?d (nd_world ?n)"
    by (auto simp: newer_def d currentVersion_def simp del: of_nat_Suc split: option.splits)
  moreover have "currentVersion (objects (nd_world ?n) x) + 1 = obj_Version ob"
    using \<open>currentVersion (objects (nd_world ?n) x) = word_of_nat (length obs)\<close> ob(2) by simp
  ultimately show ?case
    by (cases "objects (nd_world ?n) x")
      (simp_all add: applyDiff_objects d appliedObject_def remoteRequest_def data currentVersion_def)
qed

definition exampleHistory :: "Object list" where
  "exampleHistory = [\<lparr>obj_ID = ''door'', obj_Data = Some ''1'', obj_Version = 1, obj_Tags = None, obj_Meta = None, obj_UpdatedAt = 0\<rparr>,
     \<lparr>obj_ID = ''door'', obj_Data = Some '' 2'', obj_Version = 2, obj_Tags = None, obj_Meta = None, obj_UpdatedAt = 0\<rparr>]"


lemma exampleHistory_facts:
  "\<forall>i < length exampleHistory. obj_ID (exampleHistory ! i) = ''door'' \<and> obj_Version (exampleHistory ! i) = word_of_nat (Suc i) \<and>
     wellNested (obj_Data (exampleHistory ! i))" "obj_Version (last exampleHistory) = 2" "obj_Data (last exampleHistory) = Some '' 2''"
proof -
  have "jsonValue 4 ''1'' \<noteq> None" "jsonValue 4 '' 2'' \<noteq> None" by code_simp+
  then show "\<forall>i < length exampleHistory. obj_ID (exampleHistory ! i) = ''door'' \<and> obj_Version (exampleHistory ! i) = word_of_nat (Suc i) \<and>
     wellNested (obj_Data (exampleHistory ! i))"
    by (auto simp: exampleHistory_def wellNested_def less_Suc_eq)
qed (simp_all add: exampleHistory_def)

theorem follows_single_writer_witness:
  "\<exists>ob. objects (nd_world (fold (\<lambda>ob. node_applyDiff tcpManager (\<lambda>_. exampleTcpOracle) 5 ''p'' '''' (receivedDiff (announced ob)))
       exampleHistory exampleNode)) ''door'' = Some ob \<and> obj_Version ob = 2 \<and> obj_Data ob = marshalRaw (Some '' 2'')"
proof -
  have "toValidUTF8 ''door'' = ''door''" by (rule toValidUTF8_ascii) (simp add: code_def)
  moreover have "objects (nd_world exampleNode) ''door'' = None" "exampleHistory \<noteq> []" "length exampleHistory < 2 ^ 64"
    by (simp_all add: exampleNode_facts) (simp_all add: exampleHistory_def)
  ultimately show ?thesis
    using follows_single_writer [where n = exampleNode and x = "''door''" and obs = exampleHistory and M = tcpManager and
        ord = "\<lambda>_. exampleTcpOracle" and now = 5 and src = "''p''" and rid = "''''"] exampleHistory_facts by simp
qed

section \<open>Where nodes do not converge\<close>

text \<open>C35. Nodes diverge: two updates of an object that arrive at one node in the order of their versions and
  at another in the opposite order leave both nodes at the same version with different data, because a node
  counts updates instead of taking over their version; the announcements that they then exchange are both
  ignored, so that they never agree again through them.\<close>

theorem delivery_order_decides:
  fixes n :: "'s Node" and M :: "('o, 's) PeeringManager" and ord :: "'s \<Rightarrow> 'o" and t1 t2 :: gotime and src1 src2 rid :: string
  assumes "objects (nd_world n) (od_ObjectID d1) = None" and "od_ObjectID d2 = od_ObjectID d1"
    and "1 < od_Version d1" and "1 < od_Version d2" and "od_Data d1 = Some a" and "od_Data d2 = Some b"
  defines "n1 \<equiv> node_applyDiff M ord t2 src2 rid d2 (node_applyDiff M ord t1 src1 rid d1 n)"
    and "n2 \<equiv> node_applyDiff M ord t1 src1 rid d1 (node_applyDiff M ord t2 src2 rid d2 n)"
  shows "\<exists>x y. objects (nd_world n1) (od_ObjectID d1) = Some x \<and> objects (nd_world n2) (od_ObjectID d1) = Some y \<and>
     obj_Version x = 2 \<and> obj_Version y = 2 \<and> obj_Data x = Some b \<and> obj_Data y = Some a \<and>
     node_applyDiff M ord t3 src3 rid' (announced y) n1 = n1 \<and> node_applyDiff M ord t3 src3 rid' (announced x) n2 = n2"
proof -
  have first: "objects (nd_world (node_applyDiff M ord t src rid d n)) (od_ObjectID d1) =
      Some (appliedObject t None (remoteRequest (nd_tags n) d))" if "od_ObjectID d = od_ObjectID d1" for t src d
    using assms(1) that by (simp add: applyDiff_objects newer_def)
  have second: "objects (nd_world (node_applyDiff M ord t src rid d m)) (od_ObjectID d1) = Some (appliedObject t (Some ob) (remoteRequest (nd_tags m) d))"
    if "objects (nd_world m) (od_ObjectID d1) = Some ob" "obj_Version ob = 1" "1 < od_Version d" "od_ObjectID d = od_ObjectID d1" for t src d m ob
    using that by (simp add: applyDiff_objects newer_def)
  obtain x where x: "objects (nd_world n1) (od_ObjectID d1) = Some x" "obj_ID x = od_ObjectID d1" "obj_Version x = 2" "obj_Data x = Some b"
    unfolding n1_def using second [OF first [OF refl] _ assms(4,2)] assms(2,6)
    by (auto simp: appliedObject_def remoteRequest_def)
  obtain y where y: "objects (nd_world n2) (od_ObjectID d1) = Some y" "obj_ID y = od_ObjectID d1" "obj_Version y = 2" "obj_Data y = Some a"
    unfolding n2_def using second [OF first [OF assms(2)] _ assms(3) refl] assms(2,5)
    by (auto simp: appliedObject_def remoteRequest_def)
  have "\<not> newer (announced y) (nd_world n1)" "\<not> newer (announced x) (nd_world n2)"
    using x y by (simp_all add: newer_def announced_def)
  with x y show ?thesis by (auto simp: applyDiff_eq)
qed

theorem delivery_order_decides_witness:
  "\<exists>x y. objects (nd_world (node_applyDiff tcpManager (\<lambda>_. exampleTcpOracle) 6 ''p'' '''' (exampleUpdate1 5 ''5'')
        (node_applyDiff tcpManager (\<lambda>_. exampleTcpOracle) 5 ''p'' '''' (exampleUpdate1 3 ''3'') exampleNode))) ''door'' = Some x \<and>
     objects (nd_world (node_applyDiff tcpManager (\<lambda>_. exampleTcpOracle) 5 ''p'' '''' (exampleUpdate1 3 ''3'')
        (node_applyDiff tcpManager (\<lambda>_. exampleTcpOracle) 6 ''p'' '''' (exampleUpdate1 5 ''5'') exampleNode))) ''door'' = Some y \<and>
     obj_Version x = obj_Version y \<and> obj_Data x = Some ''5'' \<and> obj_Data y = Some ''3''"
  using delivery_order_decides [of exampleNode "exampleUpdate1 3 ''3''" "exampleUpdate1 5 ''5''" "''3''" "''5''"
      tcpManager "\<lambda>_. exampleTcpOracle" 6 "''p''" "''''" 5 "''p''"]
  by (simp add: exampleNode_facts exampleUpdate1_def) metis


definition unconditional :: "MergeFunc \<Rightarrow> string \<Rightarrow> string \<Rightarrow> bool" where
  \<comment> \<open>the merge function accepts every submission of the task, as one unconditional update of the object\<close>
  "unconditional fn task x \<longleftrightarrow> (\<forall>sub. sub_TaskID sub = task \<longrightarrow>
     dec_Accept (fn sub) \<and> (\<exists>q. dec_Updates (fn sub) = [q] \<and> req_ObjectID q = x \<and> req_ExpectedVersion q = 0))"

lemma node_submit_sel [simp]:
  "nd_gossip (node_submit orc sub n) = nd_gossip n" "nd_coord (node_submit orc sub n) = nd_coord n"
  "nd_world (node_submit orc sub n) = fst (coordinator_Submit (no_world orc) (nd_coord n) (nd_world n) (nd_fx n) sub)"
  by (simp_all add: node_submit_def split_def Let_def)

lemma node_submit_version:
  assumes "unconditional (mergeFunc (nd_coord n)) (sub_TaskID sub) x"
  shows "versionOf x (node_submit orc sub n) = versionOf x n + 1"
proof -
  obtain q where q: "dec_Accept (mergeFunc (nd_coord n) sub)" "dec_Updates (mergeFunc (nd_coord n) sub) = [q]"
    "req_ObjectID q = x" "req_ExpectedVersion q = 0" using assms by (auto simp: unconditional_def)
  have "admissible (nd_world n) q" using q(4) by (simp add: admissible_def)
  then have "objects (nd_world (node_submit orc sub n)) = (objects (nd_world n))(x \<mapsto> appliedObject (no_world orc 0) (objects (nd_world n) x) q)"
    using q by (simp add: coordinator_Submit_world thread_Cons world_put_unfold world_Apply_objects del: thread.simps(2))
  then show ?thesis by (simp add: versionOf_def appliedObject_def currentVersion_def split: option.split)
qed

text \<open>A node merges its own submission twice when it comes back: the node does not record the messages it
  broadcasts, so in a ring of peers, or over two transports at once, its own submission returns as a new
  message, is merged again, and the object's version grows by two for one result.\<close>

theorem own_submission_merged_again:
  fixes n :: "'s Node"
  assumes "env_Type env = MsgSubmitResult" and "unmarshal_SubmitResult (env_Payload env) = Some p"
    and "g_seen (nd_gossip n) (messageID env) = None" and "unconditional (mergeFunc (nd_coord n)) (srp_TaskID p) x"
  shows "versionOf x (node_handlePeerMessage M ord orc' src env (node_SubmitLocalResult orc (srp_TaskID p) (srp_Data p) n)) = versionOf x n + 2"
proof -
  let ?n1 = "node_SubmitLocalResult orc (srp_TaskID p) (srp_Data p) n"
  have n1: "versionOf x ?n1 = versionOf x n + 1" "nd_gossip ?n1 = nd_gossip n" "nd_coord ?n1 = nd_coord n"
    using node_submit_version [where n = n] assms(4) by (simp_all add: node_SubmitLocalResult_def)
  obtain g where fw: "ShouldForward (no_seen orc') env (nd_gossip n) = (g, True)"
    using ShouldForward_seen(1) [of "no_seen orc'" env "nd_gossip n"] assms(3) by (metis prod.collapse)
  let ?n2 = "?n1\<lparr>nd_gossip := g\<rparr>"
  let ?sub = "\<lparr>sub_TaskID = srp_TaskID p, sub_OwnerID = src, sub_Data = srp_Data p, sub_Meta = srp_Meta p\<rparr>"
  have "nd_world (node_handlePeerMessage M ord orc' src env ?n1) = nd_world (node_submit orc' ?sub ?n2)"
    using assms(1,2) fw by (simp add: node_handlePeerMessage_def n1(2) node_handleRemoteSubmit_def Let_def MsgSubmitResult_def MsgWorldUpdate_def)
  then have "versionOf x (node_handlePeerMessage M ord orc' src env ?n1) = versionOf x (node_submit orc' ?sub ?n2)"
    by (simp add: versionOf_def)
  also have "\<dots> = versionOf x ?n2 + 1" using assms(4) by (intro node_submit_version) (simp add: n1(3))
  also have "\<dots> = versionOf x n + 2" using n1(1) by (simp add: versionOf_def)
  finally show ?thesis .
qed

definition exampleMerge :: MergeFunc where
  "exampleMerge sub = \<lparr>dec_Accept = True, dec_Reason = '''',
     dec_Updates = [\<lparr>req_ObjectID = sub_TaskID sub, req_Data = sub_Data sub, req_ExpectedVersion = 0, req_Tags = None, req_Meta = None\<rparr>]\<rparr>"

definition exampleNodeOracle :: NodeOracle where
  "exampleNodeOracle = \<lparr>no_seen = 5, no_world = (\<lambda>_. 5), no_metrics = 5\<rparr>"

theorem own_submission_merged_again_witness:
  "\<exists>p. unmarshal_SubmitResult (json_Marshal (PSubmitResult exampleSubmit)) = Some p \<and>
     versionOf (srp_TaskID p) (node_handlePeerMessage tcpManager (\<lambda>_. exampleTcpOracle) exampleNodeOracle ''p''
       \<lparr>env_Type = MsgSubmitResult, env_RequestID = '''', env_Payload = json_Marshal (PSubmitResult exampleSubmit)\<rparr>
       (node_SubmitLocalResult exampleNodeOracle (srp_TaskID p) (srp_Data p) (exampleNode\<lparr>nd_coord := coordinator_New (Some exampleMerge)\<rparr>))) = 2"
proof -
  obtain p where p: "unmarshal_SubmitResult (json_Marshal (PSubmitResult exampleSubmit)) = Some p"
    using unmarshal_submit_json [OF exampleSubmit_nested] by blast
  let ?n = "exampleNode\<lparr>nd_coord := coordinator_New (Some exampleMerge)\<rparr>"
  let ?env = "\<lparr>env_Type = MsgSubmitResult, env_RequestID = '''', env_Payload = json_Marshal (PSubmitResult exampleSubmit)\<rparr>"
  have "unconditional (mergeFunc (nd_coord ?n)) (srp_TaskID p) (srp_TaskID p)"
    by (simp add: unconditional_def coordinator_New_def exampleMerge_def)
  moreover have "g_seen (nd_gossip ?n) (messageID ?env) = None" by (simp add: exampleNode_def node_New_def gossip_New_def)
  moreover have "versionOf (srp_TaskID p) ?n = 0" by (simp add: versionOf_def exampleNode_facts currentVersion_def)
  ultimately show ?thesis
    using own_submission_merged_again [of ?env p ?n "srp_TaskID p" tcpManager "\<lambda>_. exampleTcpOracle" exampleNodeOracle "''p''" exampleNodeOracle] p
    by (intro exI [of _ p]) simp
qed

end
