(* ===== verification/IntMap.thy ===== *)
theory IntMap imports Protocol "HOL-Library.AList" "HOL-Library.Multiset" "HOL-Library.List_Lexorder" "HOL-Library.Char_ord" begin

text \<open>
  The payload of the example peer, a \<open>map[string]int\<close>: how \<open>json.Unmarshal\<close> fills it and how
  \<open>json.Marshal\<close> writes it, with its keys in the order of their bytes.  A map is the list of its
  entries without repeated keys, \<open>None\<close> is the \<open>nil\<close> map.  The lemmas show that decoded strings are
  always valid UTF-8 and that a decoded map is written to a text from which it is read back.
\<close>

section \<open>Decoded strings are valid UTF-8\<close>

lemma valid_rune:
  assumes "runeTail c s = Some k"
  shows "toValidUTF8 (c # take k s @ t) = c # take k s @ toValidUTF8 t"
  using runeTail_facts(1,2) [OF assms] runeTail_facts(4) [OF assms, of t]
  by (simp add: toValidUTF8.simps(2))

lemma valid_ascii: "code c < 128 \<Longrightarrow> toValidUTF8 (c # t) = c # toValidUTF8 t"
  by (simp add: toValidUTF8.simps(2))

lemma code_byte [simp]: "n < 256 \<Longrightarrow> code (byte n) = n"
  by (rule code_numeral)

lemma runeTail_3:
  assumes "0xE0 \<le> b" "b \<le> 0xEF" "0x80 \<le> x" "x \<le> 0xBF" "0x80 \<le> y" "y \<le> 0xBF" "b = 0xE0 \<Longrightarrow> 0xA0 \<le> x" "b = 0xED \<Longrightarrow> x \<le> 0x9F"
  shows "runeTail (byte b) [byte x, byte y] = Some 2"
proof -
  have "secondByte b [byte x, byte y]" "cont 0x80 0xBF [byte y]" using assms by (auto simp: secondByte_def cont_def)
  with assms(1,2) show ?thesis by (simp add: runeTail_def Let_def)
qed

lemma runeTail_4:
  assumes "0xF0 \<le> b" "b \<le> 0xF4" "0x80 \<le> x" "x \<le> 0xBF" "0x80 \<le> y" "y \<le> 0xBF" "0x80 \<le> z" "z \<le> 0xBF"
    and "b = 0xF0 \<Longrightarrow> 0x90 \<le> x" "b = 0xF4 \<Longrightarrow> x \<le> 0x8F"
  shows "runeTail (byte b) [byte x, byte y, byte z] = Some 3"
proof -
  have "secondByte b [byte x, byte y, byte z]" "cont 0x80 0xBF [byte y, byte z]" "cont 0x80 0xBF [byte z]"
    using assms by (auto simp: secondByte_def cont_def)
  with assms(1,2) show ?thesis by (simp add: runeTail_def Let_def numeral_2_eq_2)
qed

lemma valid_encodeRune:
  assumes "r < 0x110000" and "\<not> surrogate r"
  shows "toValidUTF8 (encodeRune r @ t) = encodeRune r @ toValidUTF8 t"
proof -
  consider "r < 0x80" | "0x80 \<le> r" "r < 0x800" | "0x800 \<le> r" "r < 0x10000" | "0x10000 \<le> r" by linarith
  then show ?thesis
  proof cases
    case 1
    then show ?thesis by (simp add: encodeRune_def valid_ascii)
  next
    case 2
    let ?b = "0xC0 + r div 64" and ?x = "0x80 + r mod 64"
    have "0xC2 \<le> ?b" "?b \<le> 0xDF" using 2 by (auto simp: less_mult_imp_div_less Suc_le_eq div_le_mono)
    moreover have "0x80 \<le> ?x" "?x \<le> 0xBF" using mod_less_divisor [of 64 r] by linarith+
    ultimately have "runeTail (byte ?b) [byte ?x] = Some 1" by (simp add: runeTail_def secondByte_def cont_def)
    from valid_rune [OF this, of t] show ?thesis using 2 by (simp add: encodeRune_def)
  next
    case 3
    let ?b = "0xE0 + r div 4096" and ?x = "0x80 + r div 64 mod 64" and ?y = "0x80 + r mod 64"
    have digits: "r div 4096 * 64 + r div 64 mod 64 = r div 64" using div_mult_mod_eq [of "r div 64" 64] by (simp add: div_mult2_eq [symmetric])
    have "r div 4096 < 16" "r div 64 \<ge> 32" using 3 by (simp_all add: less_mult_imp_div_less less_eq_div_iff_mult_less_eq)
    moreover have "r div 64 < 0x360 \<or> 0x380 \<le> r div 64" using assms(2) by (auto simp: surrogate_def)
    ultimately have "0xE0 \<le> ?b" "?b \<le> 0xEF" "?b = 0xE0 \<Longrightarrow> 0xA0 \<le> ?x" "?b = 0xED \<Longrightarrow> ?x \<le> 0x9F" using digits by auto
    moreover have "0x80 \<le> ?x" "?x \<le> 0xBF" "0x80 \<le> ?y" "?y \<le> 0xBF"
      using mod_less_divisor [of 64 r] mod_less_divisor [of 64 "r div 64"] by linarith+
    ultimately have "runeTail (byte ?b) [byte ?x, byte ?y] = Some 2" by (intro runeTail_3)
    from valid_rune [OF this, of t] show ?thesis using 3 assms(2) by (auto simp: encodeRune_def surrogate_def)
  next
    case 4
    let ?b = "0xF0 + r div 262144" and ?x = "0x80 + r div 4096 mod 64" and ?y = "0x80 + r div 64 mod 64" and ?z = "0x80 + r mod 64"
    have digits: "r div 262144 * 64 + r div 4096 mod 64 = r div 4096"
      using div_mult_mod_eq [of "r div 4096" 64] by (simp add: div_mult2_eq [symmetric])
    have "r div 262144 < 5" "r div 4096 \<ge> 16" "r div 4096 < 0x110"
      using 4 assms(1) by (simp_all add: less_mult_imp_div_less less_eq_div_iff_mult_less_eq)
    then have "0xF0 \<le> ?b" "?b \<le> 0xF4" "?b = 0xF0 \<Longrightarrow> 0x90 \<le> ?x" "?b = 0xF4 \<Longrightarrow> ?x \<le> 0x8F" using digits by auto
    moreover have "0x80 \<le> ?x" "?x \<le> 0xBF" "0x80 \<le> ?y" "?y \<le> 0xBF" "0x80 \<le> ?z" "?z \<le> 0xBF"
      using mod_less_divisor [of 64 r] mod_less_divisor [of 64 "r div 64"] mod_less_divisor [of 64 "r div 4096"] by linarith+
    ultimately have "runeTail (byte ?b) [byte ?x, byte ?y, byte ?z] = Some 3" by (intro runeTail_4)
    from valid_rune [OF this, of t] show ?thesis using 4 by (simp add: encodeRune_def)
  qed
qed

lemma valid_runeError: "toValidUTF8 (runeError @ t) = runeError @ toValidUTF8 t"
  using valid_encodeRune [of "0xFFFD" t] by (simp add: encodeRune_def runeError_def surrogate_def)

lemma hexVal_less: "hexVal c = Some n \<Longrightarrow> n < 16"
  by (auto simp: hexVal_def isDigit_def code_def split: if_splits)

lemma hex4_less: "hex4 s = Some (n, r) \<Longrightarrow> n < 65536"
  by (cases s rule: hex4.cases) (auto split: option.splits dest!: hexVal_less)

lemma lowSurrogate_less: "lowSurrogate s = Some r \<Longrightarrow> 0xDC00 \<le> r \<and> r < 0xE000"
  by (auto simp: lowSurrogate_def split: list.splits if_splits option.splits)

lemma simpleEscape_less: "simpleEscape e = Some x \<Longrightarrow> code x < 128"
  by (auto simp: simpleEscape_def code_def split: if_splits)

lemma valid_pair:
  assumes "r < 0xDC00" and "lowSurrogate s = Some r'"
  shows "toValidUTF8 (encodeRune ((r - 0xD800) * 1024 + (r' - 0xDC00) + 0x10000) @ t) =
    encodeRune ((r - 0xD800) * 1024 + (r' - 0xDC00) + 0x10000) @ toValidUTF8 t"
proof -
  have "r - 0xD800 < 0x400" "r' - 0xDC00 < 0x400" using assms(1) lowSurrogate_less [OF assms(2)] by linarith+
  then show ?thesis by (intro valid_encodeRune) (auto simp: surrogate_def)
qed

lemma unquote_valid: "validUTF8 (unquote s)"
proof (induction s rule: unquote.induct)
  case (2 c s)
  show ?case
  proof (cases "c = BS")
    case False
    then show ?thesis using 2 by (cases "code c < 128") (auto simp: validUTF8_def unquote.simps(2) valid_ascii valid_rune valid_runeError split: option.split)
  next
    case True
    show ?thesis
    proof (cases s)
      case (Cons e s')
      show ?thesis
      proof (cases "e = CHR ''u''")
        case u: False
        then show ?thesis using 2 True Cons
          by (auto simp: validUTF8_def unquote.simps(2) valid_ascii simpleEscape_less split: option.split)
      next
        case u: True
        show ?thesis
        proof (cases "hex4 s'")
          case (Some h)
          obtain r q where h: "hex4 s' = Some (r, q)" using Some by (cases h) auto
          note r = hex4_less [OF h]
          show ?thesis using 2 True Cons u h r
            by (auto simp: validUTF8_def unquote.simps(2) valid_runeError valid_encodeRune surrogate_def valid_pair [unfolded add.assoc [symmetric], simplified] split: option.split)
        qed (use True Cons u in \<open>simp add: validUTF8_def unquote.simps(2)\<close>)
      qed
    qed (use True in \<open>simp add: validUTF8_def unquote.simps(2)\<close>)
  qed
qed (simp add: validUTF8_def)

section \<open>Maps of integers\<close>

type_synonym intMap = "(string \<times> int) list option"

primrec decEntries :: "(bytes \<times> bytes) list \<Rightarrow> (string \<times> int) list \<Rightarrow> (string \<times> int) list option" where
  \<comment> \<open>every value starts from zero, which \<open>null\<close> leaves; a later entry replaces an earlier one\<close>
  "decEntries [] m = Some m"
| "decEntries (kv # kvs) m =
     (case decInt64 (snd kv) 0 of None \<Rightarrow> None | Some i \<Rightarrow> decEntries kvs (AList.update (fst kv) i m))"

definition decIntMap :: "bytes \<Rightarrow> intMap \<Rightarrow> intMap option" where
  "decIntMap v cur =
     (if v = jnull then Some None
      else (case members v of None \<Rightarrow> None | Some kvs \<Rightarrow> map_option Some (decEntries kvs (case cur of None \<Rightarrow> [] | Some m \<Rightarrow> m))))"

definition unmarshal_intMap :: "char slice \<Rightarrow> intMap option" where
  "unmarshal_intMap s = json_Unmarshal decIntMap (elems s) None"

definition marshal_intMap :: "intMap \<Rightarrow> bytes" where
  "marshal_intMap m =
     (case m of None \<Rightarrow> jnull
      | Some es \<Rightarrow> jobject (map (\<lambda>(k, i). (quoteBody k, showInt i)) (sort_key fst es)))"

definition entries_ok :: "(string \<times> int) list \<Rightarrow> bool" where
  "entries_ok es \<longleftrightarrow> distinct (map fst es) \<and> (\<forall>(k, i) \<in> set es. validUTF8 k \<and> - (2 ^ 63) \<le> i \<and> i < 2 ^ 63)"

lemma parseInt_range: "parseInt s = Some i \<Longrightarrow> - (2 ^ 63) \<le> i \<and> i < 2 ^ 63"
  by (auto simp: parseInt_def Let_def split: if_splits)

lemma decEntries_ok:
  assumes "decEntries kvs m = Some es" and "entries_ok m" and "\<forall>kv \<in> set kvs. validUTF8 (fst kv)"
  shows "entries_ok es"
  using assms
proof (induction kvs arbitrary: m)
  case (Cons kv kvs)
  obtain i where i: "decInt64 (snd kv) 0 = Some i" "decEntries kvs (AList.update (fst kv) i m) = Some es"
    using Cons.prems(1) by (auto split: option.splits)
  have range: "- (2 ^ 63) \<le> i \<and> i < 2 ^ 63" using i(1) by (auto simp: decInt64_def dest: parseInt_range split: if_splits)
  have m: "distinct (map fst m)" "\<forall>(k, i) \<in> set m. validUTF8 k \<and> - (2 ^ 63) \<le> i \<and> i < 2 ^ 63"
    using Cons.prems(2) by (simp_all add: entries_ok_def)
  have "entries_ok (AList.update (fst kv) i m)"
    unfolding entries_ok_def
  proof (intro conjI ballI)
    show d: "distinct (map fst (AList.update (fst kv) i m))" using m(1) by (simp add: distinct_update)
    fix e
    assume e: "e \<in> set (AList.update (fst kv) i m)"
    then have "map_of (AList.update (fst kv) i m) (fst e) = Some (snd e)" using d by simp
    then have "e = (fst kv, i) \<or> e \<in> set m" by (auto simp: update_conv' prod_eq_iff split: if_splits dest: map_of_SomeD)
    then show "case e of (k, i) \<Rightarrow> validUTF8 k \<and> - (2 ^ 63) \<le> i \<and> i < 2 ^ 63" using m(2) range Cons.prems(3) by auto
  qed
  from Cons.IH [OF i(2) this] Cons.prems(3) show ?case by simp
qed simp

lemma members_valid: "members v = Some kvs \<Longrightarrow> \<forall>kv \<in> set kvs. validUTF8 (fst kv)"
  by (auto simp: members_def unquote_valid split: if_splits)

lemma unmarshal_intMap_ok: "unmarshal_intMap s = Some (Some es) \<Longrightarrow> entries_ok es"
  using decEntries_ok [OF _ _ members_valid, of _ "[]" es]
  by (auto simp: unmarshal_intMap_def json_Unmarshal_def decIntMap_def split: option.splits if_splits)
     (simp_all add: entries_ok_def)

lemma entries_ok_sort [simp]: "entries_ok (sort_key fst es) \<longleftrightarrow> entries_ok es"
proof -
  have "mset (map fst (sort_key fst es)) = mset (map fst es)" by simp
  then have "distinct (map fst (sort_key fst es)) = distinct (map fst es)" by (rule mset_eq_imp_distinct_iff)
  then show ?thesis by (simp add: entries_ok_def)
qed

lemma update_fresh: "k \<notin> fst ` set m \<Longrightarrow> AList.update k i m = m @ [(k, i)]"
  by (induction m) auto

lemma showInt_not_null [simp]: "showInt i \<noteq> jnull"
  by (simp add: showInt_def jnull_def) (simp add: jnull_def [symmetric])

lemma decEntries_written:
  "entries_ok (m @ es) \<Longrightarrow> decEntries (map (\<lambda>(k, i). (k, showInt i)) es) m = Some (m @ es)"
proof (induction es arbitrary: m)
  case (Cons e es)
  obtain k i where e: "e = (k, i)" by (cases e)
  have k: "k \<notin> fst ` set m" "- (2 ^ 63) \<le> i" "i < 2 ^ 63" using Cons.prems by (auto simp: entries_ok_def e)
  then have "decInt64 (showInt i) 0 = Some i" by (simp add: decInt64_def parseInt_showInt)
  with Cons.IH [of "m @ [(k, i)]"] Cons.prems show ?case by (simp add: e update_fresh [OF k(1)])
qed simp

lemma marshal_intMap_jtext: "d < 100 \<Longrightarrow> jtext d (marshal_intMap m)"
  by (auto simp: marshal_intMap_def jmember_def keyTok_quoteBody intro!: jtext_jobject split: option.split)

lemma unmarshal_marshal_intMap:
  assumes "\<And>es. m = Some es \<Longrightarrow> entries_ok es"
  shows "unmarshal_intMap (Some (marshal_intMap m)) = Some (map_option (sort_key fst) m)"
proof -
  have dec: "unmarshal_intMap (Some (marshal_intMap m)) = decIntMap (marshal_intMap m) None"
    using json_Unmarshal_jtext [OF marshal_intMap_jtext [of 0 m], of "[]"] by (simp add: unmarshal_intMap_def)
  show ?thesis
  proof (cases m)
    case None
    then show ?thesis unfolding dec by (simp add: marshal_intMap_def decIntMap_def)
  next
    case (Some es)
    then have ok: "entries_ok (sort_key fst es)" using assms by simp
    let ?ms = "map (\<lambda>(k, i). (quoteBody k, showInt i)) (sort_key fst es)"
    have "members (jobject ?ms) = Some (map (\<lambda>(k, v). (unquote k, v)) ?ms)"
      by (rule members_jobject) (auto simp: jmember_def keyTok_quoteBody)
    also have "map (\<lambda>(k, v). (unquote k, v)) ?ms = map (\<lambda>(k, i). (k, showInt i)) (sort_key fst es)"
      using ok by (auto simp: entries_ok_def quoteBody_facts(4) validUTF8_def)
    finally show ?thesis using Some decEntries_written [of "[]" "sort_key fst es"] ok
      unfolding dec by (simp add: marshal_intMap_def decIntMap_def)
  qed
qed

lemma marshal_intMap_sorted [simp]: "marshal_intMap (map_option (sort_key fst) m) = marshal_intMap m"
  by (simp add: marshal_intMap_def sort_key_id_if_sorted [OF sorted_sort_key] split: option.split)

end
