(* ===== verification/Flags.thy ===== *)
theory Flags imports Prelude Strconv begin

text \<open>
  The lists on the command line of the peer program, \<open>parseTags\<close> and \<open>parsePeerAddrs\<close> of
  \<open>cmd/peer/main.go\<close>, with \<open>strings.Split\<close> at a comma and \<open>strings.TrimSpace\<close>, which removes every
  Unicode white space at both ends.  The lemmas show that the lists hold no empty, padded or
  comma-bearing entry, and that a list of such entries is read back from its joined text.
\<close>

section \<open>Splitting and trimming\<close>

fun splitAt :: "char \<Rightarrow> string \<Rightarrow> string list" where
  \<comment> \<open>\<open>strings.Split\<close> at a separator of one byte: always at least one part\<close>
  "splitAt sep [] = [[]]"
| "splitAt sep (c # s) =
     (if c = sep then [] # splitAt sep s
      else (case splitAt sep s of [] \<Rightarrow> [[c]] | p # ps \<Rightarrow> (c # p) # ps))"

definition spaceRunes :: "bytes list" where
  \<comment> \<open>the white space of \<open>unicode.IsSpace\<close>, in UTF-8\<close>
  "spaceRunes = map (map char_of)
     ([[0x20], [0x09], [0x0A], [0x0B], [0x0C], [0x0D], [0xC2, 0x85], [0xC2, 0xA0], [0xE1, 0x9A, 0x80],
       [0xE2, 0x80, 0xA8], [0xE2, 0x80, 0xA9], [0xE2, 0x80, 0xAF], [0xE2, 0x81, 0x9F], [0xE3, 0x80, 0x80]] @
      map (\<lambda>n. [0xE2, 0x80, n]) [0x80 ..< 0x8B :: nat])"

function strip :: "bytes list \<Rightarrow> string \<Rightarrow> string" where
  \<comment> \<open>drops as many of the words as the text starts with\<close>
  "strip rs s = (case find (\<lambda>r. r \<noteq> [] \<and> prefix r s) rs of None \<Rightarrow> s | Some r \<Rightarrow> strip rs (drop (length r) s))"
  by pat_completeness auto

termination strip
proof (relation "measure (\<lambda>(rs, s). length s)")
  fix rs :: "bytes list" and s r :: string
  assume "find (\<lambda>r. r \<noteq> [] \<and> prefix r s) rs = Some r"
  then have "r \<noteq> []" "prefix r s" by (auto simp: find_Some_iff)
  then show "((rs, drop (length r) s), (rs, s)) \<in> measure (\<lambda>(rs, s). length s)" by (cases s) (auto simp: Suc_le_eq neq_Nil_conv)
qed simp

declare strip.simps [simp del]

definition TrimSpace :: "string \<Rightarrow> string" where
  \<comment> \<open>from the end as from the front, because the encoding of a rune is no proper suffix of another's\<close>
  "TrimSpace s = rev (strip (map rev spaceRunes) (rev (strip spaceRunes s)))"

section \<open>The flags\<close>

definition fields :: "string \<Rightarrow> string list" where
  \<comment> \<open>the loop that \<open>parseTags\<close> and \<open>parsePeerAddrs\<close> have in common\<close>
  "fields s = filter (\<lambda>p. p \<noteq> '''') (map TrimSpace (splitAt (CHR '','') s))"

definition parseTags :: "string \<Rightarrow> string slice" where
  "parseTags s = (if s = '''' \<or> s = ''*'' then Some [''*''] else Some (fields s))"

definition parsePeerAddrs :: "string \<Rightarrow> string slice" where
  "parsePeerAddrs s = (if s = '''' then None else Some (fields s))"

section \<open>Lemmas\<close>

lemma strip_suffix: "\<exists>w. s = w @ strip rs s"
proof (induction rs s rule: strip.induct)
  case (1 rs s)
  show ?case
  proof (cases "find (\<lambda>r. r \<noteq> [] \<and> prefix r s) rs")
    case None
    then show ?thesis by (subst strip.simps) simp
  next
    case (Some r)
    then have "s = r @ drop (length r) s" by (auto simp: find_Some_iff prefix_def)
    moreover obtain w where "drop (length r) s = w @ strip rs (drop (length r) s)" using 1 [OF Some] by blast
    ultimately have "s = (r @ w) @ strip rs (drop (length r) s)" by simp
    moreover have "strip rs s = strip rs (drop (length r) s)" using Some by (subst strip.simps) simp
    ultimately show ?thesis by (intro exI [of _ "r @ w"]) simp
  qed
qed

definition stripped :: "bytes list \<Rightarrow> string \<Rightarrow> bool" where
  "stripped rs s \<longleftrightarrow> (\<forall>r \<in> set rs. r \<noteq> [] \<longrightarrow> \<not> prefix r s)"

lemma strip_stripped: "stripped rs (strip rs s)"
proof (induction rs s rule: strip.induct)
  case (1 rs s)
  show ?case
  proof (cases "find (\<lambda>r. r \<noteq> [] \<and> prefix r s) rs")
    case None
    then have "strip rs s = s" by (subst strip.simps) simp
    with None show ?thesis by (auto simp: stripped_def find_None_iff)
  next
    case (Some r)
    with 1 [OF Some] show ?thesis by (subst strip.simps) simp
  qed
qed

lemma strip_id: "stripped rs s \<Longrightarrow> strip rs s = s"
proof -
  assume "stripped rs s"
  then have "find (\<lambda>r. r \<noteq> [] \<and> prefix r s) rs = None" by (auto simp: stripped_def find_None_iff)
  then show ?thesis by (subst strip.simps) simp
qed

lemma stripped_prefix: "stripped rs (s @ t) \<Longrightarrow> stripped rs s"
  by (auto simp: stripped_def)

definition trimmed :: "string \<Rightarrow> bool" where
  \<comment> \<open>no white space at either end\<close>
  "trimmed s \<longleftrightarrow> (\<forall>r \<in> set spaceRunes. \<not> prefix r s \<and> \<not> suffix r s)"

lemma trimmed_stripped: "trimmed s \<longleftrightarrow> stripped spaceRunes s \<and> stripped (map rev spaceRunes) (rev s)"
proof -
  have "\<forall>r \<in> set spaceRunes. r \<noteq> []" by (auto simp: spaceRunes_def)
  then show ?thesis by (auto simp: trimmed_def stripped_def suffix_to_prefix)
qed

lemma TrimSpace_id: "trimmed s \<Longrightarrow> TrimSpace s = s"
  by (simp add: TrimSpace_def trimmed_stripped strip_id)

lemma trimmed_TrimSpace: "trimmed (TrimSpace s)"
proof -
  let ?t = "strip spaceRunes s"
  obtain w where "rev ?t = w @ strip (map rev spaceRunes) (rev ?t)" using strip_suffix by blast
  then have "?t = TrimSpace s @ rev w" by (metis TrimSpace_def rev_append rev_rev_ident)
  moreover have "stripped spaceRunes ?t" by (rule strip_stripped)
  ultimately show ?thesis
    using stripped_prefix [of spaceRunes "TrimSpace s" "rev w"] strip_stripped [of "map rev spaceRunes" "rev ?t"]
    by (simp add: trimmed_stripped TrimSpace_def)
qed

lemma set_TrimSpace: "set (TrimSpace s) \<subseteq> set s"
proof -
  have *: "set (strip rs t) \<subseteq> set t" for rs t using strip_suffix [of t rs] by (metis set_append sup_ge2)
  show ?thesis using * [of spaceRunes s] * [of "map rev spaceRunes" "rev (strip spaceRunes s)"] by (auto simp: TrimSpace_def)
qed

lemma splitAt_not_Nil [simp]: "splitAt sep s \<noteq> []"
  by (cases s) (simp_all split: list.split)

lemma splitAt_parts: "p \<in> set (splitAt sep s) \<Longrightarrow> sep \<notin> set p"
  by (induction s arbitrary: p) (auto split: if_splits list.splits)

lemma splitAt_id: "sep \<notin> set p \<Longrightarrow> splitAt sep p = [p]"
  by (induction p) auto

lemma splitAt_append: "sep \<notin> set p \<Longrightarrow> splitAt sep (p @ sep # s) = p # splitAt sep s"
  by (induction p) auto

lemma join_Cons: "ps \<noteq> [] \<Longrightarrow> join sep (p # ps) = p @ sep @ join sep ps"
  by (cases ps) simp_all

lemma splitAt_join:
  "\<forall>q \<in> set (p # ps). sep \<notin> set q \<Longrightarrow> sep \<notin> set w \<Longrightarrow> splitAt sep (join (sep # w) (p # ps)) = p # map (\<lambda>q. w @ q) ps"
proof (induction ps arbitrary: p)
  case (Cons q ps)
  have "join (sep # w) (p # q # ps) = p @ sep # w @ join (sep # w) (q # ps)" by simp
  moreover have "join (sep # w) ((w @ q) # ps) = w @ join (sep # w) (q # ps)" by simp
  ultimately show ?case using Cons.IH [of "w @ q"] Cons.prems by (simp add: splitAt_append del: join_simps(2))
qed (simp add: splitAt_id)

lemma TrimSpace_blank: "TrimSpace ('' '' @ s) = TrimSpace s"
proof -
  obtain rs where rs: "spaceRunes = '' '' # rs" by (simp add: spaceRunes_def char_of_eq_iff)
  have "find (\<lambda>r. r \<noteq> [] \<and> prefix r (CHR '' '' # s)) spaceRunes = Some '' ''" unfolding rs by simp
  then have "strip spaceRunes (CHR '' '' # s) = strip spaceRunes s" by (subst strip.simps) simp
  then show ?thesis by (simp add: TrimSpace_def)
qed

lemma trimmed_ascii:
  fixes s :: string
  defines "plain \<equiv> \<lambda>c :: char. 32 < (of_char c :: nat) \<and> of_char c < (128 :: nat)"
  assumes "s \<noteq> []" and "plain (hd s)" and "plain (last s)"
  shows "trimmed s"
proof -
  have runes: "\<forall>r \<in> set spaceRunes. r \<noteq> [] \<and> \<not> plain (hd r) \<and> \<not> plain (last r)"
    by (simp add: spaceRunes_def plain_def upt_rec)
  have "\<not> prefix r s \<and> \<not> suffix r s" if "r \<in> set spaceRunes" for r
  proof -
    from runes that have r: "r \<noteq> []" "\<not> plain (hd r)" "\<not> plain (last r)" by blast+
    have "hd s = hd r" if "prefix r s" using that r(1) by (auto simp: prefix_def)
    moreover have "last s = last r" if "suffix r s" using that r(1) by (auto simp: suffix_def)
    ultimately show ?thesis using r assms(3,4) by metis
  qed
  then show ?thesis by (simp add: trimmed_def)
qed

definition entry :: "string \<Rightarrow> bool" where
  "entry p \<longleftrightarrow> p \<noteq> '''' \<and> trimmed p \<and> CHR '','' \<notin> set p"

lemma fields_entries: "p \<in> set (fields s) \<Longrightarrow> entry p"
  using set_TrimSpace by (fastforce simp: fields_def entry_def trimmed_TrimSpace dest: splitAt_parts)

lemma fields_join:
  assumes "\<forall>q \<in> set ps. entry q" and "ps \<noteq> []" and "w \<in> {'''', '' ''}"
  shows "fields (join (CHR '','' # w) ps) = ps"
proof -
  obtain p qs where ps: "ps = p # qs" using assms(2) by (cases ps) auto
  have trim: "TrimSpace (w @ q) = q" if "q \<in> set ps" for q
    using assms(1,3) that by (auto simp: entry_def TrimSpace_id TrimSpace_blank [simplified])
  have "splitAt (CHR '','') (join (CHR '','' # w) ps) = p # map (\<lambda>q. w @ q) qs"
    unfolding ps using assms(1,3) by (intro splitAt_join) (auto simp: ps entry_def)
  moreover have "map (TrimSpace \<circ> (\<lambda>q. w @ q)) qs = qs" using trim by (simp add: ps map_idI)
  moreover have "TrimSpace p = p" using assms(1) by (simp add: ps entry_def TrimSpace_id)
  moreover have "filter (\<lambda>p. p \<noteq> '''') ps = ps" using assms(1) by (intro filter_True) (auto simp: entry_def)
  ultimately show ?thesis by (simp add: fields_def ps)
qed

text \<open>The lists on the command line: whatever text is given, no address and no tag is empty, has white space
  around it or contains a comma; and a list of such entries, written with commas or with commas and blanks
  in between, is read back exactly, as addresses and as tags.\<close>

theorem flag_lists:
  "(\<forall>p \<in> set (elems (parsePeerAddrs s)) \<union> set (elems (parseTags s)). p \<noteq> '''' \<and> trimmed p \<and> CHR '','' \<notin> set p) \<and>
   (ps \<noteq> [] \<and> (\<forall>p \<in> set ps. p \<noteq> '''' \<and> trimmed p \<and> CHR '','' \<notin> set p) \<longrightarrow>
      parsePeerAddrs (join '','' ps) = Some ps \<and> parsePeerAddrs (join '', '' ps) = Some ps \<and>
      parseTags (join '','' ps) = Some ps \<and> parseTags (join '', '' ps) = Some ps)"
proof (intro conjI impI)
  have star: "entry ''*''" by (simp add: entry_def trimmed_ascii)
  then show "\<forall>p \<in> set (elems (parsePeerAddrs s)) \<union> set (elems (parseTags s)). p \<noteq> '''' \<and> trimmed p \<and> CHR '','' \<notin> set p"
    unfolding entry_def [symmetric] by (auto simp: parsePeerAddrs_def parseTags_def dest: fields_entries)
next
  assume ps: "ps \<noteq> [] \<and> (\<forall>p \<in> set ps. p \<noteq> '''' \<and> trimmed p \<and> CHR '','' \<notin> set p)"
  have f: "fields (join (CHR '','' # w) ps) = ps" if "w \<in> {'''', '' ''}" for w
    using ps that by (intro fields_join) (auto simp: entry_def)
  have star: "entry ''*''" by (simp add: entry_def trimmed_ascii)
  have "fields ''*'' = [''*'']" using fields_join [of "[''*'']" "''''"] star by simp
  moreover have "ps = []" if "join sep ps = ''''" for sep using that ps by (cases ps) auto
  note this [of "'',''"] this [of "'', ''"]
  ultimately
  show "parsePeerAddrs (join '','' ps) = Some ps" "parsePeerAddrs (join '', '' ps) = Some ps"
    "parseTags (join '','' ps) = Some ps" "parseTags (join '', '' ps) = Some ps"
    using f [of "''''"] f [of "'' ''"] ps by (auto simp: parsePeerAddrs_def parseTags_def)
qed

theorem flag_lists_witness:
  "parsePeerAddrs ''a:1,b:2'' = Some [''a:1'', ''b:2''] \<and> parseTags ''a:1, b:2'' = Some [''a:1'', ''b:2'']"
  using flag_lists [of "''''" "[''a:1'', ''b:2'']"] by (simp add: trimmed_ascii)

end
