(* ===== verification/PeerMain.thy ===== *)
theory PeerMain imports PeerNode IntMap Flags begin

text \<open>
  The parts of the peer program, \<open>cmd/peer/main.go\<close>: the checks of its flags, dialling, its merge function, the
  node it builds over a manager, the ticks of its test worker and its shutdown.  The texts of errors of
  \<open>encoding/json\<close> are a parameter.  \<open>PeerProgram\<close> puts them together.

  The lemmas show that the merge function stores a normal form of what it accepts, and that peers which
  agree on an object agree again when they have handled the messages of another peer's tick.
\<close>

section \<open>Flags and dialling\<close>

datatype transport_kind = KindTcp | KindUdp | KindBoth

definition checkTransport :: "string \<Rightarrow> transport_kind option" where
  "checkTransport s =
     (if s = ''tcp'' then Some KindTcp else if s = ''udp'' then Some KindUdp else if s = ''both'' then Some KindBoth else None)"

definition peerName :: "nat \<Rightarrow> string \<Rightarrow> string" where
  \<comment> \<open>\<open>r\<close> is the \<open>rand.Intn(1000)\<close> of a program without a name\<close>
  "peerName r name = (if name = '''' then CHR ''p'' # showNat r else name)"

datatype main_log = LogDialing string | LogDialFailed string string | LogSubmitted string nat nat

definition dialPeer :: "('o, 's) PeeringManager \<Rightarrow> 'o \<Rightarrow> string \<Rightarrow> 's \<times> main_log list \<Rightarrow> 's \<times> main_log list" where
  \<comment> \<open>what the goroutine does after its half second\<close>
  "dialPeer M orc addr s =
     (let (m, err) = pmi_Dial M orc addr (fst s)
      in (m, snd s @ LogDialing addr # (case err of None \<Rightarrow> [] | Some e \<Rightarrow> [LogDialFailed addr e])))"

section \<open>The merge function\<close>

definition peer_mergeFunc :: "(char slice \<Rightarrow> string) \<Rightarrow> MergeFunc" where
  "peer_mergeFunc errText sub =
     (case unmarshal_intMap (sub_Data sub) of
        None \<Rightarrow> \<lparr>dec_Accept = False, dec_Reason = errText (sub_Data sub), dec_Updates = []\<rparr>
      | Some p \<Rightarrow>
          \<lparr>dec_Accept = True, dec_Reason = '''',
           dec_Updates = [\<lparr>req_ObjectID = sub_TaskID sub, req_Data = Some (marshal_intMap p), req_ExpectedVersion = 0,
             req_Tags = Some [''test''], req_Meta = None\<rparr>]\<rparr>)"

section \<open>The node\<close>

definition peer_node ::
    "(char slice \<Rightarrow> string) \<Rightarrow> ('o, 's) PeeringManager \<Rightarrow> ('s \<Rightarrow> 'o) \<Rightarrow> 's \<Rightarrow> Recorder option \<Rightarrow> string \<Rightarrow> 's Node" where
  \<comment> \<open>from the manager in use and the text of \<open>-tags\<close>\<close>
  "peer_node errText M ord activeMgr mr tags =
     node_Run M ord (node_New world_New (coordinator_New (Some (peer_mergeFunc errText))) activeMgr gossip_New mr (parseTags tags))"

definition worker_data :: "nat \<Rightarrow> nat \<Rightarrow> bytes" where
  "worker_data x y = marshal_intMap (Some [(''x'', int x), (''y'', int y)])"

definition worker_msg :: "string \<Rightarrow> bytes \<Rightarrow> bytes" where
  \<comment> \<open>the error of \<open>Encode\<close> is dropped, its result would be nil\<close>
  "worker_msg objID data =
     elems (protocol_Encode MsgSubmitResult '''' (Some (PSubmitResult \<lparr>srp_TaskID = objID, srp_Data = Some data, srp_Meta = None\<rparr>)))"

definition worker_tick ::
    "('o, 's) PeeringManager \<Rightarrow> ('s \<Rightarrow> 'o) \<Rightarrow> NodeOracle \<Rightarrow> string \<Rightarrow> nat \<Rightarrow> nat \<Rightarrow> 's Node \<times> main_log list \<Rightarrow> 's Node \<times> main_log list" where
  \<comment> \<open>one tick of \<open>-work\<close>, with its two random numbers\<close>
  "worker_tick M ord orc name x y s =
     (let objID = ''obj-'' @ name; data = worker_data x y; mgr = nf_mgr (nd_fx (fst s));
          n = (fst s)\<lparr>nd_fx := (nd_fx (fst s))\<lparr>nf_mgr := pmi_Broadcast M (ord mgr) (worker_msg objID data) mgr\<rparr>\<rparr>
      in (node_SubmitLocalResult orc objID (Some data) n, snd s @ [LogSubmitted objID x y]))"

definition peer_shutdown :: "('o, 's) PeeringManager \<Rightarrow> 's Node \<Rightarrow> 's Node outcome" where
  \<comment> \<open>the end of \<open>main\<close> and its deferred \<open>g.Stop()\<close>\<close>
  "peer_shutdown M n =
     (case gossip_Stop (nd_gossip n) of
        Panics \<Rightarrow> Panics
      | Returns g \<Rightarrow> Returns (n\<lparr>nd_fx := (nd_fx n)\<lparr>nf_mgr := pmi_Stop M (nf_mgr (nd_fx n))\<rparr>, nd_gossip := g\<rparr>))"

section \<open>Normal forms\<close>

text \<open>C28. The merge function of the peer stores a normal form: whenever it accepts a submission it asks for one
  unconditional update of the object named like the task, and the text that it stores is accepted again,
  unchanged, as the data of any later submission for this task, whoever sends it.\<close>

theorem merge_stores_normal_form:
  assumes "dec_Accept (peer_mergeFunc errText sub)"
  shows "\<exists>b. dec_Updates (peer_mergeFunc errText sub) =
       [\<lparr>req_ObjectID = sub_TaskID sub, req_Data = Some b, req_ExpectedVersion = 0, req_Tags = Some [''test''], req_Meta = None\<rparr>] \<and>
     (\<forall>sub'. sub_TaskID sub' = sub_TaskID sub \<and> sub_Data sub' = Some b \<longrightarrow> peer_mergeFunc errText sub' = peer_mergeFunc errText sub)"
proof -
  obtain p where p: "unmarshal_intMap (sub_Data sub) = Some p" using assms by (auto simp: peer_mergeFunc_def split: option.splits)
  have "unmarshal_intMap (Some (marshal_intMap p)) = Some (map_option (sort_key fst) p)"
    using p by (intro unmarshal_marshal_intMap) (simp add: unmarshal_intMap_ok)
  then show ?thesis using p by (intro exI [of _ "marshal_intMap p"]) (auto simp: peer_mergeFunc_def)
qed

theorem merge_stores_normal_form_witness:
  "\<exists>b. dec_Updates (peer_mergeFunc (\<lambda>_. ''error'') \<lparr>sub_TaskID = ''t'', sub_OwnerID = ''local'', sub_Data = Some '' { }'', sub_Meta = None\<rparr>) =
       [\<lparr>req_ObjectID = ''t'', req_Data = Some b, req_ExpectedVersion = 0, req_Tags = Some [''test''], req_Meta = None\<rparr>]"
proof -
  let ?sub = "\<lparr>sub_TaskID = ''t'', sub_OwnerID = ''local'', sub_Data = Some '' { }'', sub_Meta = None\<rparr>"
  have "unmarshal_intMap (Some '' { }'') \<noteq> None" by code_simp
  then have "dec_Accept (peer_mergeFunc (\<lambda>_. ''error'') ?sub)" by (auto simp: peer_mergeFunc_def)
  from merge_stores_normal_form [OF this] show ?thesis by auto
qed

section \<open>Peers that agree stay in step\<close>

lemma worker_data_entries: "x < 100 \<Longrightarrow> y < 100 \<Longrightarrow> entries_ok [(''x'', int x), (''y'', int y)]"
  by (simp add: entries_ok_def validUTF8_def toValidUTF8_ascii code_def)

lemma worker_data_facts:
  "marshalRaw (Some (worker_data x y)) = Some (worker_data x y)" "wellNested (Some (worker_data x y))"
  "worker_data x y \<noteq> []"
proof -
  have j: "jtext 0 (worker_data x y)" "jtext 4 (worker_data x y)" by (simp_all add: worker_data_def marshal_intMap_jtext)
  show "marshalRaw (Some (worker_data x y)) = Some (worker_data x y)" using compact_jtext [OF j(1)] by (simp add: marshalRaw_def)
  show "wellNested (Some (worker_data x y))" using jsonValue_jtext [OF j(2), of "[]"] by (simp add: wellNested_def)
  show "worker_data x y \<noteq> []" using j by (auto simp: jtext_def)
qed

lemma merge_worker_data:
  assumes "x < 100" and "y < 100" and "sub_Data sub = Some (worker_data x y)"
  shows "peer_mergeFunc errText sub = \<lparr>dec_Accept = True, dec_Reason = '''',
     dec_Updates = [\<lparr>req_ObjectID = sub_TaskID sub, req_Data = Some (worker_data x y), req_ExpectedVersion = 0, req_Tags = Some [''test''], req_Meta = None\<rparr>]\<rparr>"
proof -
  let ?m = "Some [(''x'', int x), (''y'', int y)]"
  have "unmarshal_intMap (Some (worker_data x y)) = Some (map_option (sort_key fst) ?m)"
    unfolding worker_data_def using worker_data_entries [OF assms(1,2)] by (intro unmarshal_marshal_intMap) simp
  then show ?thesis using assms(3) marshal_intMap_sorted [of ?m] by (simp only: peer_mergeFunc_def option.simps worker_data_def)
qed

definition workerObject :: "gotime \<Rightarrow> string \<Rightarrow> bytes \<Rightarrow> Object option \<Rightarrow> Object" where
  \<comment> \<open>what the object becomes\<close>
  "workerObject now x data old =
     \<lparr>obj_ID = x, obj_Data = Some data, obj_Version = currentVersion old + 1, obj_Tags = Some [''test''],
      obj_Meta = orExisting None (map_option obj_Meta old), obj_UpdatedAt = now\<rparr>"

lemma node_submit_worker:
  fixes orc :: NodeOracle
  assumes "mergeFunc (nd_coord n) = peer_mergeFunc errText" and "x < 100" and "y < 100" and "sub_Data sub = Some (worker_data x y)"
  defines "ob \<equiv> workerObject (no_world orc 0) (sub_TaskID sub) (worker_data x y) (objects (nd_world n) (sub_TaskID sub))"
  shows "objects (nd_world (node_submit orc sub n)) = (objects (nd_world n))(sub_TaskID sub \<mapsto> ob)"
    and "nf_mgr (nd_fx (node_submit orc sub n)) =
      nf_mgr (fire_recover (handlers (nd_world n)) (appliedEvent (objects (nd_world n) (sub_TaskID sub)) ob) (nd_fx n))"
proof -
  let ?q = "\<lparr>req_ObjectID = sub_TaskID sub, req_Data = Some (worker_data x y), req_ExpectedVersion = 0, req_Tags = Some [''test''], req_Meta = None\<rparr>"
  have fn: "mergeFunc (nd_coord n) sub = \<lparr>dec_Accept = True, dec_Reason = '''', dec_Updates = [?q]\<rparr>"
    unfolding assms(1) by (rule merge_worker_data [OF assms(2-4)])
  have adm: "admissible (nd_world n) ?q" by (simp add: admissible_def)
  have ob: "appliedObject (no_world orc 0) (objects (nd_world n) (sub_TaskID sub)) ?q = ob"
    using worker_data_facts(3) [of x y]
    by (simp add: ob_def workerObject_def appliedObject_def currentVersion_def orExisting_simps split: option.split)
  show "objects (nd_world (node_submit orc sub n)) = (objects (nd_world n))(sub_TaskID sub \<mapsto> ob)"
    by (simp add: coordinator_Submit_accepted fn world_put_unfold world_Apply_accepts [OF adm] ob Let_def thread_Cons del: thread.simps(2))
  show "nf_mgr (nd_fx (node_submit orc sub n)) =
      nf_mgr (fire_recover (handlers (nd_world n)) (appliedEvent (objects (nd_world n) (sub_TaskID sub)) ob) (nd_fx n))"
    by (simp add: node_submit_def coordinator_Submit_accepted fn world_put_unfold world_Apply_accepts [OF adm] ob Let_def split_def thread_Cons del: thread.simps(2))
qed

lemma fresh_forward:
  assumes "g_seen (nd_gossip n) (messageID env) = None"
  obtains g where "ShouldForward now env (nd_gossip n) = (g, True)" and "g_seen g = (g_seen (nd_gossip n))(messageID env \<mapsto> now)"
proof -
  have "snd (ShouldForward now env (nd_gossip n))" by (simp add: ShouldForward_seen(1) assms)
  with ShouldForward_seen(2) [OF this] that [of "fst (ShouldForward now env (nd_gossip n))"] show thesis by (cases "ShouldForward now env (nd_gossip n)") auto
qed

lemma handle_submit_fresh:
  fixes M :: "('o, 's) PeeringManager" and ord :: "'s \<Rightarrow> 'o" and orc :: NodeOracle and src :: string
  assumes "g_seen (nd_gossip n) (messageID env) = None" and "env_Type env = MsgSubmitResult"
    and "unmarshal_SubmitResult (env_Payload env) = Some \<lparr>srp_TaskID = x, srp_Data = Some (worker_data u v), srp_Meta = None\<rparr>"
    and "mergeFunc (nd_coord n) = peer_mergeFunc errText" and "u < 100" and "v < 100"
  defines "n' \<equiv> node_handlePeerMessage M ord orc src env n"
  shows "objects (nd_world n') = (objects (nd_world n))(x \<mapsto> workerObject (no_world orc 0) x (worker_data u v) (objects (nd_world n) x))"
    and "g_seen (nd_gossip n') = (g_seen (nd_gossip n))(messageID env \<mapsto> no_seen orc)"
proof -
  obtain g where g: "ShouldForward (no_seen orc) env (nd_gossip n) = (g, True)" "g_seen g = (g_seen (nd_gossip n))(messageID env \<mapsto> no_seen orc)"
    by (rule fresh_forward [OF assms(1)])
  let ?n = "n\<lparr>nd_gossip := g\<rparr>" and ?sub = "\<lparr>sub_TaskID = x, sub_OwnerID = src, sub_Data = Some (worker_data u v), sub_Meta = None\<rparr>"
  have step: "nd_world n' = nd_world (node_submit orc ?sub ?n)" "nd_gossip n' = g"
    using assms(2,3) g(1) by (simp_all add: n'_def node_handlePeerMessage_def node_handleRemoteSubmit_def Let_def MsgSubmitResult_def MsgWorldUpdate_def)
  show "g_seen (nd_gossip n') = (g_seen (nd_gossip n))(messageID env \<mapsto> no_seen orc)" by (simp add: step g(2))
  show "objects (nd_world n') = (objects (nd_world n))(x \<mapsto> workerObject (no_world orc 0) x (worker_data u v) (objects (nd_world n) x))"
    using node_submit_worker(1) [where n = ?n and sub = ?sub and orc = orc, OF _ assms(5,6)] assms(4) by (simp add: step)
qed

lemma handle_old_update:
  assumes "g_seen (nd_gossip n) (messageID env) = None" and "env_Type env = MsgWorldUpdate"
    and "unmarshal_WorldUpdate (env_Payload env) = Some \<lparr>wup_Objects = Some [d]\<rparr>" and "\<not> newer d (nd_world n)"
  shows "nd_world (node_handlePeerMessage M ord orc src env n) = nd_world n"
proof -
  obtain g where "ShouldForward (no_seen orc) env (nd_gossip n) = (g, True)" by (rule fresh_forward [OF assms(1)])
  with assms(2-4) show ?thesis by (simp add: node_handlePeerMessage_def node_handleWorldUpdate_def Let_def applyDiff_eq)
qed

lemma message_types_differ:
  assumes "env_Type e1 = MsgSubmitResult" "env_RequestID e1 = ''''" "env_Type e2 = MsgWorldUpdate" "env_RequestID e2 = ''''"
  shows "messageID e1 \<noteq> messageID e2"
  using assms by (simp add: messageID_def MsgSubmitResult_def MsgWorldUpdate_def)

lemma worker_messages:
  assumes "toValidUTF8 x = x" and "obj_ID ob = x" and "obj_Data ob = Some (worker_data u v)" and "obj_Meta ob = None"
  obtains m2 env1 env2 where
    "unmarshal_Envelope (worker_msg x (worker_data u v)) = Some env1" and "env_Type env1 = MsgSubmitResult" and "env_RequestID env1 = ''''"
    and "unmarshal_SubmitResult (env_Payload env1) = Some \<lparr>srp_TaskID = x, srp_Data = Some (worker_data u v), srp_Meta = None\<rparr>"
    and "protocol_Encode MsgWorldUpdate '''' (Some (PWorldUpdate \<lparr>wup_Objects = Some [announced ob]\<rparr>)) = Some m2"
    and "unmarshal_Envelope m2 = Some env2" and "env_Type env2 = MsgWorldUpdate" and "env_RequestID env2 = ''''"
    and "unmarshal_WorldUpdate (env_Payload env2) = Some \<lparr>wup_Objects = Some [announced ob]\<rparr>"
proof -
  let ?p1 = "PSubmitResult \<lparr>srp_TaskID = x, srp_Data = Some (worker_data u v), srp_Meta = None\<rparr>" and ?p2 = "PWorldUpdate \<lparr>wup_Objects = Some [announced ob]\<rparr>"
  let ?q1 = "(MsgSubmitResult, '''', Some ?p1)" and ?q2 = "(MsgWorldUpdate, '''', Some ?p2)"
  have nested: "\<forall>m \<in> set (raws ?p1). wellNested m" "\<forall>m \<in> set (raws ?p2). wellNested m"
    using worker_data_facts(2) [of u v] assms(3,4) by (simp_all add: raws_def announced_def)
  then have q: "encodable ?q1" "encodable ?q2" by (simp_all add: encodable_def)
  have types: "toValidUTF8 MsgSubmitResult = MsgSubmitResult" "toValidUTF8 MsgWorldUpdate = MsgWorldUpdate" "toValidUTF8 '''' = ''''"
    by (rule toValidUTF8_ascii, simp add: msg_types code_def)+
  have d: "receivedDiff (announced ob) = announced ob"
    using assms worker_data_facts(1) [of u v] by (simp add: receivedDiff_def announced_def)
  obtain m2 where m2: "protocol_Encode MsgWorldUpdate '''' (Some ?p2) = Some m2" using datagram_decodes(2) [OF q(2)] by auto
  show thesis
  proof (rule that [of "received ?q1" m2 "received ?q2"])
    show "unmarshal_Envelope (worker_msg x (worker_data u v)) = Some (received ?q1)"
      using datagram_decodes(1) [OF q(1)] by (simp add: worker_msg_def)
    show "unmarshal_Envelope m2 = Some (received ?q2)" using datagram_decodes(1) [OF q(2)] m2 by simp
    show "unmarshal_SubmitResult (env_Payload (received ?q1)) = Some \<lparr>srp_TaskID = x, srp_Data = Some (worker_data u v), srp_Meta = None\<rparr>"
      using unmarshal_submit_json [OF nested(1)] assms(1) worker_data_facts(1) [of u v] by (simp add: received_def)
    show "unmarshal_WorldUpdate (env_Payload (received ?q2)) = Some \<lparr>wup_Objects = Some [announced ob]\<rparr>"
      using unmarshal_update_json [OF nested(2)] by (simp add: received_def d)
  qed (simp_all add: received_def types m2)
qed

text \<open>Peers that agree stay in step: when the test worker of one peer ticks, it sends two messages to every
  other peer, its submission and the announcement of the merged object; a second peer that has the object at
  the same version and handles both, in this order, holds the object at the same version and with the same
  data and tags as the first: it merges the submission itself and ignores the announcement.\<close>

theorem peers_stay_in_step:
  fixes a :: "'s Node" and b :: "'t Node" and M :: "('o, 's) PeeringManager" and M' :: "('p, 't) PeeringManager"
    and name :: string and orc :: NodeOracle
  assumes "peering_manager M valid orders outboxes" and "valid (nf_mgr (nd_fx a))" and "\<forall>s. valid s \<longrightarrow> orders (ord s) s"
    and "handlers (nd_world a) = [node_on_change M ord]"
    and "mergeFunc (nd_coord a) = peer_mergeFunc errA" and "mergeFunc (nd_coord b) = peer_mergeFunc errB" and "u < 100" and "v < 100"
    and "x = ''obj-'' @ name" and "toValidUTF8 x = x" and "\<forall>ob. objects (nd_world a) x = Some ob \<longrightarrow> obj_Meta ob = None"
    and "versionOf x a = versionOf x b"
  defines "a' \<equiv> fst (worker_tick M ord orc name u v (a, []))"
  shows "\<exists>m1 m2 env1 env2 oa. unmarshal_Envelope m1 = Some env1 \<and> unmarshal_Envelope m2 = Some env2 \<and>
     (\<forall>pid. pid \<noteq> '''' \<longrightarrow> outboxes (nf_mgr (nd_fx a')) pid =
        map_option (\<lambda>q. chan_offer 256 (chan_offer 256 q m1) m2) (outboxes (nf_mgr (nd_fx a)) pid)) \<and>
     objects (nd_world a') x = Some oa \<and> obj_Data oa = Some (worker_data u v) \<and> obj_Version oa = versionOf x a + 1 \<and>
     (g_seen (nd_gossip b) (messageID env1) = None \<and> g_seen (nd_gossip b) (messageID env2) = None \<longrightarrow>
        (\<exists>ob. objects (nd_world (node_handlePeerMessage M' ord' orc2 src env2 (node_handlePeerMessage M' ord' orc1 src env1 b))) x = Some ob \<and>
           obj_Version ob = obj_Version oa \<and> obj_Data ob = obj_Data oa \<and> obj_Tags ob = obj_Tags oa))"
proof -
  let ?m1 = "worker_msg x (worker_data u v)" and ?mgr = "nf_mgr (nd_fx a)"
  let ?n = "a\<lparr>nd_fx := (nd_fx a)\<lparr>nf_mgr := pmi_Broadcast M (ord ?mgr) ?m1 ?mgr\<rparr>\<rparr>"
  let ?sub = "\<lparr>sub_TaskID = x, sub_OwnerID = ''local'', sub_Data = Some (worker_data u v), sub_Meta = None\<rparr>"
  let ?oa = "workerObject (no_world orc 0) x (worker_data u v) (objects (nd_world a) x)"
  let ?ob = "workerObject (no_world orc1 0) x (worker_data u v) (objects (nd_world b) x)"
  have a': "a' = node_submit orc ?sub ?n" by (simp add: a'_def worker_tick_def node_SubmitLocalResult_def Let_def assms(9))
  have oa: "obj_ID ?oa = x" "obj_Data ?oa = Some (worker_data u v)" "obj_Meta ?oa = None"
    using assms(11) by (simp_all add: workerObject_def) (cases "objects (nd_world a) x"; simp)
  obtain m2 env1 env2 where m: "unmarshal_Envelope ?m1 = Some env1" "env_Type env1 = MsgSubmitResult" "env_RequestID env1 = ''''"
    "unmarshal_SubmitResult (env_Payload env1) = Some \<lparr>srp_TaskID = x, srp_Data = Some (worker_data u v), srp_Meta = None\<rparr>"
    "protocol_Encode MsgWorldUpdate '''' (Some (PWorldUpdate \<lparr>wup_Objects = Some [announced ?oa]\<rparr>)) = Some m2"
    "unmarshal_Envelope m2 = Some env2" "env_Type env2 = MsgWorldUpdate" "env_RequestID env2 = ''''"
    "unmarshal_WorldUpdate (env_Payload env2) = Some \<lparr>wup_Objects = Some [announced ?oa]\<rparr>"
    by (rule worker_messages [OF assms(10) oa])
  have world: "objects (nd_world a') x = Some ?oa"
    using node_submit_worker(1) [where n = ?n and sub = ?sub and orc = orc, OF _ assms(7,8)] assms(5) by (simp add: a')
  have mgr: "nf_mgr (nd_fx a') = nf_mgr (fire_recover (handlers (nd_world ?n)) (appliedEvent (objects (nd_world ?n) x) ?oa) (nd_fx ?n))"
    using node_submit_worker(2) [where n = ?n and sub = ?sub and orc = orc, OF _ assms(7,8)] assms(5) by (simp add: a')
  have queued: "outboxes (nf_mgr (nd_fx a')) pid = map_option (\<lambda>q. chan_offer 256 (chan_offer 256 q ?m1) m2) (outboxes ?mgr pid)" if "pid \<noteq> ''''" for pid
  proof -
    have first: "valid (nf_mgr (nd_fx ?n))" "outboxes (nf_mgr (nd_fx ?n)) pid = map_option (\<lambda>q. chan_offer 256 q ?m1) (outboxes ?mgr pid)"
      using peering_manager.Broadcast_valid [OF assms(1,2)] peering_manager.Broadcast_outboxes [OF assms(1,2)] assms(2,3) by (simp_all add: outboxCap_def)
    have hs: "handlers (nd_world ?n) = [node_on_change M ord]" using assms(4) by simp
    show ?thesis unfolding mgr hs fire_on_change
      using peering_manager.fx_gossip_outboxes [OF assms(1) _ _ m(5)] first assms(3) that by (simp add: outboxCap_def option.map_comp o_def)
  qed
  have agree: "\<exists>ob. objects (nd_world (node_handlePeerMessage M' ord' orc2 src env2 (node_handlePeerMessage M' ord' orc1 src env1 b))) x = Some ob \<and>
      obj_Version ob = obj_Version ?oa \<and> obj_Data ob = obj_Data ?oa \<and> obj_Tags ob = obj_Tags ?oa"
    if fresh: "g_seen (nd_gossip b) (messageID env1) = None" "g_seen (nd_gossip b) (messageID env2) = None"
  proof -
    let ?b = "node_handlePeerMessage M' ord' orc1 src env1 b"
    have version: "obj_Version ?ob = obj_Version ?oa" using assms(12) by (simp add: workerObject_def versionOf_def)
    have b: "objects (nd_world ?b) x = Some ?ob" "g_seen (nd_gossip ?b) (messageID env2) = None"
      using handle_submit_fresh [where M = M' and ord = ord' and orc = orc1 and src = src, OF fresh(1) m(2,4) assms(6,7,8)] fresh(2) message_types_differ [OF m(2,3,7,8)] by simp_all
    then have "\<not> newer (announced ?oa) (nd_world ?b)" using version oa(1) by (simp add: newer_def announced_def)
    from handle_old_update [where M = M' and ord = ord' and orc = orc2 and src = src, OF b(2) m(7,9) this] b(1) version show ?thesis by (simp add: workerObject_def)
  qed
  from m(1,6) queued world agree oa(2) show ?thesis
    by (intro exI [of _ ?m1] exI [of _ m2] exI [of _ env1] exI [of _ env2] exI [of _ ?oa]) (auto simp: workerObject_def versionOf_def)
qed

definition examplePeer :: "PeerManager Node" where
  "examplePeer = peer_node (\<lambda>_. ''error'') tcpManager exampleOrder exampleTcp None ''*''"

lemma examplePeer_facts:
  "nf_mgr (nd_fx examplePeer) = exampleTcp" "handlers (nd_world examplePeer) = [node_on_change tcpManager exampleOrder]"
  "mergeFunc (nd_coord examplePeer) = peer_mergeFunc (\<lambda>_. ''error'')" "objects (nd_world examplePeer) = Map.empty"
  "g_seen (nd_gossip examplePeer) = Map.empty"
  by (simp_all add: examplePeer_def peer_node_def node_Run_def node_New_def world_New_def world_OnChange_def coordinator_New_def gossip_New_def)

theorem peers_stay_in_step_witness:
  "\<exists>m1 m2 env1 env2 ob. unmarshal_Envelope m1 = Some env1 \<and> unmarshal_Envelope m2 = Some env2 \<and>
     pm_outboxes (nf_mgr (nd_fx (fst (worker_tick tcpManager exampleOrder exampleNodeOracle ''1'' 3 4 (examplePeer, []))))) ''peer-7-0'' = Some [m1, m2] \<and>
     objects (nd_world (node_handlePeerMessage tcpManager exampleOrder exampleNodeOracle ''p'' env2
       (node_handlePeerMessage tcpManager exampleOrder exampleNodeOracle ''p'' env1 examplePeer))) ''obj-1'' = Some ob \<and>
     obj_Version ob = 1 \<and> obj_Data ob = Some (worker_data 3 4)"
proof -
  have orders: "\<forall>m. pm_ok m \<longrightarrow> enumerates (to_order (exampleOrder m)) (map_of (pm_peers m))"
    by (auto simp: exampleOrder_def enumerates_def pm_okD(1) dom_map_of_conv_image_fst)
  have out: "pm_outboxes exampleTcp ''peer-7-0'' = Some []" by (simp add: pm_outboxes_def exampleTcp_facts newPeer_def)
  have ascii: "toValidUTF8 ''obj-1'' = ''obj-1''" by (rule toValidUTF8_ascii) (simp add: code_def)
  have ok: "pm_ok (nf_mgr (nd_fx examplePeer))" by (simp add: examplePeer_facts exampleTcp_facts)
  have v: "versionOf ''obj-1'' examplePeer = 0" by (simp add: versionOf_def examplePeer_facts currentVersion_def)
  from peers_stay_in_step [where a = examplePeer and b = examplePeer and name = "''1''" and x = "''obj-1''" and u = 3 and v = 4 and
      M' = tcpManager and ord' = exampleOrder and ?orc1.0 = exampleNodeOracle and ?orc2.0 = exampleNodeOracle and src = "''p''" and orc = exampleNodeOracle,
      OF tcp.peering_manager_axioms ok orders examplePeer_facts(2,3,3) _ _ _ ascii]
  obtain m1 m2 env1 env2 oa ob where "unmarshal_Envelope m1 = Some env1" "unmarshal_Envelope m2 = Some env2"
    "\<forall>pid. pid \<noteq> '''' \<longrightarrow> pm_outboxes (nf_mgr (nd_fx (fst (worker_tick tcpManager exampleOrder exampleNodeOracle ''1'' 3 4 (examplePeer, []))))) pid =
        map_option (\<lambda>q. chan_offer 256 (chan_offer 256 q m1) m2) (pm_outboxes exampleTcp pid)"
    "objects (nd_world (node_handlePeerMessage tcpManager exampleOrder exampleNodeOracle ''p'' env2
       (node_handlePeerMessage tcpManager exampleOrder exampleNodeOracle ''p'' env1 examplePeer))) ''obj-1'' = Some ob"
    "obj_Version ob = 1" "obj_Data ob = Some (worker_data 3 4)"
    by (simp add: examplePeer_facts v) metis
  then show ?thesis using out
    by (intro exI [of _ m1] exI [of _ m2] exI [of _ env1] exI [of _ env2] exI [of _ ob]) (simp add: chan_offer_def)
qed

end
