(* ===== verification/Network.thy ===== *)
theory Network imports PeerMain begin

text \<open>
  A network of peer-to-peer nodes over TCP managers: any number of nodes, in any topology, that exchange
  what their write loops write, in any order and with losses.  It composes the managers
  (\<open>internal/peering/peering.go\<close>) with the nodes (\<open>internal/peer/peer.go\<close>).

  The lemmas bound the versions of an object across the whole network, in the nodes, in the outboxes and in
  the event queues, by the number of updates that merge functions have asked for: passing messages on
  never raises a version by itself.
\<close>

section \<open>The network\<close>

type_synonym Net = "nat \<Rightarrow> PeerManager Node"

definition on_mgr :: "(PeerManager \<Rightarrow> PeerManager) \<Rightarrow> PeerManager Node \<Rightarrow> PeerManager Node" where
  "on_mgr f n = n\<lparr>nd_fx := (nd_fx n)\<lparr>nf_mgr := f (nf_mgr (nd_fx n))\<rparr>\<rparr>"

text \<open>The steps: a node takes an event from its queue; a node submits a result of its own; a node broadcasts
  a submission (the worker does both); the write loop of the peer at \<open>p\<close> of node \<open>i\<close> writes, and what it
  writes is read by node \<open>j\<close> for its peer \<open>pid\<close>; what it writes is lost; a connection starts or ends.\<close>

datatype net_op =
    NtEvent nat NodeOracle
  | NtSubmit nat NodeOracle string "char slice"
  | NtAnnounce nat TcpOracle string SubmitResultPayload
  | NtTransfer nat pptr "write_event list" nat string
  | NtLose nat pptr "write_event list"
  | NtConnect nat gotime string
  | NtFinish nat string

fun net_step :: "(PeerManager \<Rightarrow> TcpOracle) \<Rightarrow> net_op \<Rightarrow> Net \<Rightarrow> Net" where
  "net_step ord (NtEvent i orc) net = net(i := node_event tcpManager ord orc (net i))"
| "net_step ord (NtSubmit i orc task data) net = net(i := node_SubmitLocalResult orc task data (net i))"
| "net_step ord (NtAnnounce i orc rid p) net =
     net(i := on_mgr (\<lambda>m. fst (gossip_Broadcast tcpManager orc MsgSubmitResult rid (Some (PSubmitResult p)) m)) (net i))"
| "net_step ord (NtTransfer i p evs j pid) net =
     (let ((m, out), running) = pm_writeLoop evs p (nf_mgr (nd_fx (net i)), []);
          net' = net(i := on_mgr (\<lambda>_. m) (net i))
      in net'(j := on_mgr (pm_readLoop pid out) (net' j)))"
| "net_step ord (NtLose i p evs) net =
     net(i := on_mgr (\<lambda>m. fst (fst (pm_writeLoop evs p (m, [])))) (net i))"
| "net_step ord (NtConnect i nanos addr) net = net(i := on_mgr (\<lambda>m. snd (pm_open nanos addr m)) (net i))"
| "net_step ord (NtFinish i pid) net = net(i := on_mgr (pm_finish pid) (net i))"

section \<open>The updates that merge functions ask for\<close>

definition names :: "string \<Rightarrow> string \<Rightarrow> bool" where
  \<comment> \<open>\<open>k\<close> is the ID \<open>x\<close>, or becomes it on the wire\<close>
  "names x k \<longleftrightarrow> toValidUTF8 k = x"

definition asked :: "string \<Rightarrow> MergeFunc \<Rightarrow> Submission \<Rightarrow> nat" where
  "asked x fn sub = (if dec_Accept (fn sub) then length (filter (\<lambda>q. names x (req_ObjectID q)) (dec_Updates (fn sub))) else 0)"

definition asked_by_message :: "string \<Rightarrow> NodeOracle \<Rightarrow> string \<Rightarrow> Envelope \<Rightarrow> PeerManager Node \<Rightarrow> nat" where
  "asked_by_message x orc src env n =
     (if \<not> snd (ShouldForward (no_seen orc) env (nd_gossip n)) \<or> env_Type env \<noteq> MsgSubmitResult then 0
      else (case unmarshal_SubmitResult (env_Payload env) of
              None \<Rightarrow> 0
            | Some p \<Rightarrow> asked x (mergeFunc (nd_coord n))
                \<lparr>sub_TaskID = srp_TaskID p, sub_OwnerID = src, sub_Data = srp_Data p, sub_Meta = srp_Meta p\<rparr>))"

fun net_asked :: "string \<Rightarrow> net_op \<Rightarrow> Net \<Rightarrow> nat" where
  "net_asked x (NtEvent i orc) net =
     (case pmi_Receive tcpManager (nf_mgr (nd_fx (net i))) of
        None \<Rightarrow> 0
      | Some (evt, m) \<Rightarrow> (if pe_Kind evt = EventPeerMessage then asked_by_message x orc (pe_PeerID evt) (pe_Env evt) (net i) else 0))"
| "net_asked x (NtSubmit i orc task data) net =
     asked x (mergeFunc (nd_coord (net i))) \<lparr>sub_TaskID = task, sub_OwnerID = ''local'', sub_Data = data, sub_Meta = None\<rparr>"
| "net_asked x _ net = 0"

primrec net_run :: "(PeerManager \<Rightarrow> TcpOracle) \<Rightarrow> string \<Rightarrow> net_op list \<Rightarrow> Net \<times> nat \<Rightarrow> Net \<times> nat" where
  \<comment> \<open>the network with the number of updates of \<open>x\<close> asked for so far\<close>
  "net_run ord x [] s = s"
| "net_run ord x (op # ops) s = net_run ord x ops (net_step ord op (fst s), snd s + net_asked x op (fst s))"

section \<open>The bound\<close>

definition diff_ok :: "nat \<Rightarrow> string \<Rightarrow> ObjectDiff \<Rightarrow> bool" where
  "diff_ok V x d \<longleftrightarrow> (\<forall>m \<in> set (rawsOf d). wellNested m) \<and>
     (names x (od_ObjectID d) \<longrightarrow> 1 \<le> od_Version d \<and> unat (od_Version d) \<le> V)"

definition wire_ok :: "nat \<Rightarrow> string \<Rightarrow> bytes \<Rightarrow> bool" where
  "wire_ok V x b \<longleftrightarrow>
     (\<exists>rid d. diff_ok V x d \<and> protocol_Encode MsgWorldUpdate rid (Some (PWorldUpdate \<lparr>wup_Objects = Some [d]\<rparr>)) = Some b) \<or>
     (\<exists>rid p. (\<forall>m \<in> set (raws (PSubmitResult p)). wellNested m) \<and> protocol_Encode MsgSubmitResult rid (Some (PSubmitResult p)) = Some b)"

definition env_ok :: "nat \<Rightarrow> string \<Rightarrow> Envelope \<Rightarrow> bool" where
  "env_ok V x env \<longleftrightarrow>
     (env_Type env = MsgWorldUpdate \<longrightarrow> (\<exists>d. unmarshal_WorldUpdate (env_Payload env) = Some \<lparr>wup_Objects = Some [d]\<rparr> \<and> diff_ok V x d)) \<and>
     (env_Type env = MsgSubmitResult \<longrightarrow>
        (\<exists>p. unmarshal_SubmitResult (env_Payload env) = Some p \<and> (\<forall>m \<in> set (raws (PSubmitResult p)). wellNested m)))"

definition world_bounded :: "nat \<Rightarrow> string \<Rightarrow> 'e World \<Rightarrow> bool" where
  "world_bounded V x w \<longleftrightarrow> (\<forall>k ob. objects w k = Some ob \<longrightarrow> obj_ID ob = k \<and> diff_ok V x (announced ob))"

definition mgr_bounded :: "nat \<Rightarrow> string \<Rightarrow> PeerManager \<Rightarrow> bool" where
  "mgr_bounded V x m \<longleftrightarrow> (\<forall>p. \<forall>b \<in> set (pr_outbox (pm_heap m p)). wire_ok V x b) \<and>
     (\<forall>evt \<in> set (pm_events m). pe_Kind evt = EventPeerMessage \<longrightarrow> env_ok V x (pe_Env evt))"

definition merge_nested :: "MergeFunc \<Rightarrow> bool" where
  \<comment> \<open>the merge function turns data that can be sent into data that can be sent\<close>
  "merge_nested fn \<longleftrightarrow> (\<forall>sub. (\<forall>m \<in> set (raws (PSubmitResult \<lparr>srp_TaskID = sub_TaskID sub, srp_Data = sub_Data sub, srp_Meta = sub_Meta sub\<rparr>)). wellNested m) \<longrightarrow>
     (\<forall>q \<in> set (dec_Updates (fn sub)). wellNested (req_Data q) \<and> (elems (req_Meta q) = [] \<or> wellNested (req_Meta q))))"

definition node_bounded :: "(PeerManager \<Rightarrow> TcpOracle) \<Rightarrow> nat \<Rightarrow> string \<Rightarrow> PeerManager Node \<Rightarrow> bool" where
  "node_bounded ord V x n \<longleftrightarrow> handlers (nd_world n) = [node_on_change tcpManager ord] \<and> merge_nested (mergeFunc (nd_coord n)) \<and>
     world_bounded V x (nd_world n) \<and> mgr_bounded V x (nf_mgr (nd_fx n)) \<and> appliedTo x (nd_log n) \<le> unat (versionOf x n)"

lemmas bounded_defs = node_bounded_def mgr_bounded_def world_bounded_def

lemma diff_ok_mono: "diff_ok V x d \<Longrightarrow> V \<le> V' \<Longrightarrow> diff_ok V' x d"
  by (auto simp: diff_ok_def)

lemma wire_ok_mono: "wire_ok V x b \<Longrightarrow> V \<le> V' \<Longrightarrow> wire_ok V' x b"
  unfolding wire_ok_def by (blast intro: diff_ok_mono)

lemma env_ok_mono: "env_ok V x env \<Longrightarrow> V \<le> V' \<Longrightarrow> env_ok V' x env"
  unfolding env_ok_def by (blast intro: diff_ok_mono)

lemma world_bounded_mono: "world_bounded V x w \<Longrightarrow> V \<le> V' \<Longrightarrow> world_bounded V' x w"
  by (auto simp: world_bounded_def intro: diff_ok_mono)

lemma mgr_bounded_mono: "mgr_bounded V x m \<Longrightarrow> V \<le> V' \<Longrightarrow> mgr_bounded V' x m"
  by (auto simp: mgr_bounded_def intro: wire_ok_mono env_ok_mono)

lemma node_bounded_mono: "node_bounded ord V x n \<Longrightarrow> V \<le> V' \<Longrightarrow> node_bounded ord V' x n"
  by (auto simp: node_bounded_def intro: world_bounded_mono mgr_bounded_mono)

section \<open>Messages\<close>

lemma toValidUTF8_idem [simp]: "toValidUTF8 (toValidUTF8 s) = toValidUTF8 s"
  using unquote_valid [of "quoteBody s"] by (simp add: validUTF8_def quoteBody_facts(4))

lemma wellNested_marshalRaw: "wellNested m \<Longrightarrow> wellNested (marshalRaw m)"
proof -
  assume "wellNested m"
  then obtain v where "marshalRaw m = Some v" "jtext 4 v" by (rule marshalRaw_depth)
  then show ?thesis using jsonValue_jtext [of 4 v "[]"] by (simp add: wellNested_def)
qed

lemma diff_ok_received: "diff_ok V x d \<Longrightarrow> diff_ok V x (receivedDiff d)"
  by (auto simp: diff_ok_def rawsOf_def receivedDiff_def names_def wellNested_marshalRaw split: if_splits)

lemma message_types_valid: "toValidUTF8 MsgSubmitResult = MsgSubmitResult" "toValidUTF8 MsgWorldUpdate = MsgWorldUpdate"
  by (rule toValidUTF8_ascii, simp add: msg_types code_def)+

lemma framed:
  assumes "encodable (t, rid, pl)" and "protocol_Encode t rid pl = Some b"
  shows "unmarshal_Envelope (b @ [NL]) = Some (received (t, rid, pl))"
proof -
  from assms(1) obtain b' where "frame (t, rid, pl) = b' @ [NL]" "unmarshal_Envelope (frame (t, rid, pl)) = Some (received (t, rid, pl))"
    by (rule frame_facts)
  then show ?thesis using assms(2) by (simp add: frame_def)
qed

lemma wire_env:
  assumes "wire_ok V x b" and "unmarshal_Envelope (b @ [NL]) = Some env"
  shows "env_ok V x env"
  using assms(1) unfolding wire_ok_def
proof (elim disjE exE conjE)
  fix rid d
  let ?p = "PWorldUpdate \<lparr>wup_Objects = Some [d]\<rparr>"
  assume d: "diff_ok V x d" and b: "protocol_Encode MsgWorldUpdate rid (Some ?p) = Some b"
  then have nested: "\<forall>m \<in> set (raws ?p). wellNested m" by (simp add: raws_WorldUpdate diff_ok_def)
  with framed [OF _ b] assms(2) have "env = received (MsgWorldUpdate, rid, Some ?p)" by (simp add: encodable_def)
  then show ?thesis using unmarshal_update_json [OF nested] diff_ok_received [OF d]
    by (simp add: env_ok_def received_def message_types_valid) (simp add: msg_types)
next
  fix rid p
  assume nested: "\<forall>m \<in> set (raws (PSubmitResult p)). wellNested m" and b: "protocol_Encode MsgSubmitResult rid (Some (PSubmitResult p)) = Some b"
  with framed [OF _ b] assms(2) have env: "env = received (MsgSubmitResult, rid, Some (PSubmitResult p))" by (simp add: encodable_def)
  have "\<forall>m \<in> set (raws (PSubmitResult p')). wellNested m"
    if "p' = \<lparr>srp_TaskID = toValidUTF8 (srp_TaskID p), srp_Data = marshalRaw (srp_Data p),
      srp_Meta = (if elems (srp_Meta p) = [] then None else marshalRaw (srp_Meta p))\<rparr>" for p'
    using nested that by (auto simp: raws_def wellNested_marshalRaw split: if_splits)
  then show ?thesis using unmarshal_submit_json [OF nested] env
    by (simp add: env_ok_def received_def message_types_valid) (simp add: msg_types)
qed

lemma wire_submit:
  "\<forall>m \<in> set (raws (PSubmitResult p)). wellNested m \<Longrightarrow> protocol_Encode MsgSubmitResult rid (Some (PSubmitResult p)) = Some b \<Longrightarrow> wire_ok V x b"
  unfolding wire_ok_def by blast

lemma wire_line: "wire_ok V x b \<Longrightarrow> NL \<notin> set b"
  by (auto simp: wire_ok_def dest: encoded_line)

section \<open>The managers\<close>

lemma set_chan_offer: "set (chan_offer cap q m) \<subseteq> insert m (set q)"
  by (auto simp: chan_offer_def)

lemma mgr_bounded_emit:
  assumes "mgr_bounded V x m" and "pe_Kind evt = EventPeerMessage \<Longrightarrow> env_ok V x (pe_Env evt)"
  shows "mgr_bounded V x (pm_emit evt m)"
  using assms set_chan_offer [of eventsCap "pm_events m" evt] by (auto simp: mgr_bounded_def pm_emit_def)

lemma mgr_bounded_at:
  assumes "mgr_bounded V x m" and "\<And>b pr. b \<in> set (pr_outbox (f pr)) \<Longrightarrow> b \<in> set (pr_outbox pr) \<or> wire_ok V x b"
  shows "mgr_bounded V x (pm_at p f m)"
  using assms by (fastforce simp: mgr_bounded_def pm_at_def)

lemma mgr_bounded_at_fold:
  assumes "mgr_bounded V x m" and "\<And>b pr. b \<in> set (pr_outbox (f pr)) \<Longrightarrow> b \<in> set (pr_outbox pr) \<or> wire_ok V x b"
  shows "mgr_bounded V x (fold (\<lambda>p. pm_at p f) ps m)"
  using assms(1) by (induction ps arbitrary: m) (simp_all add: mgr_bounded_at [OF _ assms(2)])

lemma mgr_bounded_send:
  assumes "mgr_bounded V x m" and "wire_ok V x b"
  shows "mgr_bounded V x (pm_Broadcast ks b m)" and "mgr_bounded V x (pm_BroadcastExcept ks b pid m)"
proof -
  have "c \<in> set (pr_outbox (fst (peer_Send b pr))) \<Longrightarrow> c \<in> set (pr_outbox pr) \<or> wire_ok V x c" for c pr
    using set_chan_offer [of outboxCap "pr_outbox pr" b] assms(2) by (auto simp: peer_Send_def split: if_splits)
  then show "mgr_bounded V x (pm_Broadcast ks b m)" "mgr_bounded V x (pm_BroadcastExcept ks b pid m)"
    unfolding pm_Broadcast_def Except_eq by (intro mgr_bounded_at_fold [OF assms(1)]; fastforce split: if_splits)+
qed

lemma event_kinds [simp]:
  "pe_Kind (connectedEvent pid) \<noteq> EventPeerMessage" "pe_Kind (closedEvent pid) \<noteq> EventPeerMessage"
  "pe_Kind (messageEvent pid env) = EventPeerMessage" "pe_Env (messageEvent pid env) = env"
  by (simp_all add: connectedEvent_def closedEvent_def messageEvent_def EventPeerConnected_def EventPeerClosed_def EventPeerMessage_def)

lemma mgr_bounded_open: "mgr_bounded V x m \<Longrightarrow> mgr_bounded V x (snd (pm_open nanos addr m))"
  by (simp add: pm_open_def Let_def pm_addPeer_def, rule mgr_bounded_emit) (auto simp: newPeer_def mgr_bounded_def)

lemma mgr_bounded_finish: "mgr_bounded V x m \<Longrightarrow> mgr_bounded V x (pm_finish pid m)"
  unfolding pm_finish_def
  by (intro mgr_bounded_emit)
    (auto simp: pm_removePeer_def peer_Close_def mgr_bounded_def pm_at_def split: option.split)

lemma mgr_bounded_Receive:
  assumes "mgr_bounded V x m" and "pm_Receive m = Some (evt, m')"
  shows "mgr_bounded V x m'" and "pe_Kind evt = EventPeerMessage \<Longrightarrow> env_ok V x (pe_Env evt)"
  using assms by (auto simp: pm_Receive_def chan_poll_def mgr_bounded_def split: list.splits)

lemma writeLoop_writes:
  assumes "pm_writeLoop evs p (m, out) = ((m', out'), running)"
  shows "pm_events m' = pm_events m \<and> (\<forall>q. set (pr_outbox (pm_heap m' q)) \<subseteq> set (pr_outbox (pm_heap m q))) \<and>
    (\<exists>bs rest. out' = out @ concat (map (\<lambda>b. b @ [NL]) bs) @ rest \<and> set bs \<subseteq> set (pr_outbox (pm_heap m p)) \<and>
       (rest = [] \<or> rest \<in> set (pr_outbox (pm_heap m p))))"
  using assms
proof (induction evs arbitrary: m out)
  case Nil
  then show ?case by (auto intro!: exI [of _ "[]"])
next
  case (Cons ev evs)
  show ?case
  proof (cases ev)
    case WCancel
    with Cons.prems show ?thesis by (auto intro!: exI [of _ "[]"])
  next
    case (WMsg ok1 ok2)
    show ?thesis
    proof (cases "pr_outbox (pm_heap m p)")
      case Nil
      with Cons.prems WMsg have "pm_writeLoop evs p (m, out) = ((m', out'), running)" by (simp add: chan_poll_def)
      from Cons.IH [OF this] show ?thesis .
    next
      case (Cons msg q)
      let ?m = "pm_at p (\<lambda>pr. pr\<lparr>pr_outbox := q\<rparr>) m"
      have m: "pm_events ?m = pm_events m" "\<forall>r. set (pr_outbox (pm_heap ?m r)) \<subseteq> set (pr_outbox (pm_heap m r))"
        "set (pr_outbox (pm_heap ?m p)) \<subseteq> set (pr_outbox (pm_heap m p))"
        using Cons by (auto simp: pm_at_def)
      show ?thesis
      proof (cases "ok1 \<and> ok2")
        case False
        with Cons.prems WMsg Cons m show ?thesis
          by (auto simp: chan_poll_def Let_def split: if_splits intro!: exI [of _ "[]"] exI [of _ "if ok1 then msg else []"])
      next
        case True
        with Cons.prems WMsg Cons have "pm_writeLoop evs p (?m, out @ msg @ [NL]) = ((m', out'), running)" by (simp add: chan_poll_def Let_def)
        from Cons.IH [OF this] obtain bs rest where IH: "pm_events m' = pm_events ?m"
          "\<forall>r. set (pr_outbox (pm_heap m' r)) \<subseteq> set (pr_outbox (pm_heap ?m r))"
          "out' = (out @ msg @ [NL]) @ concat (map (\<lambda>b. b @ [NL]) bs) @ rest" "set bs \<subseteq> set (pr_outbox (pm_heap ?m p))"
          "rest = [] \<or> rest \<in> set (pr_outbox (pm_heap ?m p))" by blast
        have "\<forall>r. set (pr_outbox (pm_heap m' r)) \<subseteq> set (pr_outbox (pm_heap m r))" using IH(2) m(2) by (meson order_trans)
        moreover have "pr_outbox (pm_heap ?m p) = q" by (simp add: pm_at_def)
        ultimately show ?thesis using IH(1,3-5) m(1) Cons by (intro conjI exI [of _ "msg # bs"] exI [of _ rest]) auto
      qed
    qed
  qed
qed

lemma mgr_bounded_write:
  assumes "mgr_bounded V x m" and "pm_writeLoop evs p (m, []) = ((m', out), running)"
  shows "mgr_bounded V x m'" and "mgr_bounded V x m2 \<Longrightarrow> mgr_bounded V x (pm_readLoop pid out m2)"
proof -
  from writeLoop_writes [OF assms(2)] obtain bs rest where w: "pm_events m' = pm_events m"
    "\<forall>q. set (pr_outbox (pm_heap m' q)) \<subseteq> set (pr_outbox (pm_heap m q))"
    "out = concat (map (\<lambda>b. b @ [NL]) bs) @ rest" "set bs \<subseteq> set (pr_outbox (pm_heap m p))"
    "rest = [] \<or> rest \<in> set (pr_outbox (pm_heap m p))" by auto
  show "mgr_bounded V x m'" using assms(1) w(1,2) by (fastforce simp: mgr_bounded_def)
  have ok: "\<forall>b \<in> set bs. wire_ok V x b" "rest = [] \<or> wire_ok V x rest" using assms(1) w(4,5) by (auto simp: mgr_bounded_def)
  then have lines: "readLines out = map (\<lambda>b. b @ [NL]) bs"
    unfolding w(3) by (intro readLines_frames) (auto dest: wire_line)
  have "env_ok V x env" if "env \<in> set (decodable out)" for env
    using that ok(1) by (auto simp: decodable_def lines map_filter_def intro: wire_env)
  moreover have "mgr_bounded V x (fold pm_emit (map (messageEvent pid) envs) m2)" if "mgr_bounded V x m2" "\<forall>env \<in> set envs. env_ok V x env" for envs m2
    using that by (induction envs arbitrary: m2) (simp_all add: mgr_bounded_emit)
  ultimately show "mgr_bounded V x (pm_readLoop pid out m2)" if "mgr_bounded V x m2" using that by (simp add: readLoop_emits)
qed

section \<open>The nodes\<close>

lemma fx_gossip_bounded:
  assumes "mgr_bounded V x (nf_mgr e)" and "\<And>b. protocol_Encode t rid (Some pl) = Some b \<Longrightarrow> wire_ok V x b"
  shows "mgr_bounded V x (nf_mgr (fx_gossip tcpManager ord t rid pl pid e))"
  using assms mgr_bounded_send(2) [OF assms(1)]
  by (auto simp: fx_gossip_def gossip_BroadcastExcept_def tcpManager_def split: option.split)

lemma wire_update: "diff_ok V x d \<Longrightarrow> protocol_Encode MsgWorldUpdate rid (Some (PWorldUpdate \<lparr>wup_Objects = Some [d]\<rparr>)) = Some b \<Longrightarrow> wire_ok V x b"
  by (auto simp: wire_ok_def)

lemma fire_bounded:
  assumes "mgr_bounded V x (nf_mgr e)" and "diff_ok V x (announced ob)"
  shows "mgr_bounded V x (nf_mgr (fire_recover [node_on_change tcpManager ord] (appliedEvent old ob) e))"
  unfolding fire_on_change by (rule fx_gossip_bounded) (simp_all add: assms(1) wire_update [OF assms(2)])

lemma wellNested_orExisting:
  "wellNested new \<Longrightarrow> (\<And>o'. old = Some o' \<Longrightarrow> wellNested o') \<Longrightarrow> wellNested (orExisting new old)"
  by (cases new; cases old) (simp_all add: wellNested_def)

definition meta_ok :: "char slice \<Rightarrow> bool" where
  "meta_ok m \<longleftrightarrow> elems m = [] \<or> wellNested m"

lemma meta_ok_orExisting: "meta_ok new \<Longrightarrow> (\<And>o'. old = Some o' \<Longrightarrow> meta_ok o') \<Longrightarrow> meta_ok (orExisting new old)"
  by (cases new; cases old) (simp_all add: meta_ok_def)

lemma rawsOf_ok: "(\<forall>m \<in> set (rawsOf d). wellNested m) \<longleftrightarrow> wellNested (od_Data d) \<and> meta_ok (od_Meta d)"
  by (simp add: rawsOf_def meta_ok_def)

lemma raws_submit_ok: "(\<forall>m \<in> set (raws (PSubmitResult p)). wellNested m) \<longleftrightarrow> wellNested (srp_Data p) \<and> meta_ok (srp_Meta p)"
  by (auto simp: raws_def meta_ok_def)

definition versionAt :: "string \<Rightarrow> 'e World \<Rightarrow> uint64" where
  "versionAt x w = currentVersion (objects w x)"

lemma versionAt_bounded: "world_bounded V x w \<Longrightarrow> names x k \<Longrightarrow> unat (versionAt k w) \<le> V"
  by (auto simp: world_bounded_def versionAt_def currentVersion_def diff_ok_def announced_def split: option.splits)

lemma appliedObject_version: "obj_Version (appliedObject now old q) = currentVersion old + 1"
  by (simp add: appliedObject_def currentVersion_def split: option.split)

lemma store_bounded:
  fixes now :: gotime
  assumes "world_bounded V x w" and "V \<le> V'" and "V' < 2 ^ 64" and "wellNested (req_Data q)" and "meta_ok (req_Meta q)"
    and "names x (req_ObjectID q) \<Longrightarrow> unat (versionAt (req_ObjectID q) w) < V'"
  defines "ob \<equiv> appliedObject now (objects w (req_ObjectID q)) q"
  shows "diff_ok V' x (announced ob)" and "world_bounded V' x (w\<lparr>objects := (objects w)(req_ObjectID q \<mapsto> ob)\<rparr>)"
    and "names x (req_ObjectID q) \<Longrightarrow> unat (obj_Version ob) = Suc (unat (versionAt (req_ObjectID q) w))"
proof -
  have old: "wellNested (obj_Data o')" "meta_ok (obj_Meta o')" if "objects w (req_ObjectID q) = Some o'" for o'
    using assms(1) that by (auto simp: world_bounded_def diff_ok_def rawsOf_ok announced_def)
  show v: "unat (obj_Version ob) = Suc (unat (versionAt (req_ObjectID q) w))" if "names x (req_ObjectID q)"
  proof -
    have "unat (versionAt (req_ObjectID q) w) < 2 ^ LENGTH(64) - 1" using assms(6) [OF that] assms(3) by simp
    then show ?thesis by (simp add: ob_def appliedObject_version versionAt_def unat_Suc_no_wrap)
  qed
  have "obj_ID ob = req_ObjectID q" "wellNested (obj_Data ob)" "meta_ok (obj_Meta ob)"
    using old assms(4,5) by (auto simp: ob_def appliedObject_def intro!: wellNested_orExisting meta_ok_orExisting)
  moreover have "1 \<le> obj_Version ob \<and> unat (obj_Version ob) \<le> V'" if "names x (req_ObjectID q)"
    using v [OF that] assms(6) [OF that] by (auto simp: word_le_nat_alt)
  ultimately show d: "diff_ok V' x (announced ob)" by (simp add: diff_ok_def rawsOf_ok announced_def)
  show "world_bounded V' x (w\<lparr>objects := (objects w)(req_ObjectID q \<mapsto> ob)\<rparr>)"
    using world_bounded_mono [OF assms(1,2)] d by (auto simp: world_bounded_def ob_def appliedObject_def)
qed

lemma node_boundedD:
  assumes "node_bounded ord V x n"
  shows "handlers (nd_world n) = [node_on_change tcpManager ord]" and "merge_nested (mergeFunc (nd_coord n))"
    and "world_bounded V x (nd_world n)" and "mgr_bounded V x (nf_mgr (nd_fx n))" and "appliedTo x (nd_log n) \<le> unat (versionAt x (nd_world n))"
  using assms by (simp_all add: node_bounded_def versionOf_def versionAt_def)

lemma applyDiff_bounded:
  assumes "node_bounded ord V x n" and "diff_ok V x d" and "V < 2 ^ 64" and "toValidUTF8 x = x"
  shows "node_bounded ord V x (node_applyDiff tcpManager ord now src rid d n)"
proof (cases "newer d (nd_world n)")
  case False
  then show ?thesis using assms(1) by (simp add: applyDiff_eq)
next
  case True
  note n = node_boundedD [OF assms(1)]
  let ?q = "remoteRequest (nd_tags n) d" and ?k = "od_ObjectID d" and ?n' = "node_applyDiff tcpManager ord now src rid d n"
  let ?ob = "appliedObject now (objects (nd_world n) ?k) ?q"
  have d: "wellNested (od_Data d)" "meta_ok (od_Meta d)" using assms(2) by (simp_all add: diff_ok_def rawsOf_ok)
  have less: "unat (versionAt ?k (nd_world n)) < V" if "names x ?k"
  proof -
    have v: "1 \<le> od_Version d" "unat (od_Version d) \<le> V" using assms(2) that by (simp_all add: diff_ok_def)
    then have "versionAt ?k (nd_world n) < od_Version d"
      using newer_version [OF True] by (auto simp: versionAt_def currentVersion_def word_less_nat_alt word_le_nat_alt)
    then show ?thesis using v(2) by (simp add: word_less_nat_alt)
  qed
  have st: "diff_ok V x (announced ?ob)" "world_bounded V x ((nd_world n)\<lparr>objects := (objects (nd_world n))(?k \<mapsto> ?ob)\<rparr>)"
    "names x ?k \<Longrightarrow> unat (obj_Version ?ob) = Suc (unat (versionAt ?k (nd_world n)))"
    using store_bounded [OF n(3) order_refl assms(3), of ?q now] d less by (simp_all add: remoteRequest_def)
  have "mgr_bounded V x (nf_mgr (nd_fx ?n'))"
    using True n(1) by (simp add: applyDiff_eq Let_def fx_gossip_bounded [OF fire_bounded [OF n(4) st(1)] wire_update [OF assms(2)]] del: fire_recover.simps)
  moreover have "world_bounded V x (nd_world ?n')" using True st(2) by (simp add: applyDiff_eq Let_def)
  moreover have "appliedTo x (nd_log ?n') \<le> unat (versionOf x ?n')"
  proof (cases "?k = x")
    case k: True
    then have "names x ?k" using assms(4) by (simp add: names_def)
    then show ?thesis using True n(5) st(3) k by (simp add: applyDiff_log versionOf_def applyDiff_objects currentVersion_def versionAt_def)
  next
    case False
    then show ?thesis using n(5) by (simp add: applyDiff_log applyDiff_version) (simp add: versionOf_def versionAt_def)
  qed
  ultimately show ?thesis using n(1,2) by (simp add: node_bounded_def)
qed

lemma put_bounded:
  fixes clk :: "nat \<Rightarrow> gotime" and i :: nat
  assumes "handlers w = [node_on_change tcpManager ord]" and "world_bounded V x w" and "mgr_bounded V x (nf_mgr e)"
    and "wellNested (req_Data q)" and "meta_ok (req_Meta q)" and "V + (if names x (req_ObjectID q) then 1 else 0) \<le> V'" and "V' < 2 ^ 64"
    and "toValidUTF8 x = x"
  defines "s \<equiv> fst (world_put clk q (w, e, i))"
  shows "handlers (fst s) = [node_on_change tcpManager ord]" and "world_bounded V' x (fst s)" and "mgr_bounded V' x (nf_mgr (fst (snd s)))"
    and "unat (versionAt x w) \<le> unat (versionAt x (fst s))"
proof -
  have mono: "world_bounded V' x w" "mgr_bounded V' x (nf_mgr e)"
    using assms(6) world_bounded_mono [OF assms(2)] mgr_bounded_mono [OF assms(3)] by (simp_all split: if_splits)
  have "handlers (fst s) = [node_on_change tcpManager ord] \<and> world_bounded V' x (fst s) \<and> mgr_bounded V' x (nf_mgr (fst (snd s))) \<and>
      unat (versionAt x w) \<le> unat (versionAt x (fst s))"
  proof (cases "admissible w q")
    case False
    then show ?thesis using mono assms(1) by (simp add: s_def world_put_unfold world_Apply_rejects)
  next
    case True
    let ?ob = "appliedObject (clk i) (objects w (req_ObjectID q)) q"
    have less: "unat (versionAt (req_ObjectID q) w) < V'" if "names x (req_ObjectID q)"
      using versionAt_bounded [OF assms(2) that] assms(6) that by simp
    have "V \<le> V'" using assms(6) by simp
    note st = store_bounded [OF assms(2) this assms(7,4,5) less, of "clk i", simplified]
    have s: "fst s = w\<lparr>objects := (objects w)(req_ObjectID q \<mapsto> ?ob)\<rparr>"
      "fst (snd s) = fire_recover (handlers w) (appliedEvent (objects w (req_ObjectID q)) ?ob) e"
      by (simp_all add: s_def world_put_unfold world_Apply_accepts [OF True] Let_def)
    have "unat (versionAt x w) \<le> unat (versionAt x (fst s))"
    proof (cases "req_ObjectID q = x")
      case x: True
      then have "names x (req_ObjectID q)" using assms(8) by (simp add: names_def)
      from st(3) [OF this] x show ?thesis by (simp add: s versionAt_def currentVersion_def)
    next
      case False
      then show ?thesis by (simp add: s versionAt_def)
    qed
    then show ?thesis using st(2) fire_bounded [OF mono(2) st(1)] assms(1) by (simp add: s)
  qed
  then show "handlers (fst s) = [node_on_change tcpManager ord]" "world_bounded V' x (fst s)" "mgr_bounded V' x (nf_mgr (fst (snd s)))"
    "unat (versionAt x w) \<le> unat (versionAt x (fst s))" by blast+
qed

definition nested_update :: "UpdateRequest \<Rightarrow> bool" where
  "nested_update q \<longleftrightarrow> wellNested (req_Data q) \<and> meta_ok (req_Meta q)"

lemma merge_nested_updates:
  "merge_nested fn \<Longrightarrow> wellNested (sub_Data sub) \<Longrightarrow> meta_ok (sub_Meta sub) \<Longrightarrow> \<forall>q \<in> set (dec_Updates (fn sub)). nested_update q"
  by (auto simp: merge_nested_def nested_update_def raws_submit_ok meta_ok_def)

lemma puts_bounded:
  fixes clk :: "nat \<Rightarrow> gotime" and i :: nat
  assumes "handlers w = [node_on_change tcpManager ord]" and "world_bounded V x w" and "mgr_bounded V x (nf_mgr e)"
    and "\<forall>q \<in> set qs. nested_update q" and "V + length (filter (\<lambda>q. names x (req_ObjectID q)) qs) < 2 ^ 64" and "toValidUTF8 x = x"
  defines "V' \<equiv> V + length (filter (\<lambda>q. names x (req_ObjectID q)) qs)" and "s \<equiv> fst (thread (world_put clk) qs (w, e, i))"
  shows "handlers (fst s) = [node_on_change tcpManager ord] \<and> world_bounded V' x (fst s) \<and> mgr_bounded V' x (nf_mgr (fst (snd s))) \<and>
    unat (versionAt x w) \<le> unat (versionAt x (fst s))"
  using assms(1-5) unfolding V'_def s_def
proof (induction qs arbitrary: w e i V)
  case (Cons q qs)
  let ?s = "fst (world_put clk q (w, e, i))" and ?V = "V + (if names x (req_ObjectID q) then 1 else 0)"
  obtain w1 e1 i1 where s: "?s = (w1, e1, i1)" by (cases ?s)
  have q: "wellNested (req_Data q)" "meta_ok (req_Meta q)" "?V < 2 ^ 64" using Cons.prems(4,5) by (auto simp: nested_update_def)
  have step: "handlers w1 = [node_on_change tcpManager ord]" "world_bounded ?V x w1" "mgr_bounded ?V x (nf_mgr e1)"
    "unat (versionAt x w) \<le> unat (versionAt x w1)"
    using put_bounded [where clk = clk and i = i, OF Cons.prems(1-3) q(1,2) order_refl q(3) assms(6)] s by simp_all
  have "?V + length (filter (\<lambda>q. names x (req_ObjectID q)) qs) = V + length (filter (\<lambda>q. names x (req_ObjectID q)) (q # qs))" by simp
  with Cons.IH [where i = i1, OF step(1-3)] step(4) Cons.prems(4,5) show ?case
    by (simp add: thread_Cons s del: thread.simps(2))
qed simp

lemma submit_bounded:
  assumes "node_bounded ord V x n" and "wellNested (sub_Data sub)" and "meta_ok (sub_Meta sub)"
    and "V + asked x (mergeFunc (nd_coord n)) sub < 2 ^ 64" and "toValidUTF8 x = x"
  shows "node_bounded ord (V + asked x (mergeFunc (nd_coord n)) sub) x (node_submit orc sub n)"
proof -
  note n = node_boundedD [OF assms(1)]
  show ?thesis
  proof (cases "dec_Accept (mergeFunc (nd_coord n) sub)")
    case False
    then show ?thesis using assms(1) by (simp add: node_submit_def coordinator_Submit_rejected asked_def Let_def node_bounded_def versionOf_def)
  next
    case True
    let ?qs = "dec_Updates (mergeFunc (nd_coord n) sub)" and ?V = "V + asked x (mergeFunc (nd_coord n)) sub"
    let ?s = "fst (thread (world_put (no_world orc)) ?qs (nd_world n, nd_fx n, 0))"
    have V: "?V = V + length (filter (\<lambda>q. names x (req_ObjectID q)) ?qs)" using True by (simp add: asked_def)
    have s: "handlers (fst ?s) = [node_on_change tcpManager ord]" "world_bounded ?V x (fst ?s)" "mgr_bounded ?V x (nf_mgr (fst (snd ?s)))"
      "unat (versionAt x (nd_world n)) \<le> unat (versionAt x (fst ?s))"
      using puts_bounded [where clk = "no_world orc" and i = 0, OF n(1,3,4) merge_nested_updates [OF n(2) assms(2,3)] _ assms(5)] assms(4)
      unfolding V by blast+
    have "nd_world (node_submit orc sub n) = fst ?s" "nf_mgr (nd_fx (node_submit orc sub n)) = nf_mgr (fst (snd ?s))" "nd_log (node_submit orc sub n) = nd_log n"
      using True by (simp_all add: node_submit_def coordinator_Submit_accepted Let_def split_def)
    with s n(2,5) show ?thesis by (simp add: node_bounded_def versionOf_def versionAt_def [symmetric])
  qed
qed

lemma gossip_bounded:
  assumes "node_bounded ord V x n" and "\<And>b. protocol_Encode t rid (Some pl) = Some b \<Longrightarrow> wire_ok V x b"
  shows "node_bounded ord V x (n\<lparr>nd_fx := fx_gossip tcpManager ord t rid pl pid (nd_fx n)\<rparr>)"
  using assms(1) fx_gossip_bounded [OF node_boundedD(4) [OF assms(1)] assms(2)] by (simp add: node_bounded_def versionOf_def)

lemma set_gossip_bounded [simp]: "node_bounded ord V x (n\<lparr>nd_gossip := g\<rparr>) = node_bounded ord V x n"
  by (simp add: node_bounded_def versionOf_def)

lemma message_bounded:
  assumes "node_bounded ord V x n" and "env_ok V x env" and "V + asked_by_message x orc src env n < 2 ^ 64" and "toValidUTF8 x = x"
  shows "node_bounded ord (V + asked_by_message x orc src env n) x (node_handlePeerMessage tcpManager ord orc src env n)"
proof -
  obtain g new where f: "ShouldForward (no_seen orc) env (nd_gossip n) = (g, new)" by (cases "ShouldForward (no_seen orc) env (nd_gossip n)")
  let ?n = "n\<lparr>nd_gossip := g\<rparr>"
  consider "\<not> new" | "new" "env_Type env = MsgWorldUpdate" | "new" "env_Type env = MsgSubmitResult"
    | "new" "env_Type env \<noteq> MsgWorldUpdate" "env_Type env \<noteq> MsgSubmitResult" by blast
  then show ?thesis
  proof cases
    case 2
    then obtain d where d: "unmarshal_WorldUpdate (env_Payload env) = Some \<lparr>wup_Objects = Some [d]\<rparr>" "diff_ok V x d"
      using assms(2) by (auto simp: env_ok_def)
    have "asked_by_message x orc src env n = 0" using 2 by (simp add: asked_by_message_def msg_types)
    then show ?thesis using applyDiff_bounded [where n = ?n, OF _ d(2) _ assms(4)] assms(1,3) 2 f d(1)
      by (simp add: node_handlePeerMessage_def node_handleWorldUpdate_def)
  next
    case 3
    then obtain p where p: "unmarshal_SubmitResult (env_Payload env) = Some p" "\<forall>m \<in> set (raws (PSubmitResult p)). wellNested m"
      using assms(2) by (auto simp: env_ok_def)
    let ?sub = "\<lparr>sub_TaskID = srp_TaskID p, sub_OwnerID = src, sub_Data = srp_Data p, sub_Meta = srp_Meta p\<rparr>"
    have a: "asked_by_message x orc src env n = asked x (mergeFunc (nd_coord ?n)) ?sub" using 3 f p(1) by (simp add: asked_by_message_def)
    have nested: "wellNested (sub_Data ?sub)" "meta_ok (sub_Meta ?sub)" using p(2) by (simp_all add: raws_submit_ok)
    note wire = wire_submit [OF p(2)]
    have "node_bounded ord (V + asked_by_message x orc src env n) x (node_submit orc ?sub ?n)"
      unfolding a using assms(1,3) a by (intro submit_bounded [OF _ nested _ assms(4)]) simp_all
    from gossip_bounded [OF this wire] 3 f p(1) show ?thesis
      by (simp add: node_handlePeerMessage_def node_handleRemoteSubmit_def Let_def MsgSubmitResult_def MsgWorldUpdate_def)
  qed (use assms(1) f in \<open>simp_all add: node_handlePeerMessage_def asked_by_message_def\<close>)
qed

lemma on_mgr_bounded:
  assumes "node_bounded ord V x n" and "mgr_bounded V x (nf_mgr (nd_fx n)) \<Longrightarrow> mgr_bounded V x (f (nf_mgr (nd_fx n)))"
  shows "node_bounded ord V x (on_mgr f n)"
  using assms by (simp add: node_bounded_def on_mgr_def versionOf_def)

lemma event_bounded:
  assumes "node_bounded ord V x (net i)" and "V + net_asked x (NtEvent i orc) net < 2 ^ 64" and "toValidUTF8 x = x"
  shows "node_bounded ord (V + net_asked x (NtEvent i orc) net) x (node_event tcpManager ord orc (net i))"
proof (cases "pmi_Receive tcpManager (nf_mgr (nd_fx (net i)))")
  case None
  then show ?thesis using assms(1) by (simp add: node_event_def)
next
  case (Some r)
  obtain evt m where r: "r = (evt, m)" by (cases r)
  have rcv: "pm_Receive (nf_mgr (nd_fx (net i))) = Some (evt, m)" using Some by (simp add: r tcpManager_def)
  note m = mgr_bounded_Receive [OF node_boundedD(4) [OF assms(1)] rcv]
  let ?n = "(net i)\<lparr>nd_fx := (nd_fx (net i))\<lparr>nf_mgr := m\<rparr>\<rparr>"
  have n: "node_bounded ord V x ?n" using assms(1) m(1) by (simp add: node_bounded_def versionOf_def)
  have log: "node_bounded ord V x (?n\<lparr>nd_log := nd_log ?n @ [l]\<rparr>)" if "\<forall>v src. l \<noteq> LogApplied x v src" for l
    using n that by (simp add: node_bounded_def versionOf_def appliedTo_def)
  show ?thesis
  proof (cases "pe_Kind evt = EventPeerMessage")
    case True
    have a: "net_asked x (NtEvent i orc) net = asked_by_message x orc (pe_PeerID evt) (pe_Env evt) ?n"
      using Some True by (simp add: r asked_by_message_def split: option.split)
    have e: "node_event tcpManager ord orc (net i) = node_handlePeerMessage tcpManager ord orc (pe_PeerID evt) (pe_Env evt) ?n"
      using Some True by (simp add: r node_event_def Let_def EventPeerMessage_def EventPeerConnected_def EventPeerClosed_def)
    show ?thesis unfolding a e using assms(2) a by (intro message_bounded [OF n m(2) [OF True] _ assms(3)]) simp
  next
    case False
    then show ?thesis using Some n log by (simp add: r node_event_def Let_def)
  qed
qed

fun sendable :: "net_op \<Rightarrow> bool" where
  \<comment> \<open>the data that is submitted can be sent: it is nil or well-formed JSON\<close>
  "sendable (NtSubmit i orc task data) = wellNested data"
| "sendable (NtAnnounce i orc rid p) = (\<forall>m \<in> set (raws (PSubmitResult p)). wellNested m)"
| "sendable _ = True"

lemma net_bounded_step:
  assumes "\<forall>i. node_bounded ord V x (net i)" and "V + net_asked x op net < 2 ^ 64" and "toValidUTF8 x = x" and "sendable op"
  shows "\<forall>i. node_bounded ord (V + net_asked x op net) x (net_step ord op net i)"
proof -
  have up: "node_bounded ord (V + net_asked x op net) x (net i)" for i using assms(1) node_bounded_mono [where V = V] by simp
  show ?thesis
  proof (cases op)
    case (NtEvent i orc)
    then show ?thesis using event_bounded [where net = net and i = i, OF assms(1) [rule_format] _ assms(3), of orc] assms(2) up by simp
  next
    case (NtSubmit i orc task data)
    let ?sub = "\<lparr>sub_TaskID = task, sub_OwnerID = ''local'', sub_Data = data, sub_Meta = None\<rparr>"
    have "node_bounded ord (V + asked x (mergeFunc (nd_coord (net i))) ?sub) x (node_submit orc ?sub (net i))"
      using assms(2,4) NtSubmit by (intro submit_bounded [OF assms(1) [rule_format] _ _ _ assms(3)]) (simp_all add: meta_ok_def)
    then show ?thesis using NtSubmit up by (simp add: node_SubmitLocalResult_def)
  next
    case (NtAnnounce i orc rid p)
    have "wire_ok V x b" if "protocol_Encode MsgSubmitResult rid (Some (PSubmitResult p)) = Some b" for b
      using wire_submit [OF _ that] assms(4) NtAnnounce by simp
    then have "mgr_bounded V x (fst (gossip_Broadcast tcpManager orc MsgSubmitResult rid (Some (PSubmitResult p)) m))" if "mgr_bounded V x m" for m
      using that mgr_bounded_send(1) [OF that] by (simp add: gossip_Broadcast_def tcpManager_def split: option.split)
    then show ?thesis using NtAnnounce assms(1) by (simp add: on_mgr_bounded)
  next
    case (NtTransfer i p evs j pid)
    obtain m out running where w: "pm_writeLoop evs p (nf_mgr (nd_fx (net i)), []) = ((m, out), running)" by (metis prod.collapse)
    note wr = mgr_bounded_write [OF node_boundedD(4) [OF assms(1) [rule_format, of i]] w]
    let ?net' = "net(i := on_mgr (\<lambda>_. m) (net i))"
    have n': "node_bounded ord V x (?net' k)" for k using assms(1) wr(1) by (simp add: on_mgr_bounded)
    then have "node_bounded ord V x (on_mgr (pm_readLoop pid out) (?net' j))" by (intro on_mgr_bounded wr(2))
    moreover have "net_step ord op net = ?net'(j := on_mgr (pm_readLoop pid out) (?net' j))" "net_asked x op net = 0"
      using NtTransfer by (simp_all add: w Let_def del: fun_upd_apply)
    ultimately show ?thesis using n' by (simp only: fun_upd_apply [of ?net'] add_0_right) (simp split: if_split)
  next
    case (NtLose i p evs)
    obtain m out running where w: "pm_writeLoop evs p (nf_mgr (nd_fx (net i)), []) = ((m, out), running)" by (metis prod.collapse)
    note wr = mgr_bounded_write [OF node_boundedD(4) [OF assms(1) [rule_format, of i]] w]
    show ?thesis using NtLose assms(1) wr(1) by (simp add: w on_mgr_bounded)
  qed (use assms(1) in \<open>simp_all add: on_mgr_bounded mgr_bounded_open mgr_bounded_finish\<close>)
qed

lemma net_run_count: "snd s \<le> snd (net_run ord x ops s)"
proof (induction ops arbitrary: s)
  case (Cons op ops)
  have "snd s \<le> snd (net_step ord op (fst s), snd s + net_asked x op (fst s))" by simp
  also have "\<dots> \<le> snd (net_run ord x ops (net_step ord op (fst s), snd s + net_asked x op (fst s)))" by (rule Cons.IH)
  finally show ?case by simp
qed simp

lemma net_bounded_run:
  assumes "\<forall>i. node_bounded ord (snd s) x (fst s i)" and "snd (net_run ord x ops s) < 2 ^ 64" and "toValidUTF8 x = x" and "\<forall>op \<in> set ops. sendable op"
  shows "\<forall>i. node_bounded ord (snd (net_run ord x ops s)) x (fst (net_run ord x ops s) i)"
  using assms(1,2,4)
proof (induction ops arbitrary: s)
  case (Cons op ops)
  let ?s = "(net_step ord op (fst s), snd s + net_asked x op (fst s))"
  have "snd ?s < 2 ^ 64" using net_run_count [of ?s ord x ops] Cons.prems(2) by simp
  then have "\<forall>i. node_bounded ord (snd ?s) x (fst ?s i)" using net_bounded_step [OF Cons.prems(1) _ assms(3), of op] Cons.prems(3) by simp
  with Cons.IH [of ?s] Cons.prems show ?case by simp
qed simp

section \<open>Properties\<close>

definition start_node :: "(PeerManager \<Rightarrow> TcpOracle) \<Rightarrow> MergeFunc option \<Rightarrow> Recorder option \<Rightarrow> string slice \<Rightarrow> PeerManager Node" where
  "start_node ord fn mr tags = node_Run tcpManager ord (node_New world_New (coordinator_New fn) pm_New gossip_New mr tags)"

lemma start_bounded:
  assumes "merge_nested (mergeFunc (coordinator_New fn))"
  shows "node_bounded ord 0 x (start_node ord fn mr tags)"
  using assms
  by (simp add: start_node_def node_bounded_def node_Run_def node_New_def world_New_def world_OnChange_def world_bounded_def
      mgr_bounded_def pm_New_def newPeer_def appliedTo_def)

text \<open>C12. Gossip never inflates versions: in a network of any number of nodes that start empty and hear only
  from each other, with any connections, deliveries and losses, the version of an object at any node is at
  most the number of updates of it that the merge functions of all nodes together have asked for, and no node
  ever applies more than that many updates that it has received; so when the submissions stop, the world
  updates stop.  (The merge functions turn JSON into JSON, and the ID of the object is valid UTF-8.)\<close>

theorem gossip_never_inflates_versions:
  assumes "\<forall>i. net i = start_node ord (fn i) (mr i) (tags i)" and "\<forall>i. merge_nested (mergeFunc (coordinator_New (fn i)))"
    and "\<forall>op \<in> set ops. sendable op" and "toValidUTF8 x = x"
    and "net_run ord x ops (net, 0) = (net', k)" and "k < 2 ^ 64"
  shows "unat (versionOf x (net' i)) \<le> k \<and> appliedTo x (nd_log (net' i)) \<le> k"
proof -
  have "\<forall>i. node_bounded ord 0 x (net i)" using assms(1,2) by (simp add: start_bounded)
  with net_bounded_run [of ord "(net, 0)" x ops] assms(3-6) have n: "node_bounded ord k x (net' i)" by simp
  have "unat (versionAt x (nd_world (net' i))) \<le> k"
    using versionAt_bounded [OF node_boundedD(3) [OF n], of x] assms(4) by (simp add: names_def)
  with node_boundedD(5) [OF n] show ?thesis by (simp add: versionOf_def versionAt_def)
qed

lemma peer_merge_nested: "merge_nested (peer_mergeFunc errText)"
proof -
  have "wellNested (Some (marshal_intMap m))" for m
    using jsonValue_jtext [OF marshal_intMap_jtext [of 4 m], of "[]"] by (simp add: wellNested_def)
  then show ?thesis by (auto simp: merge_nested_def peer_mergeFunc_def split: option.splits)
qed

theorem gossip_never_inflates_versions_witness:
  "unat (versionOf ''door'' (net_step exampleOrder (NtSubmit 0 exampleNodeOracle ''door'' (Some (worker_data 1 2)))
     (\<lambda>_. start_node exampleOrder (Some (peer_mergeFunc (\<lambda>_. ''error''))) None None) 0)) \<le> 1"
proof -
  let ?op = "NtSubmit 0 exampleNodeOracle ''door'' (Some (worker_data 1 2))"
  let ?net = "\<lambda>_ :: nat. start_node exampleOrder (Some (peer_mergeFunc (\<lambda>_. ''error''))) None None"
  let ?sub = "\<lparr>sub_TaskID = ''door'', sub_OwnerID = ''local'', sub_Data = Some (worker_data 1 2), sub_Meta = None\<rparr>"
  have valid: "toValidUTF8 ''door'' = ''door''" by (rule toValidUTF8_ascii) (simp add: code_def)
  have fn: "mergeFunc (nd_coord (?net 0)) = peer_mergeFunc (\<lambda>_. ''error'')"
    by (simp add: start_node_def node_Run_def node_New_def coordinator_New_def)
  have "net_asked ''door'' ?op ?net = 1"
    using merge_worker_data [of 1 2 ?sub "\<lambda>_. ''error''"] fn valid by (simp add: asked_def names_def)
  then have run: "net_run exampleOrder ''door'' [?op] (?net, 0) = (net_step exampleOrder ?op ?net, 1)" by (simp del: net_step.simps net_asked.simps)
  have ok: "\<forall>i :: nat. merge_nested (mergeFunc (coordinator_New (Some (peer_mergeFunc (\<lambda>_. ''error'')))))" "\<forall>op \<in> set [?op]. sendable op"
    by (simp_all add: peer_merge_nested coordinator_New_def worker_data_facts(2))
  have "\<forall>i. ?net i = start_node exampleOrder (Some (peer_mergeFunc (\<lambda>_. ''error''))) None None" by simp
  then show ?thesis
    by (rule gossip_never_inflates_versions [where fn = "\<lambda>_. Some (peer_mergeFunc (\<lambda>_. ''error''))" and mr = "\<lambda>_. None" and tags = "\<lambda>_. None" and i = 0,
          OF _ ok valid run, THEN conjunct1]) simp
qed

end
