(* ===== verification/Lifecycle.thy ===== *)
theory Lifecycle imports UdpTransport begin

text \<open>
  Start and stop of the transports (\<open>internal/transport/transport.go\<close>, \<open>internal/transport/udp.go\<close>) and of the
  server program (\<open>cmd/server/main.go\<close>).  The wait group counts the goroutines that \<open>Stop\<close> waits for; a
  connection is at the check of \<open>stopChan\<close> or blocked in \<open>ReadBytes\<close>.  What the loops do to the state of the
  server is in \<open>Transport\<close> and \<open>UdpTransport\<close>; here is only when they end.

  The lemmas show when \<open>Stop\<close> returns.
\<close>

section \<open>The TCP server\<close>

datatype conn_phase = AtCheck | InRead

record TcpServer =
  ts_addr :: string
  ts_listener :: "string option"
  ts_accepting :: bool
  ts_conns :: "nat \<rightharpoonup> conn_phase"
  ts_stopped :: bool

definition newServer :: "string \<Rightarrow> TcpServer" where
  "newServer addr = \<lparr>ts_addr = addr, ts_listener = None, ts_accepting = False, ts_conns = Map.empty, ts_stopped = False\<rparr>"

definition tcp_Start :: "string + string \<Rightarrow> TcpServer \<Rightarrow> TcpServer \<times> string option" where
  \<comment> \<open>with the result of \<open>net.Listen\<close>: its error or the address of the listener\<close>
  "tcp_Start res s =
     (case res of
        Inl err \<Rightarrow> (s, Some (''listen '' @ ts_addr s @ '': '' @ err))
      | Inr a \<Rightarrow> (s\<lparr>ts_listener := Some a, ts_accepting := True\<rparr>, None))"

definition tcp_Addr :: "TcpServer \<Rightarrow> string" where
  "tcp_Addr s = (case ts_listener s of None \<Rightarrow> '''' | Some a \<Rightarrow> a)"

definition tcp_Stop :: "TcpServer \<Rightarrow> TcpServer outcome" where
  \<comment> \<open>before the wait; closing the listener of a server that was not started is a call on a nil interface\<close>
  "tcp_Stop s =
     (if ts_stopped s then Returns s
      else (case ts_listener s of None \<Rightarrow> Panics | Some _ \<Rightarrow> Returns (s\<lparr>ts_stopped := True\<rparr>)))"

definition tcp_waiting :: "TcpServer \<Rightarrow> bool" where
  \<comment> \<open>\<open>s.wg.Wait()\<close> does not return yet\<close>
  "tcp_waiting s \<longleftrightarrow> ts_accepting s \<or> ts_conns s \<noteq> Map.empty"

text \<open>What happens to the goroutines: \<open>Accept\<close> returns a connection, or an error; a connection checks
  \<open>stopChan\<close>, has read a line and served it, or has read the end of its input or an error.\<close>

datatype tcp_event = EvAccept nat | EvAcceptError | EvCheck nat | EvLine nat | EvEnd nat

fun tcp_react :: "tcp_event \<Rightarrow> TcpServer \<Rightarrow> TcpServer" where
  "tcp_react (EvAccept c) s = (if ts_accepting s \<and> ts_conns s c = None then s\<lparr>ts_conns := (ts_conns s)(c \<mapsto> AtCheck)\<rparr> else s)"
| "tcp_react EvAcceptError s = (if ts_stopped s then s\<lparr>ts_accepting := False\<rparr> else s)"
| "tcp_react (EvCheck c) s =
     (if ts_conns s c = Some AtCheck then s\<lparr>ts_conns := (ts_conns s)(c := (if ts_stopped s then None else Some InRead))\<rparr> else s)"
| "tcp_react (EvLine c) s = (if ts_conns s c = Some InRead then s\<lparr>ts_conns := (ts_conns s)(c \<mapsto> AtCheck)\<rparr> else s)"
| "tcp_react (EvEnd c) s = (if ts_conns s c = Some InRead then s\<lparr>ts_conns := (ts_conns s)(c := None)\<rparr> else s)"

definition tcp_events :: "tcp_event list \<Rightarrow> TcpServer \<Rightarrow> TcpServer" where
  "tcp_events evs s = fold tcp_react evs s"

section \<open>The UDP server\<close>

datatype udp_loop = ReadLoop | WriteLoop | TimeoutLoop

record UdpLife =
  ul_addr :: string
  ul_open :: bool
  ul_loops :: "udp_loop \<Rightarrow> bool"
  ul_stopped :: bool

definition newUdpLife :: "string \<Rightarrow> UdpLife" where
  "newUdpLife addr = \<lparr>ul_addr = addr, ul_open = False, ul_loops = (\<lambda>_. False), ul_stopped = False\<rparr>"

definition udp_Start :: "string option \<Rightarrow> string option \<Rightarrow> UdpLife \<Rightarrow> UdpLife \<times> string option" where
  \<comment> \<open>with the errors of \<open>ResolveUDPAddr\<close> and \<open>ListenUDP\<close>\<close>
  "udp_Start resolveErr listenErr u =
     (case resolveErr of
        Some err \<Rightarrow> (u, Some (''resolve udp '' @ ul_addr u @ '': '' @ err))
      | None \<Rightarrow>
          (case listenErr of
             Some err \<Rightarrow> (u, Some (''listen udp '' @ ul_addr u @ '': '' @ err))
           | None \<Rightarrow> (u\<lparr>ul_open := True, ul_loops := (\<lambda>_. True)\<rparr>, None)))"

definition udp_Stop :: "UdpLife \<Rightarrow> UdpLife" where
  \<comment> \<open>before the wait\<close>
  "udp_Stop u = (if ul_stopped u then u else u\<lparr>ul_stopped := True, ul_open := False\<rparr>)"

definition udp_waiting :: "UdpLife \<Rightarrow> bool" where
  "udp_waiting u \<longleftrightarrow> (\<exists>l \<in> {ReadLoop, WriteLoop, TimeoutLoop}. ul_loops u l)"

definition udp_check :: "udp_loop \<Rightarrow> UdpLife \<Rightarrow> UdpLife" where
  \<comment> \<open>a round in which the loop looks at \<open>stopChan\<close>: the deadline of a read and the timers bring it there\<close>
  "udp_check l u = (if ul_stopped u then u\<lparr>ul_loops := (ul_loops u)(l := False)\<rparr> else u)"

text \<open>Loops that end when they find that they are to stop, and only then.\<close>

locale polling_loops =
  fixes stopped :: "'s \<Rightarrow> bool" and running :: "'s \<Rightarrow> 'l \<Rightarrow> bool" and check :: "'l \<Rightarrow> 's \<Rightarrow> 's"
  assumes check_stopped: "stopped (check l s) = stopped s"
    and check_running: "running (check l s) = (if stopped s then (running s)(l := False) else running s)"
begin

lemma checks_stopped: "stopped s \<Longrightarrow> running (fold check ls s) = (\<lambda>l. running s l \<and> l \<notin> set ls)"
  by (induction ls arbitrary: s) (auto simp: check_stopped check_running fun_eq_iff)

lemma checks_unstopped: "\<not> stopped s \<Longrightarrow> running (fold check ls s) = running s"
  by (induction ls arbitrary: s) (simp_all add: check_stopped check_running)

end

interpretation udploops: polling_loops ul_stopped ul_loops udp_check
  by unfold_locales (simp_all add: udp_check_def)

section \<open>The server program\<close>

record ServerLife =
  sl_tcp :: "TcpServer option"
  sl_udp :: "UdpLife option"

definition startTransports :: "string \<Rightarrow> string \<Rightarrow> string + string \<Rightarrow> string option \<Rightarrow> string option \<Rightarrow> ServerLife option" where
  \<comment> \<open>\<open>None\<close>: \<open>log.Fatal\<close>\<close>
  "startTransports tcpAddr udpAddr tcpRes resolveErr listenErr =
     (if tcpAddr = '''' \<and> udpAddr = '''' then None
      else
        (let tcp = (if tcpAddr = '''' then Some None
                    else (case tcp_Start tcpRes (newServer tcpAddr) of (s, None) \<Rightarrow> Some (Some s) | (_, Some _) \<Rightarrow> None));
             udp = (if udpAddr = '''' then Some None
                    else (case udp_Start resolveErr listenErr (newUdpLife udpAddr) of (u, None) \<Rightarrow> Some (Some u) | (_, Some _) \<Rightarrow> None))
         in (case tcp of None \<Rightarrow> None | Some t \<Rightarrow> (case udp of None \<Rightarrow> None | Some u \<Rightarrow> Some \<lparr>sl_tcp = t, sl_udp = u\<rparr>))))"

text \<open>The shutdown: \<open>ShTcp\<close> while it waits for the TCP server, \<open>ShUdp\<close> for the UDP server.\<close>

datatype shutdown = ShTcp | ShUdp | ShDone

definition shutdown_step :: "shutdown \<times> ServerLife \<Rightarrow> shutdown \<times> ServerLife" where
  \<comment> \<open>one step of the end of \<open>main\<close>: a wait that is over ends\<close>
  "shutdown_step x =
     (case x of
        (ShTcp, l) \<Rightarrow>
          (if (case sl_tcp l of None \<Rightarrow> False | Some s \<Rightarrow> tcp_waiting s) then x
           else (ShUdp, l\<lparr>sl_udp := map_option udp_Stop (sl_udp l)\<rparr>))
      | (ShUdp, l) \<Rightarrow> (if (case sl_udp l of None \<Rightarrow> False | Some u \<Rightarrow> udp_waiting u) then x else (ShDone, l))
      | (ShDone, l) \<Rightarrow> x)"

definition shutdown_begin :: "ServerLife \<Rightarrow> (shutdown \<times> ServerLife) outcome" where
  "shutdown_begin l =
     (case sl_tcp l of
        None \<Rightarrow> Returns (ShTcp, l)
      | Some s \<Rightarrow> (case tcp_Stop s of Panics \<Rightarrow> Panics | Returns s' \<Rightarrow> Returns (ShTcp, l\<lparr>sl_tcp := Some s'\<rparr>)))"

section \<open>When Stop returns\<close>

definition concerns :: "nat \<Rightarrow> tcp_event \<Rightarrow> bool" where
  "concerns c ev \<longleftrightarrow> ev = EvLine c \<or> ev = EvEnd c"

lemma tcp_event_silent:
  assumes "ts_conns s c = Some InRead" and "\<not> concerns c ev"
  shows "ts_conns (tcp_react ev s) c = Some InRead"
  using assms by (cases ev) (auto simp: concerns_def)

lemma tcp_events_silent:
  "ts_conns s c = Some InRead \<Longrightarrow> \<forall>ev \<in> set evs. \<not> concerns c ev \<Longrightarrow> ts_conns (tcp_events evs s) c = Some InRead"
  unfolding tcp_events_def by (induction evs arbitrary: s) (simp_all add: tcp_event_silent)

lemma tcp_event_stopped [simp]: "ts_stopped (tcp_react ev s) = ts_stopped s"
  by (cases ev) simp_all

lemma tcp_events_stopped [simp]: "ts_stopped (tcp_events evs s) = ts_stopped s"
  unfolding tcp_events_def by (induction evs arbitrary: s) simp_all

lemma connection_drained:
  fixes f :: "nat \<Rightarrow> tcp_event"
  assumes "ts_stopped s" and "f c = EvLine c \<or> f c = EvEnd c"
  shows "tcp_events [EvCheck c, f c, EvCheck c] s = s\<lparr>ts_conns := (ts_conns s)(c := None)\<rparr>"
proof -
  have id: "s = s\<lparr>ts_conns := (ts_conns s)(c := None)\<rparr>" if "ts_conns s c = None" using that by (simp add: fun_upd_idem)
  show ?thesis
  proof (cases "ts_conns s c")
    case None
    then show ?thesis using assms id by (auto simp: tcp_events_def)
  next
    case (Some ph)
    then show ?thesis using assms by (cases ph) (auto simp: tcp_events_def)
  qed
qed

lemma connections_drained:
  fixes f :: "nat \<Rightarrow> tcp_event"
  assumes "ts_stopped s" and "\<forall>c \<in> set cs. f c = EvLine c \<or> f c = EvEnd c"
  shows "tcp_events (concat (map (\<lambda>c. [EvCheck c, f c, EvCheck c]) cs)) s = s\<lparr>ts_conns := (ts_conns s) |` (- set cs)\<rparr>"
  using assms
proof (induction cs arbitrary: s)
  case Nil
  then show ?case by (simp add: tcp_events_def)
next
  case (Cons c cs)
  have "tcp_events (concat (map (\<lambda>c. [EvCheck c, f c, EvCheck c]) (c # cs))) s =
      tcp_events (concat (map (\<lambda>c. [EvCheck c, f c, EvCheck c]) cs)) (tcp_events [EvCheck c, f c, EvCheck c] s)"
    by (simp add: tcp_events_def)
  also have "\<dots> = s\<lparr>ts_conns := ((ts_conns s)(c := None)) |` (- set cs)\<rparr>"
  proof -
    have d: "tcp_events [EvCheck c, f c, EvCheck c] s = s\<lparr>ts_conns := (ts_conns s)(c := None)\<rparr>"
      using Cons.prems by (intro connection_drained) simp_all
    have "ts_stopped (s\<lparr>ts_conns := (ts_conns s)(c := None)\<rparr>)" "\<forall>c \<in> set cs. f c = EvLine c \<or> f c = EvEnd c"
      using Cons.prems by simp_all
    from Cons.IH [OF this] show ?thesis unfolding d by (simp del: fun_upd_apply restrict_fun_upd fun_upd_None_restrict)
  qed
  also have "((ts_conns s)(c := None)) |` (- set cs) = (ts_conns s) |` (- set (c # cs))"
    by (auto simp: restrict_map_def fun_eq_iff)
  finally show ?case .
qed

section \<open>Properties\<close>

text \<open>C37. Stopping the TCP server depends on its clients: as long as one client whose connection is waiting for a
  line neither writes one nor disconnects, \<open>Stop\<close> does not return, whatever the other clients do, and the
  program does not come to stopping the UDP server; but when the accept loop has failed once more and every
  connection has read one more line or the end of its input, \<open>Stop\<close> returns.\<close>

theorem tcp_stop_waits_for_clients:
  assumes "tcp_Stop s = Returns s'" and "set cs = dom (ts_conns s)" and "\<forall>c \<in> set cs. f c = EvLine c \<or> f c = EvEnd c"
  shows "(\<forall>c evs. ts_conns s c = Some InRead \<and> (\<forall>ev \<in> set evs. ev \<noteq> EvLine c \<and> ev \<noteq> EvEnd c) \<longrightarrow>
       tcp_waiting (tcp_events evs s') \<and>
       shutdown_step (ShTcp, \<lparr>sl_tcp = Some (tcp_events evs s'), sl_udp = u\<rparr>) = (ShTcp, \<lparr>sl_tcp = Some (tcp_events evs s'), sl_udp = u\<rparr>)) \<and>
     \<not> tcp_waiting (tcp_events (EvAcceptError # concat (map (\<lambda>c. [EvCheck c, f c, EvCheck c]) cs)) s')"
proof (intro conjI allI impI)
  have s': "ts_stopped s'" "ts_conns s' = ts_conns s" using assms(1) by (auto simp: tcp_Stop_def split: if_splits option.splits)
  fix c evs
  assume c: "ts_conns s c = Some InRead \<and> (\<forall>ev \<in> set evs. ev \<noteq> EvLine c \<and> ev \<noteq> EvEnd c)"
  then have "ts_conns (tcp_events evs s') c = Some InRead" by (intro tcp_events_silent) (simp_all add: s' concerns_def)
  then show w: "tcp_waiting (tcp_events evs s')" by (auto simp: tcp_waiting_def)
  then show "shutdown_step (ShTcp, \<lparr>sl_tcp = Some (tcp_events evs s'), sl_udp = u\<rparr>) = (ShTcp, \<lparr>sl_tcp = Some (tcp_events evs s'), sl_udp = u\<rparr>)"
    by (simp add: shutdown_step_def)
next
  have s': "ts_stopped s'" "ts_conns s' = ts_conns s" using assms(1) by (auto simp: tcp_Stop_def split: if_splits option.splits)
  let ?s = "s'\<lparr>ts_accepting := False\<rparr>"
  have "tcp_events (EvAcceptError # evs) s' = tcp_events evs ?s" for evs using s'(1) by (simp add: tcp_events_def)
  then have "tcp_events (EvAcceptError # concat (map (\<lambda>c. [EvCheck c, f c, EvCheck c]) cs)) s' =
      ?s\<lparr>ts_conns := (ts_conns ?s) |` (- set cs)\<rparr>"
    using connections_drained [of ?s cs f] s'(1) assms(3) by simp
  moreover have "(ts_conns s) |` (- dom (ts_conns s)) = Map.empty" by (auto simp: restrict_map_def fun_eq_iff)
  ultimately show "\<not> tcp_waiting (tcp_events (EvAcceptError # concat (map (\<lambda>c. [EvCheck c, f c, EvCheck c]) cs)) s')"
    using s'(2) assms(2) by (simp add: tcp_waiting_def)
qed

theorem tcp_stop_waits_for_clients_witness:
  "\<exists>s'. tcp_Stop (tcp_events [EvAccept 1, EvCheck 1] (fst (tcp_Start (Inr '':7000'') (newServer '':7000'')))) = Returns s' \<and>
     tcp_waiting (tcp_events [EvAcceptError] s') \<and> \<not> tcp_waiting (tcp_events [EvAcceptError, EvCheck 1, EvEnd 1, EvCheck 1] s')"
proof -
  let ?s = "tcp_events [EvAccept 1, EvCheck 1] (fst (tcp_Start (Inr '':7000'') (newServer '':7000'')))"
  let ?s' = "?s\<lparr>ts_stopped := True\<rparr>"
  have "ts_conns ?s = [1 \<mapsto> InRead]" "ts_listener ?s = Some '':7000''" "\<not> ts_stopped ?s"
    by (simp_all add: tcp_events_def tcp_Start_def newServer_def)
  then have s: "tcp_Stop ?s = Returns ?s'" "set [1] = dom (ts_conns ?s)" "ts_conns ?s 1 = Some InRead" by (simp_all add: tcp_Stop_def)
  from tcp_stop_waits_for_clients [where f = EvEnd, OF s(1,2)] s(1,3) show ?thesis
    by (intro exI [of _ ?s']) auto
qed

text \<open>Stopping the UDP server needs no client: after \<open>Stop\<close>, when each of the three loops has come once more to
  its check of \<open>stopChan\<close>, in any order and with any number of further checks, the wait is over, and a second
  \<open>Stop\<close> changes nothing.\<close>

theorem udp_stop_returns:
  assumes "{ReadLoop, WriteLoop, TimeoutLoop} \<subseteq> set ls"
  shows "\<not> udp_waiting (fold udp_check ls (udp_Stop u)) \<and> udp_Stop (udp_Stop u) = udp_Stop u"
  using assms udploops.checks_stopped [of "udp_Stop u" ls] by (auto simp: udp_waiting_def udp_Stop_def)

theorem udp_stop_returns_witness:
  "\<not> udp_waiting (fold udp_check [WriteLoop, ReadLoop, WriteLoop, TimeoutLoop] (udp_Stop (fst (udp_Start None None (newUdpLife '':7001'')))))"
  using udp_stop_returns [of "[WriteLoop, ReadLoop, WriteLoop, TimeoutLoop]"] by simp

end
