(* ===== verification/PeerStop.thy ===== *)
theory PeerStop imports PeeringTcp PeeringUdp Lifecycle begin

text \<open>
  The end of the managers of peers, \<open>internal/peering/peering.go\<close> and \<open>internal/peering/udp.go\<close>: the goroutines
  that \<open>Stop\<close> waits for, beside the state of the manager in \<open>PeeringTcp\<close> and \<open>PeeringUdp\<close>.  An accepted
  connection is first a goroutine that has not registered its peer yet, then a peer.

  The lemmas show which connections \<open>Stop\<close> ends by itself and which keep it waiting.
\<close>

section \<open>The TCP manager and its goroutines\<close>

record PmLife =
  pl_mgr :: PeerManager
  pl_accepting :: bool
  pl_spawned :: nat
  pl_conns :: "pptr set"

definition pm_start :: "TcpOracle \<Rightarrow> string \<Rightarrow> PmLife" where
  "pm_start orc addr =
     (let (m, err) = pm_Listen orc addr pm_New
      in \<lparr>pl_mgr = m, pl_accepting = (err = None), pl_spawned = 0, pl_conns = {}\<rparr>)"

definition pm_begin :: "gotime \<Rightarrow> string \<Rightarrow> PmLife \<Rightarrow> PmLife" where
  "pm_begin nanos addr l = (let (p, m) = pm_open nanos addr (pl_mgr l) in l\<lparr>pl_mgr := m, pl_conns := insert p (pl_conns l)\<rparr>)"

definition pm_end :: "pptr \<Rightarrow> PmLife \<Rightarrow> PmLife" where
  "pm_end p l = l\<lparr>pl_mgr := pm_finish (pr_ID (pm_heap (pl_mgr l) p)) (pl_mgr l), pl_conns := pl_conns l - {p}\<rparr>"

text \<open>\<open>PeRegister\<close>: a goroutine that was started for a connection registers its peer; \<open>PeDial\<close>: \<open>Dial\<close> succeeds;
  \<open>PeRemoteEnd\<close>: the other end has closed the connection, or it broke; \<open>PeLocalEnd\<close>: the read fails because this end
  is closed.\<close>

datatype pm_event =
    PeAccept
  | PeAcceptError
  | PeRegister gotime string
  | PeDial gotime string
  | PeLine pptr bytes
  | PeRemoteEnd pptr
  | PeLocalEnd pptr

fun pm_react :: "pm_event \<Rightarrow> PmLife \<Rightarrow> PmLife" where
  "pm_react PeAccept l = (if pl_accepting l then l\<lparr>pl_spawned := Suc (pl_spawned l)\<rparr> else l)"
| "pm_react PeAcceptError l = (if pm_stopped (pl_mgr l) then l\<lparr>pl_accepting := False\<rparr> else l)"
| "pm_react (PeRegister nanos addr) l =
     (if pl_spawned l = 0 then l else (pm_begin nanos addr l)\<lparr>pl_spawned := pl_spawned l - 1\<rparr>)"
| "pm_react (PeDial nanos addr) l = pm_begin nanos addr l"
| "pm_react (PeLine p line) l =
     (if p \<in> pl_conns l then l\<lparr>pl_mgr := pm_line (pr_ID (pm_heap (pl_mgr l) p)) line (pl_mgr l)\<rparr> else l)"
| "pm_react (PeRemoteEnd p) l = (if p \<in> pl_conns l then pm_end p l else l)"
| "pm_react (PeLocalEnd p) l = (if p \<in> pl_conns l \<and> \<not> pr_connOpen (pm_heap (pl_mgr l) p) then pm_end p l else l)"

definition pm_halt :: "PmLife \<Rightarrow> PmLife" where
  \<comment> \<open>\<open>Stop\<close> before the wait\<close>
  "pm_halt l = l\<lparr>pl_mgr := pm_Stop (pl_mgr l)\<rparr>"

definition pm_waiting :: "PmLife \<Rightarrow> bool" where
  "pm_waiting l \<longleftrightarrow> pl_accepting l \<or> pl_spawned l > 0 \<or> pl_conns l \<noteq> {}"

definition pm_reacts :: "pm_event list \<Rightarrow> PmLife \<Rightarrow> PmLife" where
  "pm_reacts evs l = fold pm_react evs l"

definition idFree :: "gotime \<Rightarrow> PmLife \<Rightarrow> bool" where
  \<comment> \<open>no running connection has the ID that a new one would get\<close>
  "idFree nanos l \<longleftrightarrow> (\<forall>q \<in> pl_conns l. pr_ID (pm_heap (pl_mgr l) q) \<noteq> peerID nanos (length (pm_peers (pl_mgr l))))"

text \<open>The states of a running manager, as long as IDs do not collide.\<close>

fun fresh_event :: "pm_event \<Rightarrow> PmLife \<Rightarrow> bool" where
  "fresh_event (PeRegister nanos addr) l = idFree nanos l"
| "fresh_event (PeDial nanos addr) l = idFree nanos l"
| "fresh_event _ l = True"

inductive pm_runs :: "PmLife \<Rightarrow> bool" where
  start: "pm_runs (pm_start orc addr)"
| step: "pm_runs l \<Longrightarrow> fresh_event ev l \<Longrightarrow> pm_runs (pm_react ev l)"

section \<open>Running\<close>

definition pl_ok :: "PmLife \<Rightarrow> bool" where
  "pl_ok l \<longleftrightarrow> pm_ok (pl_mgr l) \<and> (\<forall>p \<in> pl_conns l. map_of (pm_peers (pl_mgr l)) (pr_ID (pm_heap (pl_mgr l) p)) = Some p)"

lemma line_sel [simp]:
  "pm_heap (pm_line pid line m) = pm_heap m" "pm_peers (pm_line pid line m) = pm_peers m" "pm_next (pm_line pid line m) = pm_next m"
  "pm_stopped (pm_line pid line m) = pm_stopped m"
  by (simp_all add: pm_line_def split: option.split)

lemma finish_sel [simp]:
  "map_of (pm_peers (pm_finish pid m)) = (map_of (pm_peers m))(pid := None)"
  "pm_next (pm_finish pid m) = pm_next m" "pm_stopped (pm_finish pid m) = pm_stopped m"
  "pm_heap (pm_finish pid m) = (case map_of (pm_peers m) pid of None \<Rightarrow> pm_heap m | Some p \<Rightarrow> (pm_heap m)(p := peer_Close (pm_heap m p)))"
  by (auto simp: pm_finish_def pm_removePeer_def delete_conv' fun_upd_idem split: option.split)

lemma open_sel:
  assumes "pm_open nanos addr m = (p, m')"
  shows "p = pm_next m" "pm_next m' = Suc (pm_next m)" "pm_stopped m' = pm_stopped m"
    "pm_heap m' = (pm_heap m)(p := newPeer (peerID nanos (length (pm_peers m))) addr)"
    "map_of (pm_peers m') = (map_of (pm_peers m))(peerID nanos (length (pm_peers m)) \<mapsto> p)" "pm_ok m \<Longrightarrow> pm_ok m'"
  using assms pm_ok_open [of m nanos addr] by (auto simp: pm_open_def pm_addPeer_def Let_def newPeer_def update_conv')

lemma pl_ok_begin:
  assumes "pl_ok l" and "idFree nanos l"
  shows "pl_ok (pm_begin nanos addr l)"
proof -
  obtain p m' where o: "pm_open nanos addr (pl_mgr l) = (p, m')" by fastforce
  note sel = open_sel [OF o]
  have "q \<noteq> p" if "q \<in> pl_conns l" for q
    using that assms(1) pm_okD(5) [of "pl_mgr l" "pr_ID (pm_heap (pl_mgr l) q)" q] by (auto simp: pl_ok_def sel(1) simp del: map_of_eq_Some_iff)
  then show ?thesis using assms by (auto simp: pl_ok_def idFree_def pm_begin_def o sel(4-6) peer_ok_new simp del: map_of_eq_Some_iff)
qed

lemma pl_ok_end:
  assumes "pl_ok l" and "p \<in> pl_conns l"
  shows "pl_ok (pm_end p l)"
proof -
  let ?id = "\<lambda>q. pr_ID (pm_heap (pl_mgr l) q)"
  have p: "map_of (pm_peers (pl_mgr l)) (?id p) = Some p" using assms by (simp add: pl_ok_def del: map_of_eq_Some_iff)
  have "?id q \<noteq> ?id p" if "q \<in> pl_conns l" "q \<noteq> p" for q using that assms(1) p by (auto simp: pl_ok_def simp del: map_of_eq_Some_iff)
  then show ?thesis using assms p by (auto simp: pl_ok_def pm_end_def pm_ok_finish simp del: map_of_eq_Some_iff)
qed

lemma pl_ok_react: "pl_ok l \<Longrightarrow> fresh_event ev l \<Longrightarrow> pl_ok (pm_react ev l)"
proof (induction ev l rule: pm_react.induct)
  case (3 nanos addr l)
  then show ?case using pl_ok_begin [of l nanos addr] by (auto simp: pl_ok_def)
next
  case (5 p line l)
  then show ?case by (auto simp: pl_ok_def pm_ok_line)
qed (auto simp: pl_ok_begin pl_ok_end, auto simp: pl_ok_def)

lemma pm_runs_ok: "pm_runs l \<Longrightarrow> pl_ok l"
proof (induction rule: pm_runs.induct)
  case (start orc addr)
  have "pm_ok (fst (pm_Listen orc addr pm_New))" using pm_ok_New by (auto simp: pm_Listen_def pm_ok_def split: option.split)
  then show ?case by (simp add: pl_ok_def pm_start_def split_def Let_def)
qed (rule pl_ok_react)

section \<open>After Stop\<close>

lemma peer_Close_twice [simp]: "peer_Close (peer_Close p) = peer_Close p"
  by (simp add: peer_Close_def)

lemma Stop_sel:
  "pm_heap (pm_Stop m) = (\<lambda>p. if p \<in> snd ` set (pm_peers m) then peer_Close (pm_heap m p) else pm_heap m p)"
  "pm_peers (pm_Stop m) = pm_peers m" "pm_next (pm_Stop m) = pm_next m" "pm_stopped (pm_Stop m)"
proof -
  have "pm_heap (fold (\<lambda>(_, p). pm_at p peer_Close) ps m') =
        (\<lambda>p. if p \<in> snd ` set ps then peer_Close (pm_heap m' p) else pm_heap m' p) \<and>
      pm_peers (fold (\<lambda>(_, p). pm_at p peer_Close) ps m') = pm_peers m' \<and> pm_next (fold (\<lambda>(_, p). pm_at p peer_Close) ps m') = pm_next m' \<and>
      pm_stopped (fold (\<lambda>(_, p). pm_at p peer_Close) ps m') = pm_stopped m'" for ps :: "(string \<times> pptr) list" and m'
    by (induction ps arbitrary: m') (auto simp: fun_eq_iff)
  from this [of "pm_peers m" "m\<lparr>pm_stopped := True\<rparr>"]
  show "pm_heap (pm_Stop m) = (\<lambda>p. if p \<in> snd ` set (pm_peers m) then peer_Close (pm_heap m p) else pm_heap m p)"
    "pm_peers (pm_Stop m) = pm_peers m" "pm_next (pm_Stop m) = pm_next m" "pm_stopped (pm_Stop m)"
    by (simp_all add: pm_Stop_def cong: if_cong)
qed

definition draining :: "PmLife \<Rightarrow> bool" where
  "draining l \<longleftrightarrow> pm_stopped (pl_mgr l) \<and> pl_spawned l = 0 \<and> (\<forall>p \<in> pl_conns l. \<not> pr_connOpen (pm_heap (pl_mgr l) p))"

definition brings_work :: "pm_event \<Rightarrow> bool" where
  "brings_work ev \<longleftrightarrow> ev = PeAccept \<or> (\<exists>nanos addr. ev = PeDial nanos addr)"

lemma draining_halt: "pl_ok l \<Longrightarrow> pl_spawned l = 0 \<Longrightarrow> draining (pm_halt l)"
proof -
  assume ok: "pl_ok l" and "pl_spawned l = 0"
  have "p \<in> snd ` set (pm_peers (pl_mgr l))" if "p \<in> pl_conns l" for p
    using that ok by (force simp: pl_ok_def dest: map_of_SomeD)
  moreover have "\<not> pr_connOpen (peer_Close (pm_heap (pl_mgr l) p))" for p
    using ok pm_okD(2) [of "pl_mgr l" p] by (auto simp: pl_ok_def peer_ok_def peer_Close_def)
  ultimately show ?thesis using \<open>pl_spawned l = 0\<close> by (simp add: draining_def pm_halt_def Stop_sel)
qed

lemma end_sel [simp]:
  "pl_conns (pm_end p l) = pl_conns l - {p}" "pl_spawned (pm_end p l) = pl_spawned l" "pl_accepting (pm_end p l) = pl_accepting l"
  "pm_stopped (pl_mgr (pm_end p l)) = pm_stopped (pl_mgr l)"
  by (simp_all add: pm_end_def)

lemma end_closes: "\<not> pr_connOpen (pm_heap (pl_mgr l) q) \<Longrightarrow> \<not> pr_connOpen (pm_heap (pl_mgr (pm_end p l)) q)"
  by (simp add: pm_end_def peer_Close_def split: option.split)

lemma draining_react:
  assumes "draining l" and "\<not> brings_work ev"
  shows "draining (pm_react ev l) \<and> pl_conns (pm_react ev l) = pl_conns l - {p. ev = PeLocalEnd p \<or> ev = PeRemoteEnd p} \<and>
     (pl_accepting (pm_react ev l) \<longleftrightarrow> pl_accepting l \<and> ev \<noteq> PeAcceptError)"
proof (cases ev)
  case (PeRemoteEnd p)
  then show ?thesis using assms end_closes by (auto simp: draining_def)
next
  case (PeLocalEnd p)
  then show ?thesis using assms end_closes by (auto simp: draining_def)
qed (use assms in \<open>auto simp: draining_def brings_work_def\<close>)

lemma draining_reacts:
  "draining l \<Longrightarrow> \<forall>ev \<in> set evs. \<not> brings_work ev \<Longrightarrow>
   draining (pm_reacts evs l) \<and> pl_conns (pm_reacts evs l) = pl_conns l - {p. PeLocalEnd p \<in> set evs \<or> PeRemoteEnd p \<in> set evs} \<and>
   (pl_accepting (pm_reacts evs l) \<longleftrightarrow> pl_accepting l \<and> PeAcceptError \<notin> set evs)"
proof (induction evs arbitrary: l)
  case Nil
  then show ?case by (simp add: pm_reacts_def)
next
  case (Cons ev evs)
  note first = draining_react [OF Cons.prems(1), of ev]
  have "pm_reacts (ev # evs) l = pm_reacts evs (pm_react ev l)" by (simp add: pm_reacts_def)
  with first Cons.IH [of "pm_react ev l"] Cons.prems(2) show ?case by auto
qed

text \<open>A connection that no operation of this end closes any more.\<close>

definition orphan :: "pptr \<Rightarrow> PmLife \<Rightarrow> bool" where
  "orphan p l \<longleftrightarrow> pm_ok (pl_mgr l) \<and> p \<in> pl_conns l \<and> p < pm_next (pl_mgr l) \<and> pr_connOpen (pm_heap (pl_mgr l) p) \<and>
     (map_of (pm_peers (pl_mgr l)) (pr_ID (pm_heap (pl_mgr l) p)) = Some p \<longrightarrow>
        (\<forall>q \<in> pl_conns l. q \<noteq> p \<longrightarrow> pr_ID (pm_heap (pl_mgr l) q) \<noteq> pr_ID (pm_heap (pl_mgr l) p)))"

lemma orphan_begin:
  assumes "orphan p l"
  shows "orphan p (pm_begin nanos addr l)"
proof -
  obtain q m' where o: "pm_open nanos addr (pl_mgr l) = (q, m')" by fastforce
  from assms show ?thesis
    by (auto simp: orphan_def pm_begin_def o open_sel [OF o] peer_ok_new simp del: map_of_eq_Some_iff split: if_splits)
qed

lemma orphan_end:
  assumes "orphan p l" and "q \<in> pl_conns l" and "q \<noteq> p"
  shows "orphan p (pm_end q l)"
proof -
  let ?m = "pl_mgr l"
  have ok: "pm_ok ?m" using assms(1) by (simp add: orphan_def)
  have "map_of (pm_peers ?m) (pr_ID (pm_heap ?m q)) \<noteq> Some p"
  proof
    assume e: "map_of (pm_peers ?m) (pr_ID (pm_heap ?m q)) = Some p"
    with pm_okD(4) [OF ok e] assms show False by (auto simp: orphan_def simp del: map_of_eq_Some_iff)
  qed
  then show ?thesis using assms pm_ok_finish [OF ok]
    by (auto simp: orphan_def pm_end_def simp del: map_of_eq_Some_iff split: option.split)
qed

lemma orphan_react: "orphan p l \<Longrightarrow> PeRemoteEnd p \<noteq> ev \<Longrightarrow> orphan p (pm_react ev l)"
proof (induction ev l rule: pm_react.induct)
  case (3 nanos addr l)
  then show ?case using orphan_begin [of p l nanos addr] by (auto simp: orphan_def)
next
  case (6 q l)
  then show ?case by (auto intro: orphan_end)
next
  case (7 q l)
  then show ?case by (cases "q = p") (auto intro: orphan_end simp: orphan_def [of p l])
qed (auto simp: orphan_begin, auto simp: orphan_def pm_ok_line)

lemma orphan_reacts: "orphan p l \<Longrightarrow> PeRemoteEnd p \<notin> set evs \<Longrightarrow> orphan p (pm_reacts evs l)"
  unfolding pm_reacts_def by (induction evs arbitrary: l) (simp_all add: orphan_react)

lemma orphan_late:
  assumes "pl_ok l" and "idFree nanos l"
  shows "orphan (pm_next (pl_mgr l)) (pm_begin nanos addr (pm_halt l))"
proof -
  obtain p m' where o: "pm_open nanos addr (pm_Stop (pl_mgr l)) = (p, m')" by fastforce
  note sel = open_sel [OF o]
  have ok: "pm_ok (pm_Stop (pl_mgr l))" using assms(1) by (simp add: pl_ok_def pm_ok_Stop)
  have ids: "pr_ID (pm_heap (pm_Stop (pl_mgr l)) q) = pr_ID (pm_heap (pl_mgr l) q)" for q by (simp add: Stop_sel)
  have "p = pm_next (pl_mgr l)" using sel(1) by (simp add: Stop_sel)
  then show ?thesis
    using assms(2) ok ids by (auto simp: orphan_def pm_begin_def pm_halt_def o sel(2-6) Stop_sel(2,3) newPeer_def idFree_def simp del: map_of_eq_Some_iff)
qed

section \<open>The UDP manager\<close>

record UmLife =
  uml_mgr :: UDPManager
  uml_loops :: "udp_loop \<Rightarrow> bool"

definition um_start :: "UdpOracle \<Rightarrow> string \<Rightarrow> UmLife" where
  "um_start orc addr = (let (m, err) = um_Listen orc addr um_New in \<lparr>uml_mgr = m, uml_loops = (\<lambda>_. err = None)\<rparr>)"

definition um_halt :: "UmLife \<Rightarrow> UmLife" where
  "um_halt l = l\<lparr>uml_mgr := um_Stop (uml_mgr l)\<rparr>"

definition um_check :: "udp_loop \<Rightarrow> UmLife \<Rightarrow> UmLife" where
  "um_check k l = (if um_stopped (uml_mgr l) then l\<lparr>uml_loops := (uml_loops l)(k := False)\<rparr> else l)"

definition um_waiting :: "UmLife \<Rightarrow> bool" where
  "um_waiting l \<longleftrightarrow> (\<exists>k \<in> {ReadLoop, WriteLoop, TimeoutLoop}. uml_loops l k)"

interpretation umloops: polling_loops "\<lambda>l. um_stopped (uml_mgr l)" uml_loops um_check
  by unfold_locales (auto simp: um_check_def fun_eq_iff)

lemma um_stop_returns: "{ReadLoop, WriteLoop, TimeoutLoop} \<subseteq> set ks \<Longrightarrow> \<not> um_waiting (fold um_check ks (um_halt l))"
  using umloops.checks_stopped [of "um_halt l" ks] by (auto simp: um_waiting_def um_halt_def um_Stop_def)

section \<open>Properties\<close>

text \<open>C29. Stopping the TCP manager of peers: in every state of a running manager in which no accepted connection is
  still without a registered peer, \<open>Stop\<close> closes all connections, and as soon as the accept loop has failed once more
  and each connection has noticed that its own end is closed, the wait is over, whatever lines still arrive and in
  whatever order, without any help of the other ends; but a connection that was accepted and registers its peer only
  after \<open>Stop\<close> has closed the others, or that is dialled then, keeps \<open>Stop\<close> waiting until its other end closes it.\<close>

theorem peer_stop_returns:
  assumes "pm_runs l"
  shows "(pl_spawned l = 0 \<and> PeAcceptError \<in> set evs \<and> (\<forall>p \<in> pl_conns l. PeLocalEnd p \<in> set evs) \<and>
         (\<forall>ev \<in> set evs. ev \<noteq> PeAccept \<and> (\<forall>nanos addr. ev \<noteq> PeDial nanos addr)) \<longrightarrow>
       \<not> pm_waiting (pm_reacts evs (pm_halt l))) \<and>
     (idFree nanos l \<and> PeRemoteEnd (pm_next (pl_mgr l)) \<notin> set evs \<longrightarrow>
       (pl_spawned l > 0 \<longrightarrow> pm_waiting (pm_reacts (PeRegister nanos addr # evs) (pm_halt l))) \<and>
       pm_waiting (pm_reacts (PeDial nanos addr # evs) (pm_halt l)))"
proof (intro conjI impI)
  assume a: "pl_spawned l = 0 \<and> PeAcceptError \<in> set evs \<and> (\<forall>p \<in> pl_conns l. PeLocalEnd p \<in> set evs) \<and>
         (\<forall>ev \<in> set evs. ev \<noteq> PeAccept \<and> (\<forall>nanos addr. ev \<noteq> PeDial nanos addr))"
  then have "draining (pm_halt l)" using draining_halt pm_runs_ok [OF assms] by blast
  from draining_reacts [OF this, of evs] a show "\<not> pm_waiting (pm_reacts evs (pm_halt l))"
    by (auto simp: pm_waiting_def draining_def brings_work_def pm_halt_def)
next
  assume b: "idFree nanos l \<and> PeRemoteEnd (pm_next (pl_mgr l)) \<notin> set evs"
  let ?p = "pm_next (pl_mgr l)"
  have o: "orphan ?p (pm_begin nanos addr (pm_halt l))" using orphan_late pm_runs_ok [OF assms] b by blast
  have w: "pm_waiting (pm_reacts evs l')" if "orphan ?p l'" for l' 
    using orphan_reacts [OF that, of evs] b by (auto simp: pm_waiting_def orphan_def)
  show "pm_waiting (pm_reacts (PeDial nanos addr # evs) (pm_halt l))" using w [OF o] by (simp add: pm_reacts_def)
  assume s: "pl_spawned l > 0"
  have "orphan ?p (pm_begin nanos addr (pm_halt l)\<lparr>pl_spawned := pl_spawned l - 1\<rparr>)" using o by (simp add: orphan_def)
  from w [OF this] s show "pm_waiting (pm_reacts (PeRegister nanos addr # evs) (pm_halt l))" by (simp add: pm_reacts_def pm_halt_def)
qed


theorem peer_stop_returns_witness:
  "\<exists>l. pl_conns l = {0} \<and> \<not> pm_waiting (pm_reacts [PeAcceptError, PeLocalEnd 0] (pm_halt l)) \<and>
     pm_waiting (pm_reacts [PeDial 8 ''10.0.0.2:5'', PeAcceptError, PeLocalEnd 0] (pm_halt l))"
proof -
  let ?start = "pm_start \<lparr>to_order = [], to_error = None, to_addr = '':7000'', to_nanos = 0\<rparr> '':7000''"
  let ?l = "pm_react (PeRegister 7 ''10.0.0.1:5'') (pm_react PeAccept ?start)"
  have l0: "?start = \<lparr>pl_mgr = pm_New\<lparr>pm_listener := Some '':7000''\<rparr>, pl_accepting = True, pl_spawned = 0, pl_conns = {}\<rparr>"
    by (simp add: pm_start_def pm_Listen_def)
  have "pm_runs (pm_react PeAccept ?start)" by (rule pm_runs.step [OF pm_runs.start]) simp
  then have r: "pm_runs ?l" by (rule pm_runs.step) (simp add: l0 idFree_def)
  have l: "pl_conns ?l = {0}" "pl_spawned ?l = 0" "pm_next (pl_mgr ?l) = 1" "pm_heap (pl_mgr ?l) 0 = newPeer (peerID 7 0) ''10.0.0.1:5''"
    "length (pm_peers (pl_mgr ?l)) = 1"
    by (simp_all add: l0 pm_begin_def pm_open_def pm_addPeer_def pm_New_def newPeer_def Let_def)
  from r l obtain l where l: "pm_runs l" "pl_conns l = {0}" "pl_spawned l = 0" "pm_next (pl_mgr l) = 1"
    "pm_heap (pl_mgr l) 0 = newPeer (peerID 7 0) ''10.0.0.1:5''" "length (pm_peers (pl_mgr l)) = 1" by metis
  have "peerID 7 0 \<noteq> peerID 8 1" by (simp add: peerID_def showInt_def showNat.simps digitChar_numeral)
  then have "idFree 8 l" by (simp add: idFree_def l newPeer_def)
  with peer_stop_returns [OF l(1), of "[PeAcceptError, PeLocalEnd 0]" 8 "''10.0.0.2:5''"] show ?thesis
    by (intro exI [of _ l]) (simp add: l)
qed

end
