(* ===== verification/MetricsJson.thy ===== *)
theory MetricsJson imports Metrics IntMap Framing begin

text \<open>
  The metrics endpoint, \<open>HTTPHandler\<close> of \<open>internal/metrics/metrics.go\<close>: the JSON of a snapshot, as the tags of
  \<open>Snapshot\<close>, \<open>Totals\<close>, \<open>TaskSnap\<close> and \<open>SessionSnap\<close> give it, followed by a line feed.  The maps are written
  in the order of their keys; the order in which Go ranges over them is an argument.
\<close>

section \<open>Encoding\<close>

definition juint :: "uint64 \<Rightarrow> bytes" where
  "juint n = showNat (unat n)"

definition jbool :: "bool \<Rightarrow> bytes" where
  "jbool b = (if b then ''true'' else ''false'')"

definition jmap :: "('v \<Rightarrow> bytes) \<Rightarrow> string list \<Rightarrow> (string \<rightharpoonup> 'v) option \<Rightarrow> bytes" where
  \<comment> \<open>a map with string keys; \<open>ks\<close>: the order in which Go ranges over it\<close>
  "jmap f ks m = (case m of None \<Rightarrow> jnull | Some m' \<Rightarrow> jobject (map (\<lambda>k. (quoteBody k, f (the (m' k)))) (sort ks)))"

definition marshal_Totals :: "Totals \<Rightarrow> bytes" where
  "marshal_Totals t = jobject [(''claims'', juint (tot_Claims t)), (''completions'', juint (tot_Completions t)),
     (''rejections'', juint (tot_Rejections t)), (''evictions'', juint (tot_Evictions t)), (''releases'', juint (tot_Releases t)),
     (''broadcasts'', juint (tot_Broadcasts t))]"

definition marshal_TaskSnap :: "TaskSnap \<Rightarrow> bytes" where
  "marshal_TaskSnap t = jobject [(''claims'', juint (tsn_Claims t)), (''completions'', juint (tsn_Completions t)),
     (''rejections'', juint (tsn_Rejections t)), (''evictions'', juint (tsn_Evictions t)), (''releases'', juint (tsn_Releases t)),
     (''avg_compute_ms'', juint (tsn_AvgComputeMs t))]"

definition marshal_SessionSnap :: "SessionSnap \<Rightarrow> bytes" where
  "marshal_SessionSnap s = jobject [(''claims'', juint (ssn_Claims s)), (''completions'', juint (ssn_Completions s)),
     (''rejections'', juint (ssn_Rejections s)), (''evictions'', juint (ssn_Evictions s)), (''current_owned'', juint (ssn_CurrentOwned s))]"

definition marshal_Snapshot :: "string list \<Rightarrow> string list \<Rightarrow> Snapshot \<Rightarrow> bytes" where
  "marshal_Snapshot ts ss s = jobject [(''uptime'', jstring (snap_Uptime s)), (''enabled'', jbool (snap_Enabled s)),
     (''totals'', marshal_Totals (snap_Totals s)), (''per_task'', jmap marshal_TaskSnap ts (snap_PerTask s)),
     (''per_session'', jmap marshal_SessionSnap ss (snap_PerSession s))]"

record HttpResponse =
  http_ContentType :: string
  http_Body :: bytes

definition HTTPHandler :: "gotime \<Rightarrow> string list \<Rightarrow> string list \<Rightarrow> Recorder option \<Rightarrow> HttpResponse" where
  "HTTPHandler now ts ss r =
     \<lparr>http_ContentType = ''application/json'', http_Body = marshal_Snapshot ts ss (recorder_Snapshot now r) @ [NL]\<rparr>"

section \<open>What a client reads\<close>

lemma juint_jtext [simp]: "jtext d (juint n)"
  by (simp add: juint_def)

lemma jbool_jtext [simp]: "jtext d (jbool b)"
  by (rule jtext_lit) (simp add: jbool_def)

lemma name_toks [simp]:
  "keyTok ''claims''" "keyTok ''completions''" "keyTok ''rejections''" "keyTok ''evictions''" "keyTok ''releases''"
  "keyTok ''broadcasts''" "keyTok ''avg_compute_ms''" "keyTok ''current_owned''" "keyTok ''uptime''" "keyTok ''enabled''"
  "keyTok ''totals''" "keyTok ''per_task''" "keyTok ''per_session''"
  by (rule plainKey_keyTok(1), simp add: plainKey_def code_def htmlUnsafe_def)+

lemma unquote_names [simp]:
  "unquote ''claims'' = ''claims''" "unquote ''completions'' = ''completions''" "unquote ''rejections'' = ''rejections''"
  "unquote ''evictions'' = ''evictions''" "unquote ''releases'' = ''releases''" "unquote ''broadcasts'' = ''broadcasts''"
  "unquote ''avg_compute_ms'' = ''avg_compute_ms''" "unquote ''current_owned'' = ''current_owned''"
  "unquote ''uptime'' = ''uptime''" "unquote ''enabled'' = ''enabled''" "unquote ''totals'' = ''totals''"
  "unquote ''per_task'' = ''per_task''" "unquote ''per_session'' = ''per_session''"
  by (rule plainKey_keyTok(2), simp add: plainKey_def code_def htmlUnsafe_def)+

lemma entries_jtext [simp]:
  "d < 50 \<Longrightarrow> jtext d (marshal_Totals t)" "d < 50 \<Longrightarrow> jtext d (marshal_TaskSnap ts)" "d < 50 \<Longrightarrow> jtext d (marshal_SessionSnap ss)"
  by (auto simp: marshal_Totals_def marshal_TaskSnap_def marshal_SessionSnap_def jmember_def intro!: jtext_jobject)

lemma jmap_jtext:
  assumes "\<And>v. jtext (Suc d) (f v)" and "d < 50"
  shows "jtext d (jmap f ks m)"
  using assms by (auto simp: jmap_def jmember_def keyTok_quoteBody intro!: jtext_jobject split: option.split)

lemma snapshot_members:
  "m \<in> set [(''uptime'', jstring (snap_Uptime s)), (''enabled'', jbool (snap_Enabled s)),
     (''totals'', marshal_Totals (snap_Totals s)), (''per_task'', jmap marshal_TaskSnap ts (snap_PerTask s)),
     (''per_session'', jmap marshal_SessionSnap ss (snap_PerSession s))] \<Longrightarrow> d < 40 \<Longrightarrow> jmember d m"
  by (auto simp: jmember_def intro!: jmap_jtext)

lemma marshal_Snapshot_jtext: "jtext 0 (marshal_Snapshot ts ss s)"
  unfolding marshal_Snapshot_def by (rule jtext_jobject) (auto intro: snapshot_members)

lemma members_jmap:
  assumes "\<And>v. jtext 0 (f v)"
  shows "members (jmap f ks (Some m)) = Some (map (\<lambda>k. (toValidUTF8 k, f (the (m k)))) (sort ks))"
proof -
  have "members (jobject (map (\<lambda>k. (quoteBody k, f (the (m k)))) (sort ks))) =
      Some (map (\<lambda>(k, v). (unquote k, v)) (map (\<lambda>k. (quoteBody k, f (the (m k)))) (sort ks)))"
    using assms by (intro members_jobject) (auto simp: jmember_def keyTok_quoteBody)
  then show ?thesis by (simp add: jmap_def quoteBody_facts(4) o_def)
qed

lemma enumerations_sort: "enumerates ks m \<Longrightarrow> enumerates ks' m \<Longrightarrow> sort ks = sort ks'"
  by (auto simp: enumerates_def intro!: sorted_distinct_set_unique)

text \<open>C38. The metrics endpoint: the body of a response is one line, a JSON text that does not depend on the order in
  which Go ranges over the maps; a client that parses it finds the five fields of the snapshot, and under
  \<open>per_task\<close> and \<open>per_session\<close> exactly one entry for each task and each session of the recorder, in the order of
  their IDs, with its counters.\<close>

theorem metrics_endpoint_exact:
  assumes "enumerates ts (rec_tasks r)" and "enumerates ss (rec_sessions r)"
    and "enumerates ts' (rec_tasks r)" and "enumerates ss' (rec_sessions r)"
  shows "http_Body (HTTPHandler now ts' ss' (Some r)) = http_Body (HTTPHandler now ts ss (Some r)) \<and>
     (\<exists>body fs pt ps. http_Body (HTTPHandler now ts ss (Some r)) = body @ [NL] \<and> NL \<notin> set body \<and>
        jsonValue 0 (body @ [NL]) = Some body \<and> members body = Some fs \<and>
        map fst fs = [''uptime'', ''enabled'', ''totals'', ''per_task'', ''per_session''] \<and>
        map_of fs ''per_task'' = Some pt \<and>
        members pt = Some (map (\<lambda>k. (toValidUTF8 k, marshal_TaskSnap (taskSnap (the (rec_tasks r k))))) (sort ts)) \<and>
        map_of fs ''per_session'' = Some ps \<and>
        members ps = Some (map (\<lambda>k. (toValidUTF8 k, marshal_SessionSnap (sessionSnap (the (rec_sessions r k))))) (sort ss)))"
proof (rule conjI)
  have sorts: "sort ts' = sort ts" "sort ss' = sort ss" using assms enumerations_sort by blast+
  then show "http_Body (HTTPHandler now ts' ss' (Some r)) = http_Body (HTTPHandler now ts ss (Some r))"
    by (simp add: HTTPHandler_def marshal_Snapshot_def jmap_def split: option.split)
next
  let ?s = "recorder_Snapshot now (Some r)"
  let ?body = "marshal_Snapshot ts ss ?s"
  let ?pt = "jmap marshal_TaskSnap ts (snap_PerTask ?s)" and ?ps = "jmap marshal_SessionSnap ss (snap_PerSession ?s)"
  let ?fs = "[(''uptime'', jstring (snap_Uptime ?s)), (''enabled'', jbool (snap_Enabled ?s)), (''totals'', marshal_Totals (snap_Totals ?s)),
     (''per_task'', ?pt), (''per_session'', ?ps)]"
  have j: "jtext 0 ?body" by (rule marshal_Snapshot_jtext)
  have "NL \<notin> set ?body" using jtext_printable [OF j] by (auto simp: NL_def code_def)
  moreover have "jsonValue 0 (?body @ [NL]) = Some ?body" using j by (intro jsonValue_jtext) (simp_all add: NL_def isSpace_def)
  moreover have "members ?body = Some (map (\<lambda>(k, v). (unquote k, v)) ?fs)"
    unfolding marshal_Snapshot_def by (rule members_jobject) (rule snapshot_members, simp_all)
  then have "members ?body = Some ?fs" by simp
  moreover have "\<exists>m. snap_PerTask ?s = Some m \<and> (\<forall>k v. rec_tasks r k = Some v \<longrightarrow> m k = Some (taskSnap v))"
    "\<exists>m. snap_PerSession ?s = Some m \<and> (\<forall>k v. rec_sessions r k = Some v \<longrightarrow> m k = Some (sessionSnap v))"
    by (simp_all add: recorder_Snapshot_def)
  then have "members ?pt = Some (map (\<lambda>k. (toValidUTF8 k, marshal_TaskSnap (taskSnap (the (rec_tasks r k))))) (sort ts))"
    "members ?ps = Some (map (\<lambda>k. (toValidUTF8 k, marshal_SessionSnap (sessionSnap (the (rec_sessions r k))))) (sort ss))"
    using assms(1,2) by (auto simp: members_jmap enumerates_def)
  ultimately show "\<exists>body fs pt ps. http_Body (HTTPHandler now ts ss (Some r)) = body @ [NL] \<and> NL \<notin> set body \<and>
        jsonValue 0 (body @ [NL]) = Some body \<and> members body = Some fs \<and>
        map fst fs = [''uptime'', ''enabled'', ''totals'', ''per_task'', ''per_session''] \<and>
        map_of fs ''per_task'' = Some pt \<and>
        members pt = Some (map (\<lambda>k. (toValidUTF8 k, marshal_TaskSnap (taskSnap (the (rec_tasks r k))))) (sort ts)) \<and>
        map_of fs ''per_session'' = Some ps \<and>
        members ps = Some (map (\<lambda>k. (toValidUTF8 k, marshal_SessionSnap (sessionSnap (the (rec_sessions r k))))) (sort ss))"
    by (intro exI [of _ ?body] exI [of _ ?fs] exI [of _ ?pt] exI [of _ ?ps]) (simp add: HTTPHandler_def)
qed


theorem metrics_endpoint_exact_witness:
  "\<exists>body. http_Body (HTTPHandler 0 [''t''] [] (Some (recorder_New 0 True\<lparr>rec_tasks := [''t'' \<mapsto> zeroTaskStats]\<rparr>))) = body @ [NL] \<and>
     jsonValue 0 (body @ [NL]) = Some body \<and>
     (\<exists>fs pt. members body = Some fs \<and> map_of fs ''per_task'' = Some pt \<and> members pt = Some [(''t'', marshal_TaskSnap (taskSnap zeroTaskStats))])"
proof -
  let ?r = "recorder_New 0 True\<lparr>rec_tasks := [''t'' \<mapsto> zeroTaskStats]\<rparr>"
  have e: "enumerates [''t''] (rec_tasks ?r)" "enumerates [] (rec_sessions ?r)" by (auto simp: enumerates_def recorder_New_def)
  have "toValidUTF8 ''t'' = ''t''" by code_simp
  with metrics_endpoint_exact [OF e e, of 0] show ?thesis by fastforce
qed

end
