(* ===== verification/Relay.thy ===== *)
theory Relay imports Network begin

text \<open>
  The two messages that the test worker of a peer (\<open>cmd/peer/main.go\<close>) sends at a tick, and what a node
  (\<open>internal/peer/peer.go\<close>) over a TCP manager does with each of them: it merges a new submission, applies a
  newer announcement, and ignores the rest; with what it then sends to each of its peers.

  A node that hears of a submission through another node merges it twice.
\<close>

section \<open>The messages of a tick\<close>

definition submitNote :: "string \<Rightarrow> bytes \<Rightarrow> request" where
  "submitNote x d = (MsgSubmitResult, '''', Some (PSubmitResult \<lparr>srp_TaskID = x, srp_Data = Some d, srp_Meta = None\<rparr>))"

definition diffNote :: "string \<Rightarrow> uint64 \<Rightarrow> bytes \<Rightarrow> ObjectDiff" where
  "diffNote x v d = \<lparr>od_ObjectID = x, od_Data = Some d, od_Version = v, od_Meta = None\<rparr>"

definition updateNote :: "string \<Rightarrow> uint64 \<Rightarrow> bytes \<Rightarrow> request" where
  "updateNote x v d = (MsgWorldUpdate, '''', Some (PWorldUpdate \<lparr>wup_Objects = Some [diffNote x v d]\<rparr>))"

definition workData :: "bytes \<Rightarrow> bool" where
  "workData d \<longleftrightarrow> (\<exists>u v. u < 100 \<and> v < 100 \<and> d = worker_data u v)"

lemma workDataE:
  assumes "workData d"
  obtains u v where "u < 100" "v < 100" "d = worker_data u v"
  using assms by (auto simp: workData_def)

lemma workData_facts: "workData d \<Longrightarrow> marshalRaw (Some d) = Some d" "workData d \<Longrightarrow> wellNested (Some d)"
  by (auto elim!: workDataE simp: worker_data_facts)

lemma note_types:
  "env_Type (received (submitNote x d)) = MsgSubmitResult" "env_RequestID (received (submitNote x d)) = ''''"
  "env_Type (received (updateNote x v d)) = MsgWorldUpdate" "env_RequestID (received (updateNote x v d)) = ''''"
  by (simp_all add: received_def submitNote_def updateNote_def message_types_valid toValidUTF8_ascii code_def)

lemma notes_encodable:
  assumes "workData d"
  shows "encodable (submitNote x d)" "encodable (updateNote x v d)"
  using workData_facts(2) [OF assms] by (simp_all add: encodable_def submitNote_def updateNote_def raws_def rawsOf_def diffNote_def)

lemma notes_decode:
  assumes "workData d" and "toValidUTF8 x = x"
  shows "unmarshal_SubmitResult (env_Payload (received (submitNote x d))) = Some \<lparr>srp_TaskID = x, srp_Data = Some d, srp_Meta = None\<rparr>"
    and "unmarshal_WorldUpdate (env_Payload (received (updateNote x v d))) = Some \<lparr>wup_Objects = Some [diffNote x v d]\<rparr>"
proof -
  have "\<forall>m \<in> set (raws (PSubmitResult \<lparr>srp_TaskID = x, srp_Data = Some d, srp_Meta = None\<rparr>)). wellNested m"
    using notes_encodable(1) [OF assms(1), of x] by (simp add: encodable_def submitNote_def)
  from unmarshal_submit_json [OF this] show "unmarshal_SubmitResult (env_Payload (received (submitNote x d))) =
      Some \<lparr>srp_TaskID = x, srp_Data = Some d, srp_Meta = None\<rparr>"
    using workData_facts(1) [OF assms(1)] assms(2) by (simp add: received_def submitNote_def)
  have "\<forall>m \<in> set (raws (PWorldUpdate \<lparr>wup_Objects = Some [diffNote x v d]\<rparr>)). wellNested m"
    using notes_encodable(2) [OF assms(1), of x v] by (simp add: encodable_def updateNote_def)
  from unmarshal_update_json [OF this] show "unmarshal_WorldUpdate (env_Payload (received (updateNote x v d))) =
      Some \<lparr>wup_Objects = Some [diffNote x v d]\<rparr>"
    using workData_facts(1) [OF assms(1)] assms(2) by (simp add: received_def updateNote_def receivedDiff_def diffNote_def)
qed

lemma wire_note: "encodable q \<Longrightarrow> protocol_Encode (fst q) (fst (snd q)) (snd (snd q)) = Some (wire q)"
  using datagram_decodes(2) [of q] by (auto simp: wire_def)

lemma wire_notes:
  assumes "workData d"
  shows "protocol_Encode MsgSubmitResult '''' (Some (PSubmitResult \<lparr>srp_TaskID = x, srp_Data = Some d, srp_Meta = None\<rparr>)) = Some (wire (submitNote x d))"
    and "protocol_Encode MsgWorldUpdate '''' (Some (PWorldUpdate \<lparr>wup_Objects = Some [diffNote x v d]\<rparr>)) = Some (wire (updateNote x v d))"
  using wire_note [OF notes_encodable(1) [OF assms]] wire_note [OF notes_encodable(2) [OF assms]]
  by (simp_all add: submitNote_def updateNote_def)

text \<open>The IDs of the announcements of different versions differ, also from those of submissions.\<close>

lemma update_ids:
  assumes "workData d" and "workData d'" and "toValidUTF8 x = x"
    and "messageID (received (updateNote x v d)) = messageID (received (updateNote x v' d'))"
  shows "v = v'"
proof -
  have "env_Payload (received (updateNote x v d)) = env_Payload (received (updateNote x v' d'))"
  proof -
    have "env_Payload (received (updateNote x w e)) \<noteq> None" if "workData e" for w e
      using wire_notes(2) [OF that, of x w] by (auto simp: protocol_Encode_def updateNote_def received_def bind_eq_Some_conv)
    then obtain b b' where "env_Payload (received (updateNote x v d)) = Some b" "env_Payload (received (updateNote x v' d')) = Some b'"
      using assms(1,2) by blast
    then show ?thesis using assms(4) by (simp add: messageID_def note_types)
  qed
  then have "Some \<lparr>wup_Objects = Some [diffNote x v d]\<rparr> = Some \<lparr>wup_Objects = Some [diffNote x v' d']\<rparr>"
    unfolding notes_decode(2) [OF assms(1,3), symmetric] notes_decode(2) [OF assms(2,3), symmetric] by (rule arg_cong)
  then show ?thesis by (simp add: diffNote_def)
qed

lemma note_ids_differ: "messageID (received (submitNote x d)) \<noteq> messageID (received (updateNote x v d'))"
  by (rule message_types_differ) (simp_all add: note_types)


section \<open>What a node does with them\<close>

definition good_order :: "(PeerManager \<Rightarrow> TcpOracle) \<Rightarrow> bool" where
  "good_order ord \<longleftrightarrow> (\<forall>m. pm_ok m \<longrightarrow> enumerates (to_order (ord m)) (map_of (pm_peers m)))"

definition peer_ready :: "(PeerManager \<Rightarrow> TcpOracle) \<Rightarrow> (char slice \<Rightarrow> string) \<Rightarrow> string \<Rightarrow> PeerManager Node \<Rightarrow> bool" where
  "peer_ready ord errText x n \<longleftrightarrow> pm_ok (nf_mgr (nd_fx n)) \<and> handlers (nd_world n) = [node_on_change tcpManager ord] \<and>
     mergeFunc (nd_coord n) = peer_mergeFunc errText \<and> (\<forall>ob. objects (nd_world n) x = Some ob \<longrightarrow> obj_ID ob = x \<and> obj_Meta ob = None)"

definition view :: "string \<Rightarrow> 's Node \<Rightarrow> (uint64 \<times> char slice) option" where
  \<comment> \<open>version and data of an object\<close>
  "view x n = map_option (\<lambda>ob. (obj_Version ob, obj_Data ob)) (objects (nd_world n) x)"

abbreviation outbox_to :: "string \<Rightarrow> PeerManager Node \<Rightarrow> bytes list option" where
  "outbox_to pid n \<equiv> pm_outboxes (nf_mgr (nd_fx n)) pid"

lemma view_version: "versionOf x n = (case view x n of None \<Rightarrow> 0 | Some (v, d) \<Rightarrow> v)"
  by (simp add: view_def versionOf_def currentVersion_def split: option.split)

lemma peer_readyD:
  assumes "peer_ready ord errText x n"
  shows "pm_ok (nf_mgr (nd_fx n))" "handlers (nd_world n) = [node_on_change tcpManager ord]"
    "mergeFunc (nd_coord n) = peer_mergeFunc errText" "objects (nd_world n) x = Some ob \<Longrightarrow> obj_ID ob = x \<and> obj_Meta ob = None"
  using assms by (simp_all add: peer_ready_def)

lemma pass_on:
  fixes src :: string
  assumes "good_order ord" and "pm_ok (nf_mgr e)" and "protocol_Encode t rid (Some pl) = Some b"
  defines "e' \<equiv> fx_gossip tcpManager ord t rid pl src e"
  shows "pm_ok (nf_mgr e')" "pm_events (nf_mgr e') = pm_events (nf_mgr e)"
    "pm_outboxes (nf_mgr e') pid = (if pid = src then pm_outboxes (nf_mgr e) pid
       else map_option (\<lambda>q. chan_offer outboxCap q b) (pm_outboxes (nf_mgr e) pid))"
proof -
  have orders: "enumerates (to_order (ord (nf_mgr e))) (map_of (pm_peers (nf_mgr e)))" using assms(1,2) by (simp add: good_order_def)
  show "pm_ok (nf_mgr e')" unfolding e'_def using assms(2) by (rule tcp.fx_gossip_valid)
  show "pm_events (nf_mgr e') = pm_events (nf_mgr e)"
    using peering_manager.gossip_events(1) [OF tcp.peering_manager_axioms, of "ord (nf_mgr e)" t rid "Some pl" src "nf_mgr e"] by (simp add: e'_def fx_gossip_def tcpManager_def)
  show "pm_outboxes (nf_mgr e') pid = (if pid = src then pm_outboxes (nf_mgr e) pid
       else map_option (\<lambda>q. chan_offer outboxCap q b) (pm_outboxes (nf_mgr e) pid))"
    unfolding e'_def by (rule tcp.fx_gossip_outboxes [where ord = ord, OF assms(2) orders assms(3)])
qed

lemma puts_handlers: "handlers (fst (fst (thread (world_put clk) qs s))) = handlers (fst s)"
proof (induction qs arbitrary: s)
  case (Cons q qs)
  obtain w e i where s: "s = (w, e, i)" by (cases s)
  show ?case using Cons.IH [of "fst (world_put clk q s)"]
    by (simp add: thread_Cons s world_put_unfold split_def del: thread.simps(2))
qed simp

lemma node_submit_handlers [simp]: "handlers (nd_world (node_submit orc sub n)) = handlers (nd_world n)"
  using puts_handlers [of "no_world orc" "dec_Updates (mergeFunc (nd_coord n) sub)" "(nd_world n, nd_fx n, 0)"]
  by (cases "dec_Accept (mergeFunc (nd_coord n) sub)")
    (simp_all add: coordinator_Submit_accepted coordinator_Submit_rejected Let_def split_def)

lemma announce:
  fixes old :: "Object option"
  assumes "good_order ord" and "pm_ok (nf_mgr e)" and "workData d" and "announced ob = diffNote x v d"
  defines "e' \<equiv> fire_recover [node_on_change tcpManager ord] (appliedEvent old ob) e"
  shows "pm_ok (nf_mgr e')" "pm_events (nf_mgr e') = pm_events (nf_mgr e)"
    "pid \<noteq> '''' \<Longrightarrow> pm_outboxes (nf_mgr e') pid = map_option (\<lambda>q. chan_offer outboxCap q (wire (updateNote x v d))) (pm_outboxes (nf_mgr e) pid)"
proof -
  let ?e = "fx_metric (WorldUpdated (obj_ID ob) (case old of None \<Rightarrow> 0 | Some o' \<Rightarrow> obj_Version o') (obj_Version ob)) e"
  have "pm_ok (nf_mgr ?e)" using assms(2) by simp
  note p = pass_on [where e = ?e and src = "''''", OF assms(1) this wire_notes(2) [OF assms(3)], of x v]
  show "pm_ok (nf_mgr e')" "pm_events (nf_mgr e') = pm_events (nf_mgr e)"
    "pid \<noteq> '''' \<Longrightarrow> pm_outboxes (nf_mgr e') pid = map_option (\<lambda>q. chan_offer outboxCap q (wire (updateNote x v d))) (pm_outboxes (nf_mgr e) pid)"
    unfolding e'_def fire_on_change assms(4) using p by simp_all
qed

lemma handle_seen:
  assumes "g_seen (nd_gossip n) (messageID env) \<noteq> None"
  shows "node_handlePeerMessage M ord orc src env n = n"
proof -
  have "ShouldForward (no_seen orc) env (nd_gossip n) = (nd_gossip n, False)" using assms by (simp add: ShouldForward_def Let_def)
  then show ?thesis by (simp add: node_handlePeerMessage_def)
qed

lemma handle_submit:
  fixes n :: "PeerManager Node" and orc :: NodeOracle and src :: string
  assumes "good_order ord" and "peer_ready ord errText x n" and "workData d" and "toValidUTF8 x = x" and "src \<noteq> ''''"
    and "g_seen (nd_gossip n) (messageID (received (submitNote x d))) = None"
  defines "n' \<equiv> node_handlePeerMessage tcpManager ord orc src (received (submitNote x d)) n" and "v \<equiv> versionOf x n + 1"
  shows "peer_ready ord errText x n'" "view x n' = Some (v, Some d)"
    "g_seen (nd_gossip n') = (g_seen (nd_gossip n))(messageID (received (submitNote x d)) \<mapsto> no_seen orc)"
    "pm_events (nf_mgr (nd_fx n')) = pm_events (nf_mgr (nd_fx n))"
    "pid \<noteq> '''' \<Longrightarrow> outbox_to pid n' = map_option (\<lambda>q. let q1 = chan_offer outboxCap q (wire (updateNote x v d)) in
       if pid = src then q1 else chan_offer outboxCap q1 (wire (submitNote x d))) (outbox_to pid n)"
proof -
  obtain a b where d: "a < 100" "b < 100" "d = worker_data a b" using assms(3) by (rule workDataE)
  note n = peer_readyD [OF assms(2)]
  let ?env = "received (submitNote x d)" and ?sub = "\<lparr>sub_TaskID = x, sub_OwnerID = src, sub_Data = Some d, sub_Meta = None\<rparr>"
  obtain g where g: "ShouldForward (no_seen orc) ?env (nd_gossip n) = (g, True)" "g_seen g = (g_seen (nd_gossip n))(messageID ?env \<mapsto> no_seen orc)"
    by (rule fresh_forward [OF assms(6)])
  let ?n = "n\<lparr>nd_gossip := g\<rparr>" and ?ob = "workerObject (no_world orc 0) x d (objects (nd_world n) x)"
  let ?n1 = "node_submit orc ?sub ?n"
  have n': "n' = ?n1\<lparr>nd_fx := fx_gossip tcpManager ord MsgSubmitResult '''' (PSubmitResult \<lparr>srp_TaskID = x, srp_Data = Some d, srp_Meta = None\<rparr>) src (nd_fx ?n1)\<rparr>"
    using g(1) notes_decode(1) [OF assms(3,4)]
    by (simp add: n'_def node_handlePeerMessage_def node_handleRemoteSubmit_def Let_def note_types MsgSubmitResult_def MsgWorldUpdate_def)
  have fn: "mergeFunc (nd_coord ?n) = peer_mergeFunc errText" using n(3) by simp
  have objs: "objects (nd_world ?n1) = (objects (nd_world n))(x \<mapsto> ?ob)"
    using node_submit_worker(1) [where sub = ?sub and orc = orc, OF fn d(1,2)] d(3) by simp
  have mgr: "nf_mgr (nd_fx ?n1) = nf_mgr (fire_recover [node_on_change tcpManager ord] (appliedEvent (objects (nd_world n) x) ?ob) (nd_fx n))"
    using node_submit_worker(2) [where sub = ?sub and orc = orc, OF fn d(1,2)] d(3) n(2) by simp
  have meta: "obj_Meta ?ob = None" using n(4) by (cases "objects (nd_world n) x") (simp_all add: workerObject_def)
  then have ob: "announced ?ob = diffNote x v d" by (simp add: announced_def diffNote_def workerObject_def v_def versionOf_def)
  note a = announce [where old = "objects (nd_world n) x", OF assms(1) n(1) assms(3) ob, folded mgr]
  note p = pass_on [where e = "nd_fx ?n1", OF assms(1) a(1) wire_notes(1) [OF assms(3)], of x src]
  have hs: "handlers (nd_world ?n1) = handlers (nd_world n)" by (simp only: node_submit_handlers) simp
  show "peer_ready ord errText x n'" using p(1) n meta objs hs by (simp add: n' peer_ready_def workerObject_def)
  show "view x n' = Some (v, Some d)" using objs by (simp add: n' view_def workerObject_def v_def versionOf_def)
  show "g_seen (nd_gossip n') = (g_seen (nd_gossip n))(messageID ?env \<mapsto> no_seen orc)" by (simp add: n' g(2))
  show "pm_events (nf_mgr (nd_fx n')) = pm_events (nf_mgr (nd_fx n))" using p(2) a(2) by (simp add: n')
  show "outbox_to pid n' = map_option (\<lambda>q. let q1 = chan_offer outboxCap q (wire (updateNote x v d)) in
       if pid = src then q1 else chan_offer outboxCap q1 (wire (submitNote x d))) (outbox_to pid n)" if "pid \<noteq> ''''"
    using p(3) [of pid] a(3) [OF that] by (cases "pid = src") (simp_all add: n' option.map_comp o_def Let_def)
qed


lemma newer_diffNote: "newer (diffNote x v d) (nd_world n) \<longleftrightarrow> view x n = None \<or> versionOf x n < v"
  by (auto simp: newer_def diffNote_def view_def versionOf_def currentVersion_def split: option.split)

lemma handle_update_old:
  assumes "workData d" and "toValidUTF8 x = x" and "view x n \<noteq> None" and "v \<le> versionOf x n"
  defines "env \<equiv> received (updateNote x v d)"
  shows "\<exists>g. node_handlePeerMessage M ord orc src env n = n\<lparr>nd_gossip := g\<rparr> \<and>
     (\<forall>mid. g_seen g mid \<noteq> None \<longrightarrow> g_seen (nd_gossip n) mid \<noteq> None \<or> mid = messageID env)"
proof (cases "g_seen (nd_gossip n) (messageID env)")
  case (Some t)
  then show ?thesis by (intro exI [of _ "nd_gossip n"]) (simp add: handle_seen)
next
  case None
  obtain g where g: "ShouldForward (no_seen orc) env (nd_gossip n) = (g, True)" "g_seen g = (g_seen (nd_gossip n))(messageID env \<mapsto> no_seen orc)"
    by (rule fresh_forward [OF None])
  have "\<not> newer (diffNote x v d) (nd_world n)" using assms(3,4) by (simp add: newer_diffNote)
  then have "node_handlePeerMessage M ord orc src env n = n\<lparr>nd_gossip := g\<rparr>"
    using g(1) notes_decode(2) [OF assms(1,2), of v]
    by (simp add: env_def node_handlePeerMessage_def node_handleWorldUpdate_def Let_def note_types applyDiff_eq)
  then show ?thesis using g(2) by (auto split: if_splits)
qed

lemma handle_update_new:
  fixes n :: "PeerManager Node" and orc :: NodeOracle and src :: string
  assumes "good_order ord" and "peer_ready ord errText x n" and "workData d" and "toValidUTF8 x = x" and "src \<noteq> ''''"
    and "g_seen (nd_gossip n) (messageID (received (updateNote x v d))) = None" and "view x n = None \<or> versionOf x n < v"
  defines "n' \<equiv> node_handlePeerMessage tcpManager ord orc src (received (updateNote x v d)) n" and "k \<equiv> versionOf x n + 1"
  shows "peer_ready ord errText x n'" "view x n' = Some (k, Some d)"
    "g_seen (nd_gossip n') = (g_seen (nd_gossip n))(messageID (received (updateNote x v d)) \<mapsto> no_seen orc)"
    "pm_events (nf_mgr (nd_fx n')) = pm_events (nf_mgr (nd_fx n))"
    "pid \<noteq> '''' \<Longrightarrow> outbox_to pid n' = map_option (\<lambda>q. let q1 = chan_offer outboxCap q (wire (updateNote x k d)) in
       if pid = src then q1 else chan_offer outboxCap q1 (wire (updateNote x v d))) (outbox_to pid n)"
proof -
  note n = peer_readyD [OF assms(2)]
  let ?env = "received (updateNote x v d)" and ?d = "diffNote x v d" and ?old = "objects (nd_world n) x" and ?now = "no_world orc 0"
  obtain g where g: "ShouldForward (no_seen orc) ?env (nd_gossip n) = (g, True)" "g_seen g = (g_seen (nd_gossip n))(messageID ?env \<mapsto> no_seen orc)"
    by (rule fresh_forward [OF assms(6)])
  let ?ob = "appliedObject ?now ?old (remoteRequest (nd_tags n) ?d)"
  let ?e = "fire_recover [node_on_change tcpManager ord] (appliedEvent ?old ?ob) (nd_fx n)"
  let ?fx = "fx_gossip tcpManager ord MsgWorldUpdate '''' (PWorldUpdate \<lparr>wup_Objects = Some [?d]\<rparr>) src ?e"
  have new: "newer ?d (nd_world n)" using assms(7) by (simp add: newer_diffNote)
  have n': "n' = n\<lparr>nd_gossip := g, nd_world := (nd_world n)\<lparr>objects := (objects (nd_world n))(x \<mapsto> ?ob)\<rparr>,
      nd_log := nd_log n @ [LogApplied x v src], nd_fx := ?fx\<rparr>"
    using g(1) notes_decode(2) [OF assms(3,4), of v] new n(2)
    by (simp add: n'_def node_handlePeerMessage_def node_handleWorldUpdate_def Let_def note_types applyDiff_eq diffNote_def)
  have ob: "obj_ID ?ob = x" "obj_Data ?ob = Some d" "obj_Version ?ob = k" "obj_Meta ?ob = None"
    using n(4) by (cases ?old; simp add: appliedObject_def remoteRequest_def diffNote_def orExisting_simps k_def versionOf_def currentVersion_def)+
  then have "announced ?ob = diffNote x k d" by (simp add: announced_def diffNote_def)
  note a = announce [where old = ?old, OF assms(1) n(1) assms(3) this]
  note p = pass_on [where e = ?e, OF assms(1) a(1) wire_notes(2) [OF assms(3)], of x v src]
  show "peer_ready ord errText x n'" using p(1) n ob by (simp add: n' peer_ready_def)
  show "view x n' = Some (k, Some d)" using ob by (simp add: n' view_def)
  show "g_seen (nd_gossip n') = (g_seen (nd_gossip n))(messageID ?env \<mapsto> no_seen orc)" by (simp add: n' g(2))
  show "pm_events (nf_mgr (nd_fx n')) = pm_events (nf_mgr (nd_fx n))" using p(2) a(2) by (simp add: n')
  show "outbox_to pid n' = map_option (\<lambda>q. let q1 = chan_offer outboxCap q (wire (updateNote x k d)) in
       if pid = src then q1 else chan_offer outboxCap q1 (wire (updateNote x v d))) (outbox_to pid n)" if "pid \<noteq> ''''"
    using p(3) [of pid] a(3) [OF that] by (cases "pid = src") (simp_all add: n' option.map_comp o_def Let_def)
qed

section \<open>A submission that comes by way of another node\<close>

text \<open>C36. A submission that reaches a node by way of another one is merged twice there: a peer that merges a new
  submission first announces its object to all its peers and then passes the submission on to all but the
  sender; a peer that held the object at the same version and handles these two messages, in this order,
  applies the announcement and then merges the submission as well, so that its version grows by two for one
  result while that of the node in between grows by one; and what it announces last raises the version of the
  node in between too.\<close>

theorem relayed_submission_merged_twice:
  fixes c b :: "PeerManager Node" and oc ob1 ob2 oc2 :: NodeOracle and src pid bsrc csrc :: string
  assumes "good_order ord" and "good_order ord'" and "peer_ready ord errC x c" and "peer_ready ord' errB x b"
    and "workData d" and "toValidUTF8 x = x" and "'''' \<notin> {src, pid, bsrc, csrc}" and "pid \<noteq> src"
    and "g_seen (nd_gossip c) (messageID (received (submitNote x d))) = None" and "outbox_to pid c = Some []"
    and "\<forall>v. g_seen (nd_gossip b) (messageID (received (updateNote x v d))) = None \<and> g_seen (nd_gossip c) (messageID (received (updateNote x v d))) = None"
    and "g_seen (nd_gossip b) (messageID (received (submitNote x d))) = None"
    and "versionOf x b = k" and "versionOf x c = k" and "unat k + 2 < 2 ^ 64"
  defines "c' \<equiv> node_handlePeerMessage tcpManager ord oc src (received (submitNote x d)) c"
    and "b' \<equiv> node_handlePeerMessage tcpManager ord' ob2 bsrc (received (submitNote x d))
       (node_handlePeerMessage tcpManager ord' ob1 bsrc (received (updateNote x (k + 1) d)) b)"
  shows "outbox_to pid c' = Some [wire (updateNote x (k + 1) d), wire (submitNote x d)] \<and>
     view x c' = Some (k + 1, Some d) \<and> view x b' = Some (k + 2, Some d) \<and>
     view x (node_handlePeerMessage tcpManager ord oc2 csrc (received (updateNote x (k + 2) d)) c') = Some (k + 2, Some d)"
proof -
  let ?b = "node_handlePeerMessage tcpManager ord' ob1 bsrc (received (updateNote x (k + 1) d)) b"
  have less: "k < k + 1" "k + 1 < k + 2"
    using assms(15) by (simp_all add: word_less_nat_alt unat_word_ariths)
  have ne: "src \<noteq> ''''" "pid \<noteq> ''''" "bsrc \<noteq> ''''" "csrc \<noteq> ''''" using assms(7) by auto
  note hc = handle_submit [where orc = oc, OF assms(1,3,5,6) ne(1) assms(9), folded c'_def]
  have c: "outbox_to pid c' = Some [wire (updateNote x (k + 1) d), wire (submitNote x d)]"
    using hc(5) [OF ne(2)] assms(8,10,14) by (simp add: Let_def chan_offer_def outboxCap_def)
  have vc: "view x c' = Some (k + 1, Some d)" using hc(2) assms(14) by simp
  have old: "view x b = None \<or> versionOf x b < k + 1" using less(1) assms(13) by simp
  have fresh: "g_seen (nd_gossip b) (messageID (received (updateNote x (k + 1) d))) = None" using assms(11) by blast
  note hb = handle_update_new [where orc = ob1, OF assms(2,4,5,6) ne(3) fresh old]
  have seen: "g_seen (nd_gossip ?b) (messageID (received (submitNote x d))) = None"
    using hb(3) assms(12) note_ids_differ [of x d "k + 1" d] by simp
  have vb: "versionOf x ?b = k + 1" using hb(2) assms(13) by (simp add: view_version)
  have "view x b' = Some (k + 1 + 1, Some d)"
    using handle_submit(2) [where orc = ob2, OF assms(2) hb(1) assms(5,6) ne(3) seen] vb by (simp add: b'_def)
  moreover have "view x (node_handlePeerMessage tcpManager ord oc2 csrc (received (updateNote x (k + 2) d)) c') = Some (versionOf x c' + 1, Some d)"
  proof (rule handle_update_new(2) [where orc = oc2, OF assms(1) hc(1) assms(5,6) ne(4)])
    show "g_seen (nd_gossip c') (messageID (received (updateNote x (k + 2) d))) = None"
      using hc(3) assms(11) note_ids_differ [of x d "k + 2" d] by (metis fun_upd_other)
    show "view x c' = None \<or> versionOf x c' < k + 2" using vc less(2) by (simp add: view_version)
  qed
  moreover have "versionOf x c' = k + 1" using vc by (simp add: view_version)
  ultimately show ?thesis using c vc by (simp add: add.assoc)
qed

definition messages :: "PeerEvent list \<Rightarrow> PeerEvent list" where
  "messages es = filter (\<lambda>e. pe_Kind e = EventPeerMessage) es"

lemma messages_simps [simp]:
  "messages [] = []" "messages (e # es) = (if pe_Kind e = EventPeerMessage then e # messages es else messages es)"
  "messages (es @ es') = messages es @ messages es'"
  by (simp_all add: messages_def)

lemma example_good_order: "good_order exampleOrder"
  by (auto simp: good_order_def exampleOrder_def enumerates_def pm_okD(1) dom_map_of_conv_image_fst)

lemma exampleTcp_quiet: "pm_outboxes exampleTcp ''peer-7-0'' = Some []" "messages (pm_events exampleTcp) = []"
  by (simp_all add: pm_outboxes_def exampleTcp_facts newPeer_def)
    (simp add: exampleTcp_def pm_open_def pm_addPeer_def pm_New_def pm_emit_def Let_def chan_offer_def eventsCap_def)

lemma example_valid: "toValidUTF8 ''obj-1'' = ''obj-1''"
  by (rule toValidUTF8_ascii) (simp add: code_def)

theorem relayed_submission_merged_twice_witness:
  "view ''obj-1'' (node_handlePeerMessage tcpManager exampleOrder exampleNodeOracle ''p'' (received (submitNote ''obj-1'' (worker_data 3 4))) examplePeer) =
     Some (1, Some (worker_data 3 4)) \<and>
   view ''obj-1'' (node_handlePeerMessage tcpManager exampleOrder exampleNodeOracle ''p'' (received (submitNote ''obj-1'' (worker_data 3 4)))
     (node_handlePeerMessage tcpManager exampleOrder exampleNodeOracle ''p'' (received (updateNote ''obj-1'' 1 (worker_data 3 4))) examplePeer)) =
     Some (2, Some (worker_data 3 4))"
proof -
  have ready: "peer_ready exampleOrder (\<lambda>_. ''error'') ''obj-1'' examplePeer" by (simp add: peer_ready_def examplePeer_facts exampleTcp_facts(1))
  have w: "workData (worker_data 3 4)" unfolding workData_def by (intro exI [of _ 3] exI [of _ 4]) simp
  have v: "versionOf ''obj-1'' examplePeer = 0" by (simp add: versionOf_def examplePeer_facts currentVersion_def)
  from relayed_submission_merged_twice [where src = "''p''" and pid = "''peer-7-0''" and bsrc = "''p''" and csrc = "''p''" and oc = exampleNodeOracle and
      ?ob1.0 = exampleNodeOracle and ?ob2.0 = exampleNodeOracle and ?oc2.0 = exampleNodeOracle, OF example_good_order example_good_order ready ready w example_valid]
  show ?thesis by (simp add: examplePeer_facts exampleTcp_quiet v)
qed

end
