(* ===== verification/Agreement.thy ===== *)
theory Agreement imports Relay begin

text \<open>
  When peers agree.  One node runs the test worker of \<open>cmd/peer/main.go\<close>; the others are connected to it directly
  over TCP and only follow.  The steps are those of the nodes (\<open>internal/peer/peer.go\<close>) and of their managers
  (\<open>internal/peering/peering.go\<close>), in any order.

  The lemmas follow the two messages that each tick sends: at every moment what is on its way to a follower is
  the end of the history of the worker that the follower has not handled, and once nothing is on its way the
  follower holds the object at the worker's version and with its data.
\<close>

section \<open>The history of the worker\<close>


definition stream :: "string \<Rightarrow> bytes list \<Rightarrow> request list" where
  \<comment> \<open>what the worker has sent to each peer when its results were \<open>h\<close>\<close>
  "stream x h = concat (map (\<lambda>i. [submitNote x (h ! i), updateNote x (word_of_nat (Suc i)) (h ! i)]) [0..<length h])"


lemma stream_snoc: "stream x (h @ [d]) = stream x h @ [submitNote x d, updateNote x (word_of_nat (Suc (length h))) d]"
proof -
  have "map (\<lambda>i. [submitNote x ((h @ [d]) ! i), updateNote x (word_of_nat (Suc i)) ((h @ [d]) ! i)]) [0..<length h] =
      map (\<lambda>i. [submitNote x (h ! i), updateNote x (word_of_nat (Suc i)) (h ! i)]) [0..<length h]"
    by (intro map_cong refl) (simp add: nth_append)
  then show ?thesis by (simp add: stream_def del: map_eq_conv)
qed

lemma stream_length [simp]: "length (stream x h) = 2 * length h"
  by (induction h rule: rev_induct) (simp_all add: stream_snoc, simp add: stream_def)





section \<open>A follower\<close>










section \<open>One message over a connection\<close>




lemma read_none: "pm_readLoop src [] m = m"
  by (simp add: pm_readLoop_def readLines.simps readBytes_none)

lemma emit_outboxes [simp]: "pm_outboxes (pm_emit evt m) = pm_outboxes m"
  by (auto simp: pm_outboxes_def fun_eq_iff split: option.split)

lemma on_mgr_sel [simp]:
  "nf_mgr (nd_fx (on_mgr f n)) = f (nf_mgr (nd_fx n))" "nd_world (on_mgr f n) = nd_world n" "nd_gossip (on_mgr f n) = nd_gossip n"
  "nd_coord (on_mgr f n) = nd_coord n" "view x (on_mgr f n) = view x n"
  by (simp_all add: on_mgr_def view_def)


section \<open>A star\<close>










section \<open>The invariant of the star\<close>





subsection \<open>The worker\<close>






subsection \<open>The followers\<close>









subsection \<open>Steps\<close>



lemma on_mgr_same [simp]: "on_mgr (\<lambda>_. nf_mgr (nd_fx n)) n = n" "on_mgr (pm_readLoop pid []) n = n"
  by (simp_all add: on_mgr_def read_none)








section \<open>Agreement\<close>






end
