(* ===== verification/PeerProgram.thy ===== *)
theory PeerProgram imports PeerStop Relay MetricsJson begin

text \<open>
  The peer program as a whole, \<open>cmd/peer/main.go\<close>: from the flags to the running goroutines, and its shutdown.
  What the running goroutines do is in \<open>PeerMain\<close> (\<open>dialPeer\<close>, \<open>worker_tick\<close>), \<open>PeerNode\<close> (\<open>node_event\<close>) and the
  managers; a goroutine that is started is recorded with its arguments.

  The lemmas show when the program starts, that it starts in a state in which the theorems about nodes and
  managers hold, and that stopping the joined managers stops the UDP side only after the TCP side.
\<close>

section \<open>Start\<close>

record PeerFlags =
  fl_listen :: string
  fl_peers :: string
  fl_tags :: string
  fl_metrics :: string
  fl_work :: duration
  fl_name :: string
  fl_transport :: string

text \<open>The reasons for \<open>log.Fatalf\<close>, with the texts of the errors.\<close>

datatype peer_fatal = FatalTransport string | FatalTcpListen string | FatalUdpListen string

datatype dial_target = ToTcp | ToUdp

datatype peer_log = LogTcpListening string string | LogUdpListening string string | LogStarted string string nat

record 's PeerProgram =
  pp_name :: string
  pp_node :: "'s Node"
  pp_dials :: "(dial_target \<times> string) list"
  pp_endpoint :: "string option"
  pp_worker :: "duration option"
  pp_log :: "peer_log list"

datatype peer_running =
    RunTcp "PeerManager PeerProgram"
  | RunUdp "UDPManager PeerProgram"
  | RunBoth "(PeerManager, UDPManager) FanIn PeerProgram"

definition listenTcp :: "TcpOracle \<Rightarrow> string \<Rightarrow> peer_fatal + PeerManager" where
  "listenTcp orc listen = (case pmi_Listen tcpManager orc listen pm_New of (m, None) \<Rightarrow> Inr m | (_, Some err) \<Rightarrow> Inl (FatalTcpListen err))"

definition listenUdp :: "UdpOracle \<Rightarrow> string \<Rightarrow> peer_fatal + UDPManager" where
  "listenUdp orc listen = (case pmi_Listen udpManager orc listen um_New of (m, None) \<Rightarrow> Inr m | (_, Some err) \<Rightarrow> Inl (FatalUdpListen err))"

definition peer_assemble ::
    "(char slice \<Rightarrow> string) \<Rightarrow> gotime \<Rightarrow> ('o, 's) PeeringManager \<Rightarrow> ('s \<Rightarrow> 'o) \<Rightarrow> PeerFlags \<Rightarrow> string \<Rightarrow> 's \<Rightarrow>
     (dial_target \<times> string) list \<Rightarrow> peer_log list \<Rightarrow> 's PeerProgram" where
  \<comment> \<open>what follows the choice of the manager\<close>
  "peer_assemble errText now M ord fl name activeMgr dials logs =
     \<lparr>pp_name = name,
      pp_node = peer_node errText M ord activeMgr (Some (recorder_New now (fl_metrics fl \<noteq> ''''))) (fl_tags fl),
      pp_dials = dials,
      pp_endpoint = (if fl_metrics fl \<noteq> '''' then Some (fl_metrics fl) else None),
      pp_worker = (if fl_work fl > 0 then Some (fl_work fl) else None),
      pp_log = logs @ [LogStarted name (fl_transport fl) (pmi_PeerCount M activeMgr)]\<rparr>"

definition peer_main ::
    "(char slice \<Rightarrow> string) \<Rightarrow> gotime \<Rightarrow> nat \<Rightarrow> TcpOracle \<Rightarrow> UdpOracle \<Rightarrow> (PeerManager \<Rightarrow> TcpOracle) \<Rightarrow> (UDPManager \<Rightarrow> UdpOracle) \<Rightarrow>
     PeerFlags \<Rightarrow> peer_fatal + peer_running" where
  \<comment> \<open>\<open>r\<close>: the random number of the name; \<open>orcT\<close>, \<open>orcU\<close>: the results of listening\<close>
  "peer_main errText now r orcT orcU ordT ordU fl =
     (let name = peerName r (fl_name fl); addrs = elems (parsePeerAddrs (fl_peers fl)); listen = fl_listen fl in
      case checkTransport (fl_transport fl) of
        None \<Rightarrow> Inl (FatalTransport (fl_transport fl))
      | Some KindTcp \<Rightarrow>
          (case listenTcp orcT listen of
             Inl err \<Rightarrow> Inl err
           | Inr mgr \<Rightarrow> Inr (RunTcp (peer_assemble errText now tcpManager ordT fl name mgr
                 (map (\<lambda>a. (ToTcp, a)) addrs) [LogTcpListening name listen])))
      | Some KindUdp \<Rightarrow>
          (case listenUdp orcU listen of
             Inl err \<Rightarrow> Inl err
           | Inr mgr \<Rightarrow> Inr (RunUdp (peer_assemble errText now udpManager ordU fl name mgr
                 (map (\<lambda>a. (ToUdp, a)) addrs) [LogUdpListening name listen])))
      | Some KindBoth \<Rightarrow>
          (case listenTcp orcT listen of
             Inl err \<Rightarrow> Inl err
           | Inr tcpMgr \<Rightarrow>
               (case listenUdp orcU listen of
                  Inl err \<Rightarrow> Inl err
                | Inr udpMgr \<Rightarrow>
                    Inr (RunBoth (peer_assemble errText now (fanInManager tcpManager udpManager)
                      (\<lambda>m. (ordT (fi_a m), ordU (fi_b m))) fl name (fan_New tcpMgr udpMgr)
                      (concat (map (\<lambda>a. [(ToTcp, a), (ToUdp, a)]) addrs)) [LogTcpListening name listen, LogUdpListening name listen])))))"

text \<open>The goroutine of a dial in a program with both transports calls one of the two managers, not the joined one.\<close>

definition dial_both ::
    "TcpOracle \<Rightarrow> UdpOracle \<Rightarrow> dial_target \<times> string \<Rightarrow> (PeerManager, UDPManager) FanIn \<times> main_log list \<Rightarrow> (PeerManager, UDPManager) FanIn \<times> main_log list" where
  "dial_both orcT orcU d s =
     (case fst d of
        ToTcp \<Rightarrow> (case dialPeer tcpManager orcT (snd d) (fi_a (fst s), snd s) of (a, ls) \<Rightarrow> ((fst s)\<lparr>fi_a := a\<rparr>, ls))
      | ToUdp \<Rightarrow> (case dialPeer udpManager orcU (snd d) (fi_b (fst s), snd s) of (b, ls) \<Rightarrow> ((fst s)\<lparr>fi_b := b\<rparr>, ls)))"

section \<open>The metrics endpoint\<close>

definition peer_metrics :: "gotime \<Rightarrow> string list \<Rightarrow> string list \<Rightarrow> 's PeerProgram \<Rightarrow> HttpResponse option" where
  \<comment> \<open>the answer to a request for \<open>/metrics\<close>, if the endpoint is on\<close>
  "peer_metrics now ts ss p = map_option (\<lambda>_. HTTPHandler now ts ss (nf_metrics (nd_fx (pp_node p)))) (pp_endpoint p)"

section \<open>Shutdown\<close>

text \<open>\<open>activeMgr.Stop()\<close> of the joined managers: the TCP manager first, then the UDP manager.\<close>

record BothLife =
  bl_tcp :: PmLife
  bl_udp :: UmLife

datatype both_phase = BsTcp | BsUdp | BsDone

definition both_begin :: "BothLife \<Rightarrow> both_phase \<times> BothLife" where
  "both_begin l = (BsTcp, l\<lparr>bl_tcp := pm_halt (bl_tcp l)\<rparr>)"

fun both_step :: "both_phase \<times> BothLife \<Rightarrow> both_phase \<times> BothLife" where
  \<comment> \<open>a wait that is over ends\<close>
  "both_step (BsTcp, l) = (if pm_waiting (bl_tcp l) then (BsTcp, l) else (BsUdp, l\<lparr>bl_udp := um_halt (bl_udp l)\<rparr>))"
| "both_step (BsUdp, l) = (if um_waiting (bl_udp l) then (BsUdp, l) else (BsDone, l))"
| "both_step (BsDone, l) = (BsDone, l)"

text \<open>What happens meanwhile: the goroutines of either manager go on, or the goroutine of \<open>Stop\<close> does.\<close>

datatype both_event = BeTcp pm_event | BeUdp udp_loop | BeStop

fun both_react :: "both_event \<Rightarrow> both_phase \<times> BothLife \<Rightarrow> both_phase \<times> BothLife" where
  "both_react (BeTcp ev) s = (fst s, (snd s)\<lparr>bl_tcp := pm_react ev (bl_tcp (snd s))\<rparr>)"
| "both_react (BeUdp k) s = (fst s, (snd s)\<lparr>bl_udp := um_check k (bl_udp (snd s))\<rparr>)"
| "both_react BeStop s = both_step s"

definition both_reacts :: "both_event list \<Rightarrow> both_phase \<times> BothLife \<Rightarrow> both_phase \<times> BothLife" where
  "both_reacts evs s = fold both_react evs s"


section \<open>Properties\<close>

definition dial_plan :: "dial_target list \<Rightarrow> string list \<Rightarrow> (dial_target \<times> string) list" where
  "dial_plan ts addrs = concat (map (\<lambda>a. map (\<lambda>t. (t, a)) ts) addrs)"

definition node_started :: "(char slice \<Rightarrow> string) \<Rightarrow> ('o, 's) PeeringManager \<Rightarrow> ('s \<Rightarrow> 'o) \<Rightarrow> PeerFlags \<Rightarrow> dial_target list \<Rightarrow> 's PeerProgram \<Rightarrow> bool" where
  "node_started errText M ord fl ts p \<longleftrightarrow> objects (nd_world (pp_node p)) = Map.empty \<and> handlers (nd_world (pp_node p)) = [node_on_change M ord] \<and>
     mergeFunc (nd_coord (pp_node p)) = peer_mergeFunc errText \<and> nd_tags (pp_node p) = parseTags (fl_tags fl) \<and>
     g_seen (nd_gossip (pp_node p)) = Map.empty \<and> recorder_Enabled (nf_metrics (nd_fx (pp_node p))) = (fl_metrics fl \<noteq> '''') \<and>
     pmi_PeerCount M (nf_mgr (nd_fx (pp_node p))) = 0 \<and> pp_dials p = dial_plan ts (elems (parsePeerAddrs (fl_peers fl)))"

lemma listenTcp_simps:
  "listenTcp orc listen = (case to_error orc of Some err \<Rightarrow> Inl (FatalTcpListen (''listen '' @ listen @ '': '' @ err))
     | None \<Rightarrow> Inr (pm_New\<lparr>pm_listener := Some (to_addr orc)\<rparr>))"
  by (simp add: listenTcp_def tcpManager_def pm_Listen_def split: option.split)

lemma listenUdp_simps:
  "listenUdp orc listen = (case uo_resolve orc of Inl err \<Rightarrow> Inl (FatalUdpListen (''resolve '' @ listen @ '': '' @ err))
     | Inr a \<Rightarrow> (case uo_error orc of Some err \<Rightarrow> Inl (FatalUdpListen (''listen udp '' @ listen @ '': '' @ err))
        | None \<Rightarrow> Inr (um_New\<lparr>um_conn := Some (uo_addr orc)\<rparr>)))"
  by (simp add: listenUdp_def udpManager_def um_Listen_def split: option.split sum.split)

lemma dial_plan_simps:
  "map (\<lambda>a. (t, a)) as = dial_plan [t] as" "concat (map (\<lambda>a. [(t, a), (u, a)]) as) = dial_plan [t, u] as"
  unfolding dial_plan_def by (induction as) simp_all

lemma fan_New_sel: "fi_a (fan_New a b) = a" "fi_b (fan_New a b) = b"
  by (simp_all add: fan_New_def)

lemma assembled:
  "pmi_PeerCount M mgr = 0 \<Longrightarrow> node_started errText M ord fl ts (peer_assemble errText now M ord fl name mgr (dial_plan ts (elems (parsePeerAddrs (fl_peers fl)))) logs)"
  "nf_mgr (nd_fx (pp_node (peer_assemble errText now M ord fl name mgr dials logs))) = mgr"
  by (simp_all add: node_started_def peer_assemble_def peer_node_def node_Run_def node_New_def world_New_def world_OnChange_def
      coordinator_New_def gossip_New_def recorder_Enabled_def recorder_New_def)

text \<open>C31. How the peer program starts: it ends at once exactly if the transport is none of the three, or a manager that
  it needs cannot listen; otherwise it runs a node with an empty store, whose changes are announced, over
  managers without peers that satisfy their invariants; it dials every address of the flag once over each of its
  transports.\<close>

theorem peer_main_starts:
  "case peer_main errText now r orcT orcU ordT ordU fl of
     Inl err \<Rightarrow>
       err = FatalTransport (fl_transport fl) \<and> fl_transport fl \<notin> {''tcp'', ''udp'', ''both''} \<or>
       (\<exists>t. err = FatalTcpListen t) \<and> fl_transport fl \<in> {''tcp'', ''both''} \<and> to_error orcT \<noteq> None \<or>
       (\<exists>t. err = FatalUdpListen t) \<and> fl_transport fl \<in> {''udp'', ''both''} \<and> (case uo_resolve orcU of Inl _ \<Rightarrow> True | Inr _ \<Rightarrow> uo_error orcU \<noteq> None)
   | Inr (RunTcp p) \<Rightarrow> fl_transport fl = ''tcp'' \<and> to_error orcT = None \<and> node_started errText tcpManager ordT fl [ToTcp] p \<and> (\<forall>x. peer_ready ordT errText x (pp_node p))
   | Inr (RunUdp p) \<Rightarrow> fl_transport fl = ''udp'' \<and> \<not> isl (uo_resolve orcU) \<and> uo_error orcU = None \<and> node_started errText udpManager ordU fl [ToUdp] p \<and> um_ok 0 (nf_mgr (nd_fx (pp_node p)))
   | Inr (RunBoth p) \<Rightarrow> fl_transport fl = ''both'' \<and> to_error orcT = None \<and> \<not> isl (uo_resolve orcU) \<and> uo_error orcU = None \<and>
       node_started errText (fanInManager tcpManager udpManager) (\<lambda>m. (ordT (fi_a m), ordU (fi_b m))) fl [ToTcp, ToUdp] p \<and>
       pm_ok (fi_a (nf_mgr (nd_fx (pp_node p)))) \<and> um_ok 0 (fi_b (nf_mgr (nd_fx (pp_node p))))"
proof -
  let ?m = "pm_New\<lparr>pm_listener := Some (to_addr orcT)\<rparr>" and ?u = "um_New\<lparr>um_conn := Some (uo_addr orcU)\<rparr>"
  have m: "pm_ok ?m" "pmi_PeerCount tcpManager ?m = 0"
    using pm_ok_New by (simp_all add: pm_ok_def tcpManager_def pm_PeerCount_def) (simp add: pm_New_def)
  have u: "um_ok 0 ?u" "pmi_PeerCount udpManager ?u = 0"
    by (simp_all add: um_ok_def udpManager_def um_PeerCount_def um_New_def newUDPPeer_def)
  have b: "pmi_PeerCount (fanInManager tcpManager udpManager) (fan_New ?m ?u) = 0"
    using m(2) u(2) by (simp add: fanInManager_def fan_PeerCount_def fan_New_sel)
  have ready: "peer_ready ordT errText x (pp_node p)" if "node_started errText tcpManager ordT fl ts p" "nf_mgr (nd_fx (pp_node p)) = ?m" for x p ts
    using that m(1) by (simp add: node_started_def peer_ready_def)
  consider "checkTransport (fl_transport fl) = None" "fl_transport fl \<notin> {''tcp'', ''udp'', ''both''}"
    | "checkTransport (fl_transport fl) = Some KindTcp" "fl_transport fl = ''tcp''"
    | "checkTransport (fl_transport fl) = Some KindUdp" "fl_transport fl = ''udp''"
    | "checkTransport (fl_transport fl) = Some KindBoth" "fl_transport fl = ''both''"
    by (cases "checkTransport (fl_transport fl)") (auto simp: checkTransport_def split: if_splits)
  then show ?thesis
    unfolding peer_main_def Let_def listenTcp_simps listenUdp_simps dial_plan_simps
    by cases (simp_all add: assembled m u b ready [OF assembled(1) [OF m(2)] assembled(2)] fan_New_sel split: option.split sum.split)
qed

definition exampleListen :: TcpOracle where
  "exampleListen = \<lparr>to_order = [], to_error = None, to_addr = '':7000'', to_nanos = 0\<rparr>"

definition exampleFlags :: PeerFlags where
  "exampleFlags = \<lparr>fl_listen = '':7000'', fl_peers = ''a:7, b:7'', fl_tags = ''*'', fl_metrics = '''', fl_work = 0,
     fl_name = ''p1'', fl_transport = ''both''\<rparr>"

theorem peer_main_starts_witness:
  "\<exists>p. peer_main (\<lambda>_. ''error'') 3 0 exampleListen exampleUdpOracle (\<lambda>_. exampleListen) (\<lambda>_. exampleUdpOracle) exampleFlags = Inr (RunBoth p) \<and>
     pp_dials p = [(ToTcp, ''a:7''), (ToUdp, ''a:7''), (ToTcp, ''b:7''), (ToUdp, ''b:7'')] \<and>
     objects (nd_world (pp_node p)) = Map.empty \<and> nd_tags (pp_node p) = Some [''*''] \<and>
     \<not> recorder_Enabled (nf_metrics (nd_fx (pp_node p)))"
proof -
  let ?main = "peer_main (\<lambda>_. ''error'') 3 0 exampleListen exampleUdpOracle (\<lambda>_. exampleListen) (\<lambda>_. exampleUdpOracle) exampleFlags"
  obtain p where p: "?main = Inr (RunBoth p)"
    by (simp add: peer_main_def Let_def listenTcp_simps listenUdp_simps checkTransport_def exampleFlags_def exampleListen_def exampleUdpOracle_def)
  have "elems (parsePeerAddrs (fl_peers exampleFlags)) = [''a:7'', ''b:7'']"
    using fields_join [of "[''a:7'', ''b:7'']" "'' ''"] by (simp add: exampleFlags_def parsePeerAddrs_def entry_def trimmed_ascii)
  moreover have "parseTags (fl_tags exampleFlags) = Some [''*'']" "fl_metrics exampleFlags = ''''"
    by (simp_all add: exampleFlags_def parseTags_def)
  ultimately show ?thesis using p peer_main_starts [where errText = "\<lambda>_. ''error''" and now = 3 and r = 0 and orcT = exampleListen
      and orcU = exampleUdpOracle and ordT = "\<lambda>_. exampleListen" and ordU = "\<lambda>_. exampleUdpOracle" and fl = exampleFlags]
    by (simp add: node_started_def dial_plan_def)
qed

section \<open>Stopping both\<close>

lemma both_orphan:
  assumes "fst s = BsTcp" and "orphan p (bl_tcp (snd s))" and "\<not> um_stopped (uml_mgr (bl_udp (snd s)))" and "BeTcp (PeRemoteEnd p) \<notin> set evs"
  shows "fst (both_reacts evs s) = BsTcp \<and> bl_udp (snd (both_reacts evs s)) = bl_udp (snd s)"
  using assms unfolding both_reacts_def
proof (induction evs arbitrary: s)
  case (Cons ev evs)
  have "fst (both_react ev s) = BsTcp \<and> orphan p (bl_tcp (snd (both_react ev s))) \<and> bl_udp (snd (both_react ev s)) = bl_udp (snd s)"
  proof (cases ev)
    case (BeTcp e)
    then show ?thesis using Cons.prems orphan_react [of p "bl_tcp (snd s)" e] by auto
  next
    case (BeUdp k)
    then show ?thesis using Cons.prems by (simp add: um_check_def)
  next
    case BeStop
    have "pm_waiting (bl_tcp (snd s))" using Cons.prems(2) by (auto simp: orphan_def pm_waiting_def)
    then show ?thesis using Cons.prems BeStop by (cases s) simp
  qed
  with Cons.IH [of "both_react ev s"] Cons.prems show ?case by simp
qed simp

lemma both_tcp: "both_reacts (map BeTcp es) (ph, l) = (ph, l\<lparr>bl_tcp := pm_reacts es (bl_tcp l)\<rparr>)"
  unfolding both_reacts_def pm_reacts_def by (induction es arbitrary: l) simp_all

lemma both_udp: "both_reacts (map BeUdp ks) (ph, l) = (ph, l\<lparr>bl_udp := fold um_check ks (bl_udp l)\<rparr>)"
  unfolding both_reacts_def by (induction ks arbitrary: l) simp_all


text \<open>C30. Stopping a program with both transports, TCP first: a TCP connection that is dialled after \<open>Stop\<close> has closed
  the others keeps not only the TCP manager but also the UDP manager running, whatever else happens, until its
  other end closes it; if there is none, and no accepted connection without a peer, then \<open>Stop\<close> of both is over
  once the accept loop has failed, each TCP connection has noticed that it is closed, and each UDP loop has looked
  at \<open>stopChan\<close>.\<close>

theorem joined_stop_order:
  assumes "pm_runs (bl_tcp l)" and "\<not> um_stopped (uml_mgr (bl_udp l))"
  shows "(idFree nanos (bl_tcp l) \<and> BeTcp (PeRemoteEnd (pm_next (pl_mgr (bl_tcp l)))) \<notin> set evs \<longrightarrow>
       fst (both_reacts (BeTcp (PeDial nanos addr) # evs) (both_begin l)) = BsTcp \<and>
       bl_udp (snd (both_reacts (BeTcp (PeDial nanos addr) # evs) (both_begin l))) = bl_udp l) \<and>
     (pl_spawned (bl_tcp l) = 0 \<and> set ps = pl_conns (bl_tcp l) \<and> {ReadLoop, WriteLoop, TimeoutLoop} \<subseteq> set ks \<longrightarrow>
       fst (both_reacts (map BeTcp (PeAcceptError # map PeLocalEnd ps) @ BeStop # map BeUdp ks @ [BeStop]) (both_begin l)) = BsDone)"
proof (intro conjI impI)
  assume a: "idFree nanos (bl_tcp l) \<and> BeTcp (PeRemoteEnd (pm_next (pl_mgr (bl_tcp l)))) \<notin> set evs"
  let ?s = "both_react (BeTcp (PeDial nanos addr)) (both_begin l)"
  have "orphan (pm_next (pl_mgr (bl_tcp l))) (bl_tcp (snd ?s))"
    using orphan_late [OF pm_runs_ok [OF assms(1)], of nanos addr] a by (simp add: both_begin_def)
  from both_orphan [OF _ this _ a [THEN conjunct2]] assms(2)
  show "fst (both_reacts (BeTcp (PeDial nanos addr) # evs) (both_begin l)) = BsTcp"
    "bl_udp (snd (both_reacts (BeTcp (PeDial nanos addr) # evs) (both_begin l))) = bl_udp l"
    by (simp_all add: both_begin_def both_reacts_def)
next
  assume b: "pl_spawned (bl_tcp l) = 0 \<and> set ps = pl_conns (bl_tcp l) \<and> {ReadLoop, WriteLoop, TimeoutLoop} \<subseteq> set ks"
  let ?es = "PeAcceptError # map PeLocalEnd ps"
  have "draining (pm_halt (bl_tcp l))" by (rule draining_halt [OF pm_runs_ok [OF assms(1)] conjunct1 [OF b]])
  moreover have "\<forall>ev \<in> set ?es. \<not> brings_work ev" by (auto simp: brings_work_def)
  ultimately have w: "\<not> pm_waiting (pm_reacts ?es (pm_halt (bl_tcp l)))"
    using draining_reacts [of "pm_halt (bl_tcp l)" ?es] b by (auto simp: pm_waiting_def draining_def pm_halt_def)
  have u: "\<not> um_waiting (fold um_check ks (um_halt (bl_udp l)))" using um_stop_returns b by simp
  have "both_reacts (map BeTcp ?es @ BeStop # map BeUdp ks @ [BeStop]) (both_begin l) =
      both_step (both_reacts (map BeUdp ks) (both_step (both_reacts (map BeTcp ?es) (both_begin l))))"
    by (simp add: both_reacts_def)
  then show "fst (both_reacts (map BeTcp ?es @ BeStop # map BeUdp ks @ [BeStop]) (both_begin l)) = BsDone"
    using w u by (simp only: both_begin_def both_tcp) (simp add: both_udp)
qed


theorem joined_stop_order_witness:
  "\<exists>l. pl_conns (bl_tcp l) = {} \<and>
     fst (both_reacts [BeTcp (PeDial 8 ''10.0.0.2:5''), BeTcp PeAcceptError, BeStop] (both_begin l)) = BsTcp \<and>
     fst (both_reacts [BeTcp PeAcceptError, BeStop, BeUdp WriteLoop, BeUdp ReadLoop, BeUdp TimeoutLoop, BeStop] (both_begin l)) = BsDone"
proof -
  let ?l = "\<lparr>bl_tcp = pm_start exampleListen '':7000'', bl_udp = um_start exampleUdpOracle '':7000''\<rparr>"
  have t: "pl_conns (bl_tcp ?l) = {}" "pl_spawned (bl_tcp ?l) = 0" "pm_next (pl_mgr (bl_tcp ?l)) = 0"
    by (simp_all add: pm_start_def pm_Listen_def exampleListen_def pm_New_def)
  have r: "pm_runs (bl_tcp ?l)" "\<not> um_stopped (uml_mgr (bl_udp ?l))"
    by (simp_all add: pm_runs.start um_start_def um_Listen_def exampleUdpOracle_def um_New_def)
  have "idFree 8 (bl_tcp ?l)" by (simp only: idFree_def t) simp
  then show ?thesis
    using t joined_stop_order [OF r, of 8 "[BeTcp PeAcceptError, BeStop]" "''10.0.0.2:5''" "[]" "[WriteLoop, ReadLoop, TimeoutLoop]"]
    by (intro exI [of _ ?l]) auto
qed

end
