(* ===== verification/Spec2Isabelle.thy ===== *)
theory Spec2Isabelle
  imports ServerSystem Network PeerStop MetricsJson Agreement PeerProgram
begin

text \<open>
  DWCS: the coordination server and the peer-to-peer node.

  \<^bold>\<open>The program.\<close>  DWCS distributes tasks to clients and keeps a shared world of versioned objects.  In server
  mode (\<open>cmd/server/main.go\<close>) clients connect over TCP or UDP; the dispatcher serves their requests: they
  subscribe to tags, acquire leases on tasks, and submit results, which the merge coordinator turns into
  updates of the world; the projector sends the objects that a session is subscribed to at every tick.  In
  peer mode (\<open>cmd/peer/main.go\<close>) nodes broadcast submissions and world updates to each other through a
  manager of peers, over TCP, UDP or both, and pass on what they have not seen before.  The Go files at the
  top of the repository are copies of those under \<open>cmd\<close> and \<open>internal\<close>, which the theories model.

  \<^bold>\<open>Representation.\<close>  A struct is a record with a field prefix of its own, a string or byte slice a list of
  bytes, a slice that may be nil an option, a map a function to options (or a list of entries where its size
  or order matters), an unsigned counter a 64-bit word, a time the number of its nanoseconds.  An operation
  takes the state of its component and returns it changed; the results of the clock, of random numbers, of
  the order in which Go ranges over a map, and the texts of errors of libraries are arguments.  Errors are
  values, a panic is the value \<open>Panics\<close>.  Objects that several goroutines hold by pointer live in a heap
  inside the record of their manager.  A callback is a function on the state of the environment in which it
  runs.  A method that holds its mutex all the time is one atomic step; where a method drops its lock
  (\<open>Registry.Acquire\<close>) or where callbacks run after it, the steps are separate definitions.  A loop over a
  \<open>select\<close> is a function on the list of what the \<open>select\<close> receives.

  \<^bold>\<open>Theories, from the bottom.\<close>
  \<^item> \<open>Prelude\<close>: slices, times, callbacks with and without \<open>recover\<close>, ranging over maps, threading a state.
  \<^item> \<open>Channel\<close>: buffered channels that drop on overflow; the locale \<open>lossy_sender\<close> is the contract of
    everything that sends into one, with an interpretation for sessions, peers and both event queues.
  \<^item> \<open>Strconv\<close>, \<open>Json\<close>, \<open>JsonFacts\<close>: the parts of \<open>strconv\<close>, \<open>strings\<close> and \<open>encoding/json\<close> that the program uses,
    down to bytes.  The scanner runs on fuel, and \<open>scanValue_fuel\<close> shows that twice the length of a text is
    always enough.
  \<^item> \<open>Protocol\<close> (\<open>protocol.go\<close>): the envelope and the payloads; round trips for all that is decoded.
  \<^item> \<open>World\<close> (\<open>world.go\<close>): the store; it refines a log of accepted requests and satisfies the
    contract \<open>object_store\<close>, on which \<open>Merge\<close> (\<open>merge.go\<close>) rests.
  \<^item> \<open>Session\<close> (\<open>session.go\<close>): sessions in a heap, their outboxes and their manager.
  \<^item> \<open>Task\<close> (\<open>task.go\<close>): the registry with leases.  \<open>reg_step\<close> is the interleaving of the calls of any number of
    threads, with \<open>Acquire\<close> split where it drops the lock; the invariants are proved for its paths.
  \<^item> \<open>Metrics\<close> (\<open>metrics.go\<close>): counters, gauges, the snapshot and the log lines; \<open>MetricsJson\<close>: the endpoint
    that writes a snapshot as JSON.
  \<^item> \<open>Dispatcher\<close> (\<open>dispatcher.go\<close>): one function per request; what a request can and cannot change.
  \<^item> \<open>Projector\<close> (\<open>projector.go\<close>): one tick; what clients see of the world.
  \<^item> \<open>Backend\<close> (\<open>cmd/server/main.go\<close>): the callbacks that connect the components.
  \<^item> \<open>Framing\<close>, \<open>Ids\<close>: what the TCP and UDP sides of servers and peers have in common.
  \<^item> \<open>Transport\<close>, \<open>UdpTransport\<close> (\<open>transport.go\<close>, \<open>transport/udp.go\<close>): connections, datagrams, their sessions.
  \<^item> \<open>ServerSystem\<close>: the running server as a step relation \<open>sys_step\<close> of all its goroutines.
  \<^item> \<open>Lifecycle\<close>: start and stop of both transports and the shutdown of the server program, with the goroutines
    that \<open>Stop\<close> waits for; what the loops do meanwhile is in the theories of the transports.
  \<^item> \<open>Peering\<close> (\<open>manager_iface.go\<close>): the interface of managers as a record of operations, and its contract, the
    locale \<open>peering_manager\<close>.
  \<^item> \<open>PeeringTcp\<close>, \<open>PeeringUdp\<close>, \<open>FanIn\<close> (\<open>peering.go\<close>, \<open>peering/udp.go\<close>, \<open>fanin.go\<close>): the three managers, each an
    interpretation of the contract; that two managers joined keep it is a \<open>sublocale\<close>.
  \<^item> \<open>PeerStop\<close>: the end of both managers; the loops that poll \<open>stopChan\<close> satisfy the locale \<open>polling_loops\<close>, here
    and in \<open>Lifecycle\<close>.
  \<^item> \<open>Gossip\<close> (\<open>gossip.go\<close>), \<open>PeerNode\<close> (\<open>peer.go\<close>): the handling of messages over any manager that keeps the contract.
  \<^item> \<open>Flags\<close>, \<open>IntMap\<close>, \<open>PeerMain\<close> (\<open>cmd/peer/main.go\<close>): the parts of the peer program; \<open>PeerProgram\<close>: \<open>main\<close> as a whole, from
    the flags to the running goroutines, and its shutdown over two joined managers.
  \<^item> \<open>Network\<close>: any number of nodes over TCP managers, \<open>net_step\<close>, with everything that can be on its way between them.
  \<^item> \<open>Relay\<close>: what a node does with the two messages of a tick of the test worker, and what it sends then.
  \<^item> \<open>Agreement\<close>: a node with the test worker and any number of followers connected to it, \<open>star_step\<close>, in any
    interleaving of ticks, goroutines of connections and event loops.

  \<^bold>\<open>What the lemmas show.\<close>
  \<^item> Data: the store is an append-only log in disguise, version checks exclude each other, subscribers that file
    the change events hold the store, messages survive the wire byte by byte and one by one.
  \<^item> Leases: status, owner and lease of a task agree under every interleaving; an unexpired lease protects its
    owner against everything but a thread that was already taking over an expired lease (another
    theorem shows that this exception is real); every owned task belongs to a registered session in every reachable
    state of the server, so ownership ends with the session.
  \<^item> Requests: what a request can change, that nothing a client sends makes the server panic, and that each
    connection serves exactly the requests that were sent on it.
  \<^item> Projection: a tick sends exactly what is due; a client that applies it is up to date; what is lost when
    a message is dropped.
  \<^item> Ends: when \<open>Stop\<close> of a transport or of a manager of peers returns, and which connections keep it from returning.
  \<^item> Peers: the managers deliver, in order and to the right peers, what fits into their queues; a message is
    taken once and forwarded unchanged; no storm of updates lasts, at one node
    or in the whole network.
  \<^item> Agreement: followers that are connected directly to the one node that works always hold the object as that
    node held it after one of its results, in order, and come to hold it as it is, as long as no queue overflows.  There
    is no such theorem for networks in general, because it would be false: two nodes that receive two updates in
    different orders keep different data at the same version, and a node that hears of a submission
    through another node merges it twice.  \<open>PeerNode\<close> and \<open>Relay\<close> prove both.
  \<^item> Programs: when the peer program starts, and that it starts in states in which the theorems about nodes and
    managers hold; in which order its shutdown waits for what.

  \<^bold>\<open>Bounds.\<close>  Statements about versions or IDs that count to \<open>2 ^ 64\<close> say so; queues have the capacities of
  the code (512, 256, 1024 and 2048), and what happens when they are full is part of the model.

  \<^bold>\<open>Not modelled.\<close>  The operating system's side of sockets (binding, deadlines), signals, the HTTP server
  around the metrics endpoint, the \<open>flag\<close> package and the log lines of start and stop, because they contain no
  decisions of the program.  Data races between the fields of one metric are not visible, because every method
  of the recorder is one step.  The text of errors of libraries is a parameter.  The start of a program is one
  step: no connection is accepted between the start of its manager and the construction of its node.
\<close>

end
